(* ===== verification/Py_Float.thy ===== *)
theory Py_Float
  imports Complex_Main "HOL-Library.Log_Nat"
begin

text \<open>
  Python's \<open>float\<close>: IEEE 754 binary64, round to nearest, ties to even.  A finite float is
  kept as the rational it denotes; every arithmetic result is the exact rational rounded by
  \<open>fl_round\<close>.  The amounts of the program (\<open>unit_price\<close>, \<open>line_total\<close>,
  \<open>total_amount\<close>, in \<open>api/models/events.py\<close> and \<open>api/services/aggregate.py\<close>) are such
  floats.  The sign of a zero is the only thing a value of this type does not record.
\<close>

datatype pyfloat = Fin rat | PInf | NInf | NaN

definition round_half_even :: "rat \<Rightarrow> int" where
  "round_half_even x =
     (let f = \<lfloor>x\<rfloor>; d = x - of_int f
      in if d < 1/2 then f else if 1/2 < d then f + 1 else if even f then f else f + 1)"

text \<open>The exponent of the leading bit of a positive rational.\<close>

definition ilog2 :: "rat \<Rightarrow> int" where
  "ilog2 x =
     (let pq = quotient_of x;
          k = int (floorlog 2 (nat (fst pq))) - int (floorlog 2 (nat (snd pq)))
      in if 2 powi k \<le> x then k else k - 1)"

definition fl_round :: "rat \<Rightarrow> pyfloat" where
  "fl_round x =
     (if x = 0 then Fin 0
      else let e = max (ilog2 \<bar>x\<bar>) (- 1022);
               u = 2 powi (e - 52);
               y = of_int (round_half_even (x / u)) * u
           in if 2 ^ 1024 \<le> y then PInf else if y \<le> - (2 ^ 1024) then NInf else Fin y)"

fun fl_add :: "pyfloat \<Rightarrow> pyfloat \<Rightarrow> pyfloat" where
  "fl_add (Fin a) (Fin b) = fl_round (a + b)"
| "fl_add NaN _ = NaN"
| "fl_add _ NaN = NaN"
| "fl_add PInf NInf = NaN"
| "fl_add NInf PInf = NaN"
| "fl_add PInf _ = PInf"
| "fl_add NInf _ = NInf"
| "fl_add (Fin _) PInf = PInf"
| "fl_add (Fin _) NInf = NInf"

fun fl_mul :: "pyfloat \<Rightarrow> pyfloat \<Rightarrow> pyfloat" where
  "fl_mul (Fin a) (Fin b) = fl_round (a * b)"
| "fl_mul NaN _ = NaN"
| "fl_mul _ NaN = NaN"
| "fl_mul PInf PInf = PInf"
| "fl_mul PInf NInf = NInf"
| "fl_mul NInf PInf = NInf"
| "fl_mul NInf NInf = PInf"
| "fl_mul PInf (Fin b) = (if b = 0 then NaN else if 0 < b then PInf else NInf)"
| "fl_mul NInf (Fin b) = (if b = 0 then NaN else if 0 < b then NInf else PInf)"
| "fl_mul (Fin a) PInf = (if a = 0 then NaN else if 0 < a then PInf else NInf)"
| "fl_mul (Fin a) NInf = (if a = 0 then NaN else if 0 < a then NInf else PInf)"

fun fl_pos :: "pyfloat \<Rightarrow> bool" where
  "fl_pos (Fin a) = (0 < a)"
| "fl_pos PInf = True"
| "fl_pos _ = False"


lemma round_half_even_int [simp]: "round_half_even (of_int n) = n"
  by (simp add: round_half_even_def)

lemma ilog2_of_int:
  assumes "0 < m"
  shows "ilog2 (of_int m) = int (floorlog 2 (nat m)) - 1"
proof -
  have pos: "0 < floorlog 2 (nat m)"
    using assms by (simp add: floorlog_def)
  have "2 ^ (floorlog 2 (nat m) - 1) \<le> nat m"
    using floorlog_bounds [of "nat m" 2] assms by simp
  then have "(2::int) ^ (floorlog 2 (nat m) - 1) \<le> m"
    using assms by (metis le_nat_iff nat_0_le of_nat_le_iff of_nat_numeral of_nat_power order_less_imp_le)
  then have "(2::rat) ^ (floorlog 2 (nat m) - 1) \<le> of_int m"
    by (metis of_int_le_iff of_int_numeral of_int_power)
  moreover have "(2::rat) powi (int (floorlog 2 (nat m)) - 1) = 2 ^ (floorlog 2 (nat m) - 1)"
    using pos by (simp add: power_int_def nat_diff_distrib)
  moreover have "floorlog 2 (Suc 0) = 1"
    by (simp add: floorlog_def)
  ultimately show ?thesis
    by (simp add: ilog2_def quotient_of_int)
qed

lemma floorlog_le_53:
  assumes "0 < m" and "m < 2 ^ 53"
  shows "floorlog 2 (nat m) \<le> 53"
proof -
  have "nat m < 2 ^ 53"
    using assms by (simp add: nat_less_iff)
  then show ?thesis
    using assms by (intro floorlog_leI) auto
qed

text \<open>Whole amounts below \<open>2\<^sup>53\<close> are exact.\<close>

lemma fl_round_of_int:
  assumes "\<bar>n\<bar> < 2 ^ 53"
  shows "fl_round (of_int n) = Fin (of_int n)"
proof (cases "n = 0")
  case True
  then show ?thesis by (simp add: fl_round_def)
next
  case False
  define k where "k = floorlog 2 (nat \<bar>n\<bar>)"
  define j where "j = 53 - k"
  have k: "k \<le> 53" "0 < k"
    using floorlog_le_53 [of "\<bar>n\<bar>"] assms False by (auto simp: k_def floorlog_def)
  have e: "max (ilog2 \<bar>of_int n\<bar>) (- 1022) = int k - 1"
    using ilog2_of_int [of "\<bar>n\<bar>"] False k by (simp add: k_def)
  have j: "int k - 1 - 52 = - int j"
    using k by (simp add: j_def)
  have u: "(2::rat) powi (int k - 1 - 52) = 1 / 2 ^ j"
    unfolding j by (simp only: power_int_minus power_int_of_nat inverse_eq_divide)
  have q: "(of_int n :: rat) / (1 / 2 ^ j) = of_int (n * 2 ^ j)"
    by simp
  have "\<bar>of_int n :: rat\<bar> < 2 ^ 53"
    using assms by (metis of_int_abs of_int_less_iff of_int_numeral of_int_power)
  also have "(2::rat) ^ 53 < 2 ^ 1024"
    by simp
  finally have "\<bar>of_int n :: rat\<bar> < 2 ^ 1024" .
  then have b: "\<not> 2 ^ 1024 \<le> (of_int n :: rat)" "\<not> of_int n \<le> - (2 ^ 1024 :: rat)"
    by linarith+
  show ?thesis
    unfolding fl_round_def Let_def e u q round_half_even_int
    using False b by simp
qed

lemmas fl_round_numeral [simp] =
  fl_round_of_int [of "numeral k", simplified] for k

section \<open>Finite results\<close>

definition finite_float :: "rat \<Rightarrow> bool" where
  "finite_float q \<longleftrightarrow> (case fl_round q of Fin _ \<Rightarrow> True | _ \<Rightarrow> False)"

lemma floorlog_sandwich:
  assumes "0 < m"
  shows "2 powi (int (floorlog 2 (nat m)) - 1) \<le> rat_of_int m"
    and "rat_of_int m < 2 powi int (floorlog 2 (nat m))"
proof -
  let ?k = "floorlog 2 (nat m)"
  have b: "2 ^ (?k - 1) \<le> nat m" "nat m < 2 ^ ?k"
    using floorlog_bounds [of "nat m" 2] assms by simp_all
  have m: "rat_of_int m = rat_of_nat (nat m)"
    using assms by simp
  have "int ?k - 1 = int (?k - 1)"
    using assms by (simp add: floorlog_def)
  then have "(2::rat) powi (int ?k - 1) = of_nat (2 ^ (?k - 1))"
    by (simp only: power_int_of_nat of_nat_power of_nat_numeral)
  then show "2 powi (int ?k - 1) \<le> rat_of_int m"
    unfolding m using b(1) by (simp only: of_nat_le_iff)
  have "(2::rat) powi int ?k = of_nat (2 ^ ?k)"
    by (simp only: power_int_of_nat of_nat_power of_nat_numeral)
  then show "rat_of_int m < 2 powi int ?k"
    unfolding m using b(2) by (simp only: of_nat_less_iff)
qed

lemma ilog2_below:
  assumes "0 < x"
  shows "2 powi ilog2 x \<le> x"
proof -
  obtain p q where pq: "quotient_of x = (p, q)" by (cases "quotient_of x")
  have x: "x = of_int p / of_int q" "0 < q"
    using quotient_of_div [OF pq] quotient_of_denom_pos [OF pq] by simp_all
  then have "0 < p"
    using assms by (simp add: zero_less_divide_iff)
  let ?a = "int (floorlog 2 (nat p)) - 1" and ?b = "int (floorlog 2 (nat q))"
  have "(2::rat) powi (?a - ?b) = 2 powi ?a / 2 powi ?b"
    by (simp add: power_int_diff)
  also have "\<dots> \<le> of_int p / of_int q"
    using floorlog_sandwich [OF \<open>0 < p\<close>] floorlog_sandwich [OF x(2)] \<open>0 < p\<close> x(2)
    by (intro frac_le) auto
  finally have "2 powi (?a - ?b) \<le> x"
    using x(1) by simp
  then show ?thesis
    by (simp add: ilog2_def pq Let_def algebra_simps)
qed

lemma round_half_even_near: "\<bar>of_int (round_half_even z)\<bar> \<le> \<bar>z\<bar> + 1"
proof -
  have "round_half_even z = \<lfloor>z\<rfloor> \<or> round_half_even z = \<lfloor>z\<rfloor> + 1 \<and> of_int \<lfloor>z\<rfloor> \<noteq> z"
    by (auto simp: round_half_even_def Let_def)
  moreover have "of_int \<lfloor>z\<rfloor> \<le> z" "z < of_int \<lfloor>z\<rfloor> + 1"
    by linarith+
  ultimately show ?thesis
    unfolding abs_le_iff by (elim disjE conjE) (simp_all only: of_int_add of_int_1, linarith+)
qed

text \<open>Rounding stays near: a number below \<open>2\<^sup>63\<close> in magnitude is rounded to a finite float.\<close>

lemma fl_round_finite:
  assumes "\<bar>x\<bar> < 2 ^ 63"
  shows "finite_float x"
proof (cases "x = 0")
  case True
  then show ?thesis by (simp add: finite_float_def fl_round_def)
next
  case False
  let ?e = "max (ilog2 \<bar>x\<bar>) (- 1022)"
  define u :: rat where "u = 2 powi (?e - 52)"
  have pos: "0 < u" by (simp add: u_def)
  have "u \<le> 2 powi ?e"
    unfolding u_def by (intro power_int_increasing) auto
  also have "\<dots> \<le> max (2 powi ilog2 \<bar>x\<bar>) (2 powi 0)"
    by (auto simp: max_def intro: power_int_increasing)
  also have "\<dots> \<le> \<bar>x\<bar> + 1"
    using ilog2_below [of "\<bar>x\<bar>"] False by auto
  finally have u: "u \<le> \<bar>x\<bar> + 1" .
  define y where "y = of_int (round_half_even (x / u)) * u"
  have "\<bar>y\<bar> \<le> (\<bar>x / u\<bar> + 1) * u"
    using round_half_even_near [of "x / u"] pos by (simp add: y_def abs_mult)
  also have "\<dots> = \<bar>x\<bar> + u"
    using pos by (simp add: field_simps)
  also have "\<dots> < 2 ^ 63 + (2 ^ 63 + 1)"
    using u assms by linarith
  also have "\<dots> < (2 :: rat) ^ 1024"
    by simp
  finally have "\<not> 2 ^ 1024 \<le> y" "\<not> y \<le> - (2 ^ 1024)"
    by linarith+
  then show ?thesis
    using False by (simp add: finite_float_def fl_round_def Let_def flip: u_def y_def)
qed

end
