(* ===== verification/Prelude.thy ===== *)
theory Prelude
  imports Py_Float "HOL-Library.Multiset" "HOL-Library.AList" "HOL-Library.Sublist"
begin

text \<open>
  The vocabulary every component shares: Python values and dictionaries, exceptions as
  values, programs that act on the outside world and may raise, and the generic lemmas on
  lists and dictionaries the component proofs use.  The collections \<open>io_simps\<close> and
  \<open>dict_simps\<close> and the inversion rules \<open>bindM_cases\<close> and \<open>tryM_cases\<close> carry most of those
  proofs.
\<close>

named_theorems dict_simps \<open>evaluation of dictionary lookups and updates\<close>
named_theorems io_simps \<open>unfolding of the sequencing operations\<close>
named_theorems keeps_intros \<open>rules for invariants of programs\<close>

section \<open>Python values\<close>

text \<open>
  Documents and JSON bodies are dynamically typed.  A dictionary keeps the insertion order of
  its keys.  A member of a \<open>str\<close>-based \<open>Enum\<close> is the string it is equal to.  A
  \<open>datetime\<close> is the epoch second it denotes.
\<close>

datatype pyval =
    PNone
  | PBool bool
  | PInt int
  | PFloat pyfloat
  | PDecimal rat
  | PStr string
  | PTime rat
  | PList "pyval list"
  | PDict "(string \<times> pyval) list"

type_synonym pydict = "(string \<times> pyval) list"

section \<open>Exceptions\<close>

text \<open>
  An f-string in an exception's text is kept as its parts.  \<open>DriverError s\<close> is an exception
  of a client library (motor, redis, asyncpg, boto3) whose \<open>str()\<close> is \<open>s\<close>.
\<close>

datatype fpart = Lit string | Fmt pyval

datatype exn =
    ValueError "fpart list"
  | KeyError string
  | TypeError
  | OverflowError
  | ValidationError string
  | HTTPException nat "fpart list"
  | DriverError string
  | KafkaError string
  | RetryError
  | RuntimeError string
  | AttributeError
  | AssertionError string
  | IndexError

type_synonym 'a result = "exn + 'a"

text \<open>Programs: they act on the world \<open>'w\<close> and return or raise.\<close>

type_synonym ('w, 'a) io = "'w \<Rightarrow> (exn + 'a) \<times> 'w"

definition returnM :: "'a \<Rightarrow> ('w, 'a) io" where
  "returnM x w = (Inr x, w)"

definition raiseM :: "exn \<Rightarrow> ('w, 'a) io" where
  "raiseM e w = (Inl e, w)"

definition liftM :: "exn + 'a \<Rightarrow> ('w, 'a) io" where
  "liftM r w = (r, w)"

definition effM :: "('w \<Rightarrow> 'a \<times> 'w) \<Rightarrow> ('w, 'a) io" where
  "effM f w = (Inr (fst (f w)), snd (f w))"

definition bindM :: "('w, 'a) io \<Rightarrow> ('a \<Rightarrow> ('w, 'b) io) \<Rightarrow> ('w, 'b) io" where
  "bindM m f w = (case m w of (Inl e, w') \<Rightarrow> (Inl e, w') | (Inr x, w') \<Rightarrow> f x w')"

definition tryM :: "('w, 'a) io \<Rightarrow> (exn \<Rightarrow> ('w, 'a) io) \<Rightarrow> ('w, 'a) io" where
  "tryM m h w = (case m w of (Inl e, w') \<Rightarrow> h e w' | (Inr x, w') \<Rightarrow> (Inr x, w'))"

text \<open>Python's \<open>try: m finally: c\<close>: an exception of \<open>c\<close> takes the place of whatever \<open>m\<close> did.\<close>

definition finallyM :: "('w, 'a) io \<Rightarrow> ('w, unit) io \<Rightarrow> ('w, 'a) io" where
  "finallyM m c w = (case m w of (r, w1) \<Rightarrow> case c w1 of (Inl e, w2) \<Rightarrow> (Inl e, w2) | (Inr _, w2) \<Rightarrow> (r, w2))"

definition bindR :: "exn + 'a \<Rightarrow> ('a \<Rightarrow> exn + 'b) \<Rightarrow> exn + 'b" where
  "bindR r f = (case r of Inl e \<Rightarrow> Inl e | Inr x \<Rightarrow> f x)"

fun mapR :: "('a \<Rightarrow> exn + 'b) \<Rightarrow> 'a list \<Rightarrow> exn + 'b list" where
  "mapR f [] = Inr []"
| "mapR f (x # xs) = bindR (f x) (\<lambda>y. bindR (mapR f xs) (\<lambda>ys. Inr (y # ys)))"

fun foldR :: "('s \<Rightarrow> 'a \<Rightarrow> exn + 's) \<Rightarrow> 's \<Rightarrow> 'a list \<Rightarrow> exn + 's" where
  "foldR f s [] = Inr s"
| "foldR f s (x # xs) = bindR (f s x) (\<lambda>s'. foldR f s' xs)"

section \<open>Dictionaries\<close>

text \<open>\<open>d[k]\<close>, \<open>d.get(k, default)\<close>, \<open>d[k] = v\<close> and \<open>v[k]\<close> on a value that should be a dict.\<close>

definition dict_item :: "pydict \<Rightarrow> string \<Rightarrow> exn + pyval" where
  "dict_item d k = (case map_of d k of None \<Rightarrow> Inl (KeyError k) | Some v \<Rightarrow> Inr v)"

definition dict_get :: "pydict \<Rightarrow> string \<Rightarrow> pyval \<Rightarrow> pyval" where
  "dict_get d k v = (case map_of d k of None \<Rightarrow> v | Some x \<Rightarrow> x)"

definition dict_set :: "pydict \<Rightarrow> string \<Rightarrow> pyval \<Rightarrow> pydict" where
  "dict_set d k v = AList.update k v d"

definition py_item :: "pyval \<Rightarrow> string \<Rightarrow> exn + pyval" where
  "py_item v k = (case v of PDict d \<Rightarrow> dict_item d k | _ \<Rightarrow> Inl TypeError)"

text \<open>Python's truth of a value.\<close>

fun truthy :: "pyval \<Rightarrow> bool" where
  "truthy PNone = False"
| "truthy (PBool b) = b"
| "truthy (PInt i) = (i \<noteq> 0)"
| "truthy (PFloat f) = (f \<noteq> Fin 0)"
| "truthy (PDecimal q) = (q \<noteq> 0)"
| "truthy (PStr s) = (s \<noteq> [])"
| "truthy (PTime t) = True"
| "truthy (PList xs) = (xs \<noteq> [])"
| "truthy (PDict d) = (d \<noteq> [])"

section \<open>Numbers\<close>

definition float_of_int :: "int \<Rightarrow> exn + pyfloat" where
  "float_of_int i = (case fl_round (of_int i) of Fin r \<Rightarrow> Inr (Fin r) | _ \<Rightarrow> Inl OverflowError)"

text \<open>\<open>x + v\<close> for a float \<open>x\<close> and a value of any type.\<close>

fun float_plus :: "pyfloat \<Rightarrow> pyval \<Rightarrow> exn + pyfloat" where
  "float_plus x (PFloat y) = Inr (fl_add x y)"
| "float_plus x (PInt i) = bindR (float_of_int i) (\<lambda>y. Inr (fl_add x y))"
| "float_plus x (PBool b) = Inr (fl_add x (Fin (if b then 1 else 0)))"
| "float_plus x _ = Inl TypeError"

section \<open>Strings\<close>

definition lower_char :: "char \<Rightarrow> char" where
  "lower_char c =
     (let n = of_char c :: nat in if 65 \<le> n \<and> n \<le> 90 then char_of (n + 32) else c)"

definition upper_char :: "char \<Rightarrow> char" where
  "upper_char c =
     (let n = of_char c :: nat in if 97 \<le> n \<and> n \<le> 122 then char_of (n - 32) else c)"

definition str_lower :: "string \<Rightarrow> string" where
  "str_lower s = map lower_char s"

definition str_upper :: "string \<Rightarrow> string" where
  "str_upper s = map upper_char s"

definition str_in :: "string \<Rightarrow> string \<Rightarrow> bool" where
  "str_in s t = sublist s t"

definition startswith :: "string \<Rightarrow> string \<Rightarrow> bool" where
  "startswith s p = prefix p s"

section \<open>Lemmas\<close>

lemma returnM_simps [io_simps]: "returnM x w = (Inr x, w)"
  by (simp add: returnM_def)

lemma raiseM_simps [io_simps]: "raiseM e w = (Inl e, w)"
  by (simp add: raiseM_def)

lemma liftM_simps [io_simps]: "liftM r w = (r, w)"
  by (simp add: liftM_def)

lemma effM_simps [io_simps]: "effM f w = (Inr (fst (f w)), snd (f w))"
  by (simp add: effM_def)

lemma bindM_Inl [io_simps]: "m w = (Inl e, w') \<Longrightarrow> bindM m f w = (Inl e, w')"
  by (simp add: bindM_def)

lemma bindM_Inr [io_simps]: "m w = (Inr x, w') \<Longrightarrow> bindM m f w = f x w'"
  by (simp add: bindM_def)

lemma tryM_Inl [io_simps]: "m w = (Inl e, w') \<Longrightarrow> tryM m h w = h e w'"
  by (simp add: tryM_def)

lemma tryM_Inr [io_simps]: "m w = (Inr x, w') \<Longrightarrow> tryM m h w = (Inr x, w')"
  by (simp add: tryM_def)

lemma bindM_liftM: "bindM (liftM (Inr x)) f = f x" "bindM (liftM (Inl e)) f = raiseM e"
  by (simp_all add: fun_eq_iff bindM_def liftM_def raiseM_def)

text \<open>Catching an exception to raise it again changes nothing.\<close>

lemma tryM_reraise [simp]: "tryM m raiseM = m"
  by (rule ext) (auto simp: tryM_def raiseM_def split: prod.splits sum.splits)

lemma bindR_simps [simp]: "bindR (Inl e) f = Inl e" "bindR (Inr x) f = f x"
  by (simp_all add: bindR_def)

lemma bindR_Inr_iff: "bindR r f = Inr y \<longleftrightarrow> (\<exists>x. r = Inr x \<and> f x = Inr y)"
  by (cases r) auto

text \<open>Inversion of a sequence: either its first part raised, or its second part ran.\<close>

lemma bindM_cases [consumes 1, case_names raised continued]:
  assumes "bindM m f w = (r, w')"
  obtains (raised) e where "m w = (Inl e, w')" and "r = Inl e"
    | (continued) x w1 where "m w = (Inr x, w1)" and "f x w1 = (r, w')"
proof (cases "m w")
  case (Pair a w1)
  then show ?thesis
    using assms that by (cases a) (auto simp: bindM_def)
qed

lemma bindM_InrE:
  assumes "bindM m f w = (Inr y, w')"
  obtains x w1 where "m w = (Inr x, w1)" and "f x w1 = (Inr y, w')"
  using assms by (cases rule: bindM_cases) auto

lemma tryM_cases [consumes 1, case_names handled returned]:
  assumes "tryM m h w = (r, w')"
  obtains (handled) e w1 where "m w = (Inl e, w1)" and "h e w1 = (r, w')"
    | (returned) x where "m w = (Inr x, w')" and "r = Inr x"
proof (cases "m w")
  case (Pair a w1)
  then show ?thesis
    using assms that by (cases a) (auto simp: tryM_def)
qed

lemma foldR_append:
  "foldR f s (xs @ ys) = bindR (foldR f s xs) (\<lambda>s'. foldR f s' ys)"
proof (induction xs arbitrary: s)
  case Nil
  then show ?case by simp
next
  case (Cons x xs)
  then show ?case by (cases "f s x") auto
qed

lemma mapR_Inr_map:
  "(\<And>x. x \<in> set xs \<Longrightarrow> f x = Inr (g x)) \<Longrightarrow> mapR f xs = Inr (map g xs)"
  by (induction xs) auto

lemma mapR_Inr_iff:
  "mapR f xs = Inr ys \<longleftrightarrow> (\<forall>x \<in> set xs. \<exists>y. f x = Inr y) \<and> ys = map (\<lambda>x. projr (f x)) xs"
  by (induction xs arbitrary: ys) (auto simp: bindR_Inr_iff)

lemma mapR_append: "mapR f (xs @ ys) = bindR (mapR f xs) (\<lambda>as. bindR (mapR f ys) (\<lambda>bs. Inr (as @ bs)))"
proof (induction xs)
  case Nil
  then show ?case by (cases "mapR f ys") auto
next
  case (Cons x xs)
  then show ?case
    by (cases "f x"; cases "mapR f xs"; cases "mapR f ys") auto
qed

text \<open>Dictionaries.\<close>

lemma dict_item_Some [dict_simps]: "map_of d k = Some v \<Longrightarrow> dict_item d k = Inr v"
  by (simp add: dict_item_def)

lemma dict_item_None [dict_simps]: "map_of d k = None \<Longrightarrow> dict_item d k = Inl (KeyError k)"
  by (simp add: dict_item_def)

lemma dict_item_Inr_iff: "dict_item d k = Inr v \<longleftrightarrow> map_of d k = Some v"
  by (auto simp: dict_item_def split: option.splits)

lemma py_item_dict [dict_simps]: "py_item (PDict d) k = dict_item d k"
  by (simp add: py_item_def)

lemma map_of_dict_set [dict_simps]:
  "map_of (dict_set d k v) k' = (if k' = k then Some v else map_of d k')"
  by (simp add: dict_set_def update_conv')

text \<open>A list sorted by a key is determined by its elements when the keys are distinct.\<close>

lemma sorted_by_key_unique:
  assumes "mset xs = mset ys" and "distinct (map f xs)"
    and "sorted (map f xs)" and "sorted (map f ys)"
  shows "xs = ys"
proof (rule map_sorted_distinct_set_unique)
  have "mset (map f xs) = mset (map f ys)"
    using assms(1) by simp
  then show "distinct (map f ys)"
    using assms(2) by (metis mset_eq_imp_distinct_iff)
  show "set xs = set ys"
    using assms(1) by (rule mset_eq_setD)
  then show "inj_on f (set xs \<union> set ys)"
    using assms(2) by (simp add: distinct_map)
qed (use assms in auto)

lemma sort_key_unique:
  assumes "mset xs = mset ys" and "distinct (map f xs)"
  shows "sort_key f xs = sort_key f ys"
proof (rule sorted_by_key_unique [where f = f])
  have "mset (map f (sort_key f xs)) = mset (map f xs)"
    by simp
  then show "distinct (map f (sort_key f xs))"
    using assms(2) by (metis mset_eq_imp_distinct_iff)
qed (use assms in auto)

lemma sort_key_snoc:
  assumes "\<And>y. y \<in> set xs \<Longrightarrow> f y \<le> f x"
  shows "sort_key f (xs @ [x]) = sort_key f xs @ [x]"
  using assms
proof (induction xs)
  case Nil
  then show ?case by simp
next
  case (Cons y ys)
  have "insort_key f y (zs @ [x]) = insort_key f y zs @ [x]" if "f y \<le> f x" for zs
    using that by (induction zs) auto
  with Cons show ?case by simp
qed

text \<open>Sorting pairs of key and value by the key is sorting the values by the key.\<close>

lemma sort_key_decorated:
  "sort_key fst (map (\<lambda>x. (f x, x)) xs) = map (\<lambda>x. (f x, x)) (sort_key f xs)"
proof (induction xs)
  case Nil
  then show ?case by simp
next
  case (Cons x xs)
  have "insort_key fst (f x, x) (map (\<lambda>x. (f x, x)) ys) = map (\<lambda>x. (f x, x)) (insort_key f x ys)" for ys
    by (induction ys) auto
  with Cons show ?case by simp
qed

lemma sorted_map_of_int: "sorted (map (\<lambda>x. rat_of_int (f x)) xs) \<longleftrightarrow> sorted (map f xs)"
  by (simp add: sorted_map)

lemma distinct_map_sort_key [simp]: "distinct (map f (sort_key g xs)) \<longleftrightarrow> distinct (map f xs)"
  by (simp add: distinct_map)

lemma sort_key_map: "sort_key f (map g xs) = map g (sort_key (\<lambda>x. f (g x)) xs)"
proof (induction xs)
  case Nil
  then show ?case by simp
next
  case (Cons x xs)
  have "insort_key f (g x) (map g ys) = map g (insort_key (\<lambda>x. f (g x)) x ys)" for ys
    by (induction ys) auto
  with Cons show ?case by simp
qed

section \<open>Invariants of programs\<close>

text \<open>A program keeps a property of the world, whether it returns or raises.\<close>

definition keepsM :: "('w \<Rightarrow> bool) \<Rightarrow> ('w, 'a) io \<Rightarrow> bool" where
  "keepsM P m \<longleftrightarrow> (\<forall>w r w'. P w \<longrightarrow> m w = (r, w') \<longrightarrow> P w')"

lemma keepsMI: "(\<And>w r w'. P w \<Longrightarrow> m w = (r, w') \<Longrightarrow> P w') \<Longrightarrow> keepsM P m"
  by (simp add: keepsM_def)

lemma keepsMD: "keepsM P m \<Longrightarrow> m w = (r, w') \<Longrightarrow> P w \<Longrightarrow> P w'"
  by (simp add: keepsM_def)

lemma keepsM_pure [keeps_intros]:
  "keepsM P (returnM x)" "keepsM P (raiseM e)" "keepsM P (liftM q)"
  by (auto simp: keepsM_def io_simps)

lemma keepsM_effM: "(\<And>w. P w \<Longrightarrow> P (snd (f w))) \<Longrightarrow> keepsM P (effM f)"
  by (auto simp: keepsM_def io_simps)

lemma keepsM_bindM [keeps_intros]:
  assumes "keepsM P m" and "\<And>x. keepsM P (f x)"
  shows "keepsM P (bindM m f)"
proof (rule keepsMI)
  fix w r w' assume w: "P w" and run: "bindM m f w = (r, w')"
  from run show "P w'"
    by (cases rule: bindM_cases) (use w assms in \<open>blast dest: keepsMD\<close>)+
qed

text \<open>The same, where what the first program returns is known.\<close>

lemma keepsM_bindM_where:
  assumes "\<And>w r w'. P w \<Longrightarrow> m w = (r, w') \<Longrightarrow> P w' \<and> (\<forall>x. r = Inr x \<longrightarrow> Q x)" and "\<And>x. Q x \<Longrightarrow> keepsM P (f x)"
  shows "keepsM P (bindM m f)"
proof (rule keepsMI)
  fix w r w' assume w: "P w" and run: "bindM m f w = (r, w')"
  from run show "P w'"
    by (cases rule: bindM_cases) (use w assms in \<open>blast dest: keepsMD\<close>)+
qed

lemma keepsM_liftM_bind: "(\<And>x. q = Inr x \<Longrightarrow> keepsM P (f x)) \<Longrightarrow> keepsM P (bindM (liftM q) f)"
  by (rule keepsM_bindM_where [where Q = "\<lambda>x. q = Inr x"]) (auto simp: io_simps)

lemma keepsM_tryM [keeps_intros]:
  assumes "keepsM P m" and "\<And>e. keepsM P (h e)"
  shows "keepsM P (tryM m h)"
proof (rule keepsMI)
  fix w r w' assume w: "P w" and run: "tryM m h w = (r, w')"
  from run show "P w'"
    by (cases rule: tryM_cases) (use w assms in \<open>blast dest: keepsMD\<close>)+
qed

lemma keepsM_if [keeps_intros]: "(c \<Longrightarrow> keepsM P m) \<Longrightarrow> (\<not> c \<Longrightarrow> keepsM P m') \<Longrightarrow> keepsM P (if c then m else m')"
  by simp

end
