(* ===== verification/Events.thy ===== *)
theory Events
  imports Prelude
begin

text \<open>
  Domain events (\<open>api/models/events.py\<close>) and the request and response bodies of the API
  (\<open>api/models/schemas.py\<close>): the two enumerations, \<open>BaseEvent\<close> with \<open>model_dump\<close> and the
  Kafka encoding, and the six event factories.  Fresh identifiers and the wall clock come from
  the record \<open>pyenv\<close>; the orjson codec and pydantic's validation are arguments.
\<close>

section \<open>Enumerations\<close>

datatype event_type =
    ORDER_CREATED
  | ORDER_ITEM_ADDED
  | ORDER_CONFIRMED
  | ORDER_PAYMENT_PROCESSED
  | ORDER_SHIPPED
  | ORDER_DELIVERED
  | ORDER_CANCELLED

datatype order_status = PENDING | CONFIRMED | PAID | SHIPPED | DELIVERED | CANCELLED

fun event_type_value :: "event_type \<Rightarrow> string" where
  "event_type_value ORDER_CREATED = ''ORDER_CREATED''"
| "event_type_value ORDER_ITEM_ADDED = ''ORDER_ITEM_ADDED''"
| "event_type_value ORDER_CONFIRMED = ''ORDER_CONFIRMED''"
| "event_type_value ORDER_PAYMENT_PROCESSED = ''ORDER_PAYMENT_PROCESSED''"
| "event_type_value ORDER_SHIPPED = ''ORDER_SHIPPED''"
| "event_type_value ORDER_DELIVERED = ''ORDER_DELIVERED''"
| "event_type_value ORDER_CANCELLED = ''ORDER_CANCELLED''"

fun order_status_value :: "order_status \<Rightarrow> string" where
  "order_status_value PENDING = ''PENDING''"
| "order_status_value CONFIRMED = ''CONFIRMED''"
| "order_status_value PAID = ''PAID''"
| "order_status_value SHIPPED = ''SHIPPED''"
| "order_status_value DELIVERED = ''DELIVERED''"
| "order_status_value CANCELLED = ''CANCELLED''"

text \<open>The order of declaration is the order of the life cycle.\<close>

fun status_rank :: "order_status \<Rightarrow> nat" where
  "status_rank PENDING = 0"
| "status_rank CONFIRMED = 1"
| "status_rank PAID = 2"
| "status_rank SHIPPED = 3"
| "status_rank DELIVERED = 4"
| "status_rank CANCELLED = 5"

instantiation order_status :: linorder
begin

definition less_eq_order_status :: "order_status \<Rightarrow> order_status \<Rightarrow> bool" where
  "less_eq_order_status s t \<longleftrightarrow> status_rank s \<le> status_rank t"

definition less_order_status :: "order_status \<Rightarrow> order_status \<Rightarrow> bool" where
  "less_order_status s t \<longleftrightarrow> status_rank s < status_rank t"

instance
proof
  fix x y z :: order_status
  show "x < y \<longleftrightarrow> x \<le> y \<and> \<not> y \<le> x"
    by (auto simp: less_eq_order_status_def less_order_status_def)
  show "x \<le> x" by (simp add: less_eq_order_status_def)
  show "x \<le> y \<Longrightarrow> y \<le> z \<Longrightarrow> x \<le> z" by (simp add: less_eq_order_status_def)
  show "x \<le> y \<Longrightarrow> y \<le> x \<Longrightarrow> x = y"
    by (cases x; cases y) (simp_all add: less_eq_order_status_def)
  show "x \<le> y \<or> y \<le> x" by (auto simp: less_eq_order_status_def)
qed

end

section \<open>BaseEvent\<close>

record base_event =
  ev_event_id :: string
  ev_event_type :: event_type
  ev_aggregate_id :: string
  ev_aggregate_version :: int
  ev_occurred_at :: pyfloat
  ev_correlation_id :: string
  ev_payload :: pydict

text \<open>\<open>uuid4()\<close>, \<open>time.time()\<close> and \<open>datetime.utcnow()\<close>: each reads and changes the world.\<close>

record 'w pyenv =
  uuid4 :: "'w \<Rightarrow> string \<times> 'w"
  time_time :: "'w \<Rightarrow> pyfloat \<times> 'w"
  utcnow :: "'w \<Rightarrow> rat \<times> 'w"

definition BaseEvent :: "'w pyenv \<Rightarrow> event_type \<Rightarrow> string \<Rightarrow> int \<Rightarrow> pydict \<Rightarrow> ('w, base_event) io" where
  "BaseEvent E event_type aggregate_id aggregate_version payload =
     bindM (effM (uuid4 E)) (\<lambda>event_id.
     bindM (effM (time_time E)) (\<lambda>occurred_at.
     bindM (effM (uuid4 E)) (\<lambda>correlation_id.
     returnM \<lparr>ev_event_id = event_id, ev_event_type = event_type,
              ev_aggregate_id = aggregate_id, ev_aggregate_version = aggregate_version,
              ev_occurred_at = occurred_at, ev_correlation_id = correlation_id,
              ev_payload = payload\<rparr>)))"

definition model_dump :: "base_event \<Rightarrow> pydict" where
  "model_dump ev =
     [(''event_id'', PStr (ev_event_id ev)),
      (''event_type'', PStr (event_type_value (ev_event_type ev))),
      (''aggregate_id'', PStr (ev_aggregate_id ev)),
      (''aggregate_version'', PInt (ev_aggregate_version ev)),
      (''occurred_at'', PFloat (ev_occurred_at ev)),
      (''correlation_id'', PStr (ev_correlation_id ev)),
      (''payload'', PDict (ev_payload ev))]"

definition to_kafka_bytes :: "(pyval \<Rightarrow> exn + string) \<Rightarrow> base_event \<Rightarrow> exn + string" where
  "to_kafka_bytes orjson_dumps ev = orjson_dumps (PDict (model_dump ev))"

definition from_kafka_bytes ::
    "(string \<Rightarrow> exn + pyval) \<Rightarrow> (pydict \<Rightarrow> exn + base_event) \<Rightarrow> string \<Rightarrow> exn + base_event" where
  "from_kafka_bytes orjson_loads validate data =
     bindR (orjson_loads data) (\<lambda>v. case v of PDict d \<Rightarrow> validate d | _ \<Rightarrow> Inl TypeError)"

section \<open>Event factories\<close>

definition order_created_event ::
    "'w pyenv \<Rightarrow> string \<Rightarrow> string \<Rightarrow> string \<Rightarrow> ('w, base_event) io" where
  "order_created_event E order_id customer_id customer_email =
     BaseEvent E ORDER_CREATED order_id 1
       [(''customer_id'', PStr customer_id),
        (''customer_email'', PStr customer_email),
        (''items'', PList []),
        (''total_amount'', PFloat (Fin 0))]"

definition order_item_added_event ::
    "'w pyenv \<Rightarrow> string \<Rightarrow> int \<Rightarrow> string \<Rightarrow> string \<Rightarrow> int \<Rightarrow> pyfloat \<Rightarrow> ('w, base_event) io" where
  "order_item_added_event E order_id version product_id product_name quantity unit_price =
     bindM (liftM (float_of_int quantity)) (\<lambda>q.
     BaseEvent E ORDER_ITEM_ADDED order_id version
       [(''product_id'', PStr product_id),
        (''product_name'', PStr product_name),
        (''quantity'', PInt quantity),
        (''unit_price'', PFloat unit_price),
        (''line_total'', PFloat (fl_mul q unit_price))])"

definition order_confirmed_event :: "'w pyenv \<Rightarrow> string \<Rightarrow> int \<Rightarrow> ('w, base_event) io" where
  "order_confirmed_event E order_id version =
     bindM (effM (time_time E)) (\<lambda>t.
     BaseEvent E ORDER_CONFIRMED order_id version [(''confirmed_at'', PFloat t)])"

definition order_payment_processed_event ::
    "'w pyenv \<Rightarrow> string \<Rightarrow> int \<Rightarrow> string \<Rightarrow> pyfloat \<Rightarrow> string \<Rightarrow> ('w, base_event) io" where
  "order_payment_processed_event E order_id version payment_id amount method =
     bindM (effM (time_time E)) (\<lambda>t.
     BaseEvent E ORDER_PAYMENT_PROCESSED order_id version
       [(''payment_id'', PStr payment_id),
        (''amount'', PFloat amount),
        (''method'', PStr method),
        (''processed_at'', PFloat t)])"

definition order_shipped_event ::
    "'w pyenv \<Rightarrow> string \<Rightarrow> int \<Rightarrow> string \<Rightarrow> string \<Rightarrow> ('w, base_event) io" where
  "order_shipped_event E order_id version tracking_id carrier =
     bindM (effM (time_time E)) (\<lambda>t.
     BaseEvent E ORDER_SHIPPED order_id version
       [(''tracking_id'', PStr tracking_id),
        (''carrier'', PStr carrier),
        (''shipped_at'', PFloat t)])"

definition order_cancelled_event ::
    "'w pyenv \<Rightarrow> string \<Rightarrow> int \<Rightarrow> string \<Rightarrow> ('w, base_event) io" where
  "order_cancelled_event E order_id version reason =
     bindM (effM (time_time E)) (\<lambda>t.
     BaseEvent E ORDER_CANCELLED order_id version
       [(''reason'', PStr reason), (''cancelled_at'', PFloat t)])"

section \<open>Request and response bodies\<close>

record create_order_request =
  co_customer_id :: string
  co_customer_email :: string
  co_idempotency_key :: string

record add_item_request =
  ai_product_id :: string
  ai_product_name :: string
  ai_quantity :: int
  ai_unit_price :: pyfloat

record process_payment_request =
  pp_payment_id :: string
  pp_amount :: pyfloat
  pp_method :: string

record ship_order_request =
  so_tracking_id :: string
  so_carrier :: string

record cancel_order_request =
  ca_reason :: string

record command_response =
  cr_event_id :: string
  cr_aggregate_id :: string
  cr_aggregate_version :: int
  cr_message :: string

text \<open>The \<open>gt=0\<close> constraints of the bodies, which hold for every request a handler sees.\<close>

definition valid_add_item :: "add_item_request \<Rightarrow> bool" where
  "valid_add_item req \<longleftrightarrow> 0 < ai_quantity req \<and> fl_pos (ai_unit_price req)"

definition valid_payment :: "process_payment_request \<Rightarrow> bool" where
  "valid_payment req \<longleftrightarrow> fl_pos (pp_amount req)"

section \<open>Sample events\<close>

text \<open>Events of one order, for evaluating the theorems at concrete inputs.\<close>

definition sample_event :: "event_type \<Rightarrow> int \<Rightarrow> pydict \<Rightarrow> base_event" where
  "sample_event t v p =
     \<lparr>ev_event_id = replicate (nat v) CHR ''e'', ev_event_type = t, ev_aggregate_id = ''o1'',
      ev_aggregate_version = v, ev_occurred_at = Fin 0, ev_correlation_id = ''c'',
      ev_payload = p\<rparr>"

definition sample_created :: pydict where
  "sample_created = model_dump (sample_event ORDER_CREATED 1
     [(''customer_id'', PStr ''cust''), (''customer_email'', PStr ''a@b'')])"

definition sample_item :: "int \<Rightarrow> string \<Rightarrow> int \<Rightarrow> int \<Rightarrow> pydict" where
  "sample_item v product q price = model_dump (sample_event ORDER_ITEM_ADDED v
     [(''product_id'', PStr product), (''product_name'', PStr ''thing''),
      (''quantity'', PInt q), (''unit_price'', PFloat (Fin (of_int price))),
      (''line_total'', PFloat (Fin (of_int (q * price))))])"

definition sample_confirmed :: "int \<Rightarrow> pydict" where
  "sample_confirmed v = model_dump (sample_event ORDER_CONFIRMED v [])"

definition sample_paid :: "int \<Rightarrow> pydict" where
  "sample_paid v = model_dump (sample_event ORDER_PAYMENT_PROCESSED v [(''payment_id'', PStr ''p'')])"

definition sample_shipped :: "int \<Rightarrow> pydict" where
  "sample_shipped v = model_dump (sample_event ORDER_SHIPPED v [(''tracking_id'', PStr ''t'')])"

definition sample_cancelled :: "int \<Rightarrow> pydict" where
  "sample_cancelled v = model_dump (sample_event ORDER_CANCELLED v [])"

section \<open>Lemmas\<close>

lemmas sample_defs =
  sample_created_def sample_item_def sample_confirmed_def sample_paid_def sample_shipped_def
  sample_cancelled_def sample_event_def

lemma event_type_value_inject [simp]: "event_type_value s = event_type_value t \<longleftrightarrow> s = t"
  by (cases s; cases t) simp_all

lemma order_status_value_inject [simp]: "order_status_value s = order_status_value t \<longleftrightarrow> s = t"
  by (cases s; cases t) simp_all

lemma map_of_model_dump [dict_simps]:
  "map_of (model_dump ev) ''event_id'' = Some (PStr (ev_event_id ev))"
  "map_of (model_dump ev) ''event_type'' = Some (PStr (event_type_value (ev_event_type ev)))"
  "map_of (model_dump ev) ''aggregate_id'' = Some (PStr (ev_aggregate_id ev))"
  "map_of (model_dump ev) ''aggregate_version'' = Some (PInt (ev_aggregate_version ev))"
  "map_of (model_dump ev) ''payload'' = Some (PDict (ev_payload ev))"
  "map_of (model_dump ev) ''_id'' = None"
  by (simp_all add: model_dump_def)

text \<open>Constructing an event never raises, and fixes all that the caller passed.\<close>

lemma BaseEvent_shape:
  assumes "BaseEvent E t a v p w = (r, w')"
  obtains ev where "r = Inr ev" "ev_event_type ev = t" "ev_aggregate_id ev = a"
    "ev_aggregate_version ev = v" "ev_payload ev = p"
    "ev_event_id ev = fst (uuid4 E w)"
  using assms by (auto simp: BaseEvent_def bindM_def io_simps)

end
