(* ===== verification/Order_Spec.thy ===== *)
theory Order_Spec
  imports Events
begin

text \<open>
  The abstract specification of an order that the write side and the read side both refine:
  typed order events, the state an event sequence denotes, the admission rules, and the
  histories they allow.  A stored document denotes a typed event by \<open>decode\<close>.
\<close>

record item =
  it_product_id :: string
  it_product_name :: string
  it_quantity :: int
  it_unit_price :: pyfloat
  it_line_total :: pyfloat

datatype order_event =
    Created string string
  | ItemAdded item
  | Confirmed
  | Paid string
  | Shipped string
  | Delivered
  | Cancelled

record order_state =
  os_version :: int
  os_status :: order_status
  os_customer_id :: string
  os_customer_email :: string
  os_items :: "item list"
  os_total :: pyfloat
  os_payment_id :: "string option"
  os_tracking_id :: "string option"

definition order_init :: order_state where
  "order_init = \<lparr>os_version = 0, os_status = PENDING, os_customer_id = '''',
     os_customer_email = '''', os_items = [], os_total = Fin 0,
     os_payment_id = None, os_tracking_id = None\<rparr>"

fun next_status :: "order_status \<Rightarrow> order_event \<Rightarrow> order_status" where
  "next_status s (Created _ _) = PENDING"
| "next_status s (ItemAdded _) = s"
| "next_status s Confirmed = CONFIRMED"
| "next_status s (Paid _) = PAID"
| "next_status s (Shipped _) = SHIPPED"
| "next_status s Delivered = DELIVERED"
| "next_status s Cancelled = CANCELLED"

fun order_step :: "order_state \<Rightarrow> order_event \<Rightarrow> order_state" where
  "order_step s (Created c m) =
     s\<lparr>os_status := PENDING, os_customer_id := c, os_customer_email := m\<rparr>"
| "order_step s (ItemAdded i) =
     s\<lparr>os_items := os_items s @ [i], os_total := fl_add (os_total s) (it_line_total i)\<rparr>"
| "order_step s Confirmed = s\<lparr>os_status := CONFIRMED\<rparr>"
| "order_step s (Paid p) = s\<lparr>os_status := PAID, os_payment_id := Some p\<rparr>"
| "order_step s (Shipped t) = s\<lparr>os_status := SHIPPED, os_tracking_id := Some t\<rparr>"
| "order_step s Delivered = s\<lparr>os_status := DELIVERED\<rparr>"
| "order_step s Cancelled = s\<lparr>os_status := CANCELLED\<rparr>"

definition order_apply :: "order_state \<Rightarrow> int \<times> order_event \<Rightarrow> order_state" where
  "order_apply s ve = (order_step s (snd ve))\<lparr>os_version := fst ve\<rparr>"

definition order_run :: "order_state \<Rightarrow> (int \<times> order_event) list \<Rightarrow> order_state" where
  "order_run = foldl order_apply"

text \<open>When the business rules admit an event.  No rule ever admits \<open>Delivered\<close>.\<close>

fun admits :: "order_state \<Rightarrow> order_event \<Rightarrow> bool" where
  "admits s (Created _ _) = (os_version s = 0)"
| "admits s (ItemAdded _) = (os_version s \<noteq> 0 \<and> os_status s = PENDING)"
| "admits s Confirmed = (os_version s \<noteq> 0 \<and> os_items s \<noteq> [] \<and> os_status s = PENDING)"
| "admits s (Paid _) = (os_version s \<noteq> 0 \<and> os_status s = CONFIRMED)"
| "admits s (Shipped _) = (os_version s \<noteq> 0 \<and> os_status s = PAID)"
| "admits s Delivered = False"
| "admits s Cancelled = (os_version s \<noteq> 0 \<and> os_status s \<notin> {SHIPPED, DELIVERED})"

text \<open>A valid history: each event is admitted by what precedes it and takes the next version.\<close>

fun valid_from :: "order_state \<Rightarrow> (int \<times> order_event) list \<Rightarrow> bool" where
  "valid_from s [] = True"
| "valid_from s (ve # ves) =
     (fst ve = os_version s + 1 \<and> admits s (snd ve) \<and> valid_from (order_apply s ve) ves)"

abbreviation valid_history :: "(int \<times> order_event) list \<Rightarrow> bool" where
  "valid_history \<equiv> valid_from order_init"

section \<open>Documents that denote typed events\<close>

definition decode_item :: "pydict \<Rightarrow> item option" where
  "decode_item p =
     (case (map_of p ''product_id'', map_of p ''product_name'', map_of p ''quantity'',
            map_of p ''unit_price'', map_of p ''line_total'') of
        (Some (PStr i), Some (PStr n), Some (PInt q), Some (PFloat u), Some (PFloat l)) \<Rightarrow>
          Some \<lparr>it_product_id = i, it_product_name = n, it_quantity = q,
                it_unit_price = u, it_line_total = l\<rparr>
      | _ \<Rightarrow> None)"

definition decode_str :: "pydict \<Rightarrow> string \<Rightarrow> string option" where
  "decode_str p k = (case map_of p k of Some (PStr s) \<Rightarrow> Some s | _ \<Rightarrow> None)"

definition decode_payload :: "string \<Rightarrow> pydict \<Rightarrow> order_event option" where
  "decode_payload t p =
     (if t = event_type_value ORDER_CREATED then
        (case (decode_str p ''customer_id'', decode_str p ''customer_email'') of
           (Some c, Some m) \<Rightarrow> Some (Created c m) | _ \<Rightarrow> None)
      else if t = event_type_value ORDER_ITEM_ADDED then map_option ItemAdded (decode_item p)
      else if t = event_type_value ORDER_CONFIRMED then Some Confirmed
      else if t = event_type_value ORDER_PAYMENT_PROCESSED then
        map_option Paid (decode_str p ''payment_id'')
      else if t = event_type_value ORDER_SHIPPED then
        map_option Shipped (decode_str p ''tracking_id'')
      else if t = event_type_value ORDER_DELIVERED then Some Delivered
      else if t = event_type_value ORDER_CANCELLED then Some Cancelled
      else None)"

definition decode :: "pydict \<Rightarrow> (int \<times> order_event) option" where
  "decode d =
     (case (map_of d ''aggregate_version'', map_of d ''event_type'', map_of d ''payload'') of
        (Some (PInt v), Some (PStr t), Some (PDict p)) \<Rightarrow>
          map_option (Pair v) (decode_payload t p)
      | _ \<Rightarrow> None)"

definition doc_version :: "pydict \<Rightarrow> int" where
  "doc_version d = (case map_of d ''aggregate_version'' of Some (PInt v) \<Rightarrow> v | _ \<Rightarrow> 0)"

text \<open>A document is well formed when it denotes an event of a named aggregate.\<close>

definition wf_doc :: "pydict \<Rightarrow> bool" where
  "wf_doc d \<longleftrightarrow> decode d \<noteq> None \<and> decode_str d ''aggregate_id'' \<noteq> None"

section \<open>Runs\<close>

lemma order_run_Nil [simp]: "order_run s [] = s"
  by (simp add: order_run_def)

lemma order_run_Cons [simp]: "order_run s (ve # ves) = order_run (order_apply s ve) ves"
  by (simp add: order_run_def)

lemma order_run_append: "order_run s (xs @ ys) = order_run (order_run s xs) ys"
  by (simp add: order_run_def)

lemma order_init_fields [simp]:
  "os_version order_init = 0" "os_status order_init = PENDING" "os_items order_init = []"
  by (simp_all add: order_init_def)

lemma order_apply_fields [simp]:
  "os_version (order_apply s ve) = fst ve"
  "os_status (order_apply s ve) = next_status (os_status s) (snd ve)"
  by (cases "snd ve"; simp add: order_apply_def)+

lemma order_step_version [simp]: "os_version (order_step s e) = os_version s"
  by (cases e) simp_all

lemma valid_from_append:
  "valid_from s (xs @ ys) \<longleftrightarrow> valid_from s xs \<and> valid_from (order_run s xs) ys"
  by (induction xs arbitrary: s) auto

lemma valid_from_snoc:
  "valid_from s (xs @ [ve]) \<longleftrightarrow>
     valid_from s xs \<and> fst ve = os_version (order_run s xs) + 1 \<and> admits (order_run s xs) (snd ve)"
  by (simp add: valid_from_append)

text \<open>In a valid history the versions are consecutive.\<close>

lemma valid_from_versions:
  "valid_from s ves \<Longrightarrow> map fst ves = [os_version s + 1 .. os_version s + int (length ves)]"
proof (induction ves arbitrary: s)
  case Nil
  then show ?case by simp
next
  case (Cons ve ves)
  then have "map fst ves = [fst ve + 1 .. fst ve + int (length ves)]"
    using Cons.IH [of "order_apply s ve"] by simp
  with Cons.prems show ?case by (simp add: upto_rec1 algebra_simps)
qed

lemma valid_from_run_version:
  "valid_from s ves \<Longrightarrow> os_version (order_run s ves) = os_version s + int (length ves)"
  by (induction ves arbitrary: s) auto

section \<open>Status along a run\<close>

text \<open>Along a valid history the life cycle never goes back.\<close>

lemma status_le_simps [simp]: "PENDING \<le> s" "s \<le> CANCELLED"
  by (cases s; simp add: less_eq_order_status_def)+

lemma admits_status_le:
  assumes "admits s e" and "os_version s = 0 \<longrightarrow> os_status s = PENDING"
  shows "os_status s \<le> next_status (os_status s) e"
  using assms by (cases e) (auto simp: less_eq_order_status_def [of _ CONFIRMED]
    less_eq_order_status_def [of _ PAID] less_eq_order_status_def [of _ SHIPPED])

lemma valid_from_status_le:
  assumes "valid_from s ves" and "os_version s = 0 \<longrightarrow> os_status s = PENDING" and "0 \<le> os_version s"
  shows "os_status s \<le> os_status (order_run s ves)"
  using assms
proof (induction ves arbitrary: s)
  case Nil
  then show ?case by simp
next
  case (Cons ve ves)
  then have "os_status s \<le> os_status (order_apply s ve)"
    by (simp add: admits_status_le)
  also have "\<dots> \<le> os_status (order_run (order_apply s ve) ves)"
    using Cons by (intro Cons.IH) auto
  finally show ?case by simp
qed

section \<open>The invariant of an order\<close>

text \<open>
  What every order reached by a valid history satisfies: a confirmed order has items, a paid
  one a payment, a shipped one a tracking number; only those have them; delivery is never
  reached; and the total is the float sum of the line totals.
\<close>

definition order_inv :: "order_state \<Rightarrow> bool" where
  "order_inv s \<longleftrightarrow>
     os_status s \<noteq> DELIVERED \<and>
     (os_status s \<in> {CONFIRMED, PAID, SHIPPED} \<longrightarrow> os_items s \<noteq> []) \<and>
     (os_status s \<in> {PAID, SHIPPED} \<longrightarrow> os_payment_id s \<noteq> None) \<and>
     (os_payment_id s \<noteq> None \<longrightarrow> os_status s \<in> {PAID, SHIPPED, CANCELLED}) \<and>
     (os_status s = SHIPPED \<longleftrightarrow> os_tracking_id s \<noteq> None) \<and>
     (os_version s = 0 \<longrightarrow> s = order_init) \<and> 0 \<le> os_version s \<and>
     os_total s = foldl fl_add (Fin 0) (map it_line_total (os_items s))"

lemma order_inv_init: "order_inv order_init"
  by (simp add: order_inv_def order_init_def)

lemma order_inv_apply:
  assumes "order_inv s" and "admits s (snd ve)" and "fst ve = os_version s + 1"
  shows "order_inv (order_apply s ve)"
  using assms by (cases "snd ve") (auto simp: order_inv_def order_apply_def order_init_def)

lemma valid_from_inv: "valid_from s ves \<Longrightarrow> order_inv s \<Longrightarrow> order_inv (order_run s ves)"
  by (induction ves arbitrary: s) (auto intro: order_inv_apply)

lemmas valid_history_inv = valid_from_inv [OF _ order_inv_init]

section \<open>Decoding\<close>

lemma decode_version: "decode d = Some (v, e) \<Longrightarrow> doc_version d = v"
  by (auto simp: decode_def doc_version_def split: option.splits pyval.splits)

lemma decode_doc_version: "decode d \<noteq> None \<Longrightarrow> fst (the (decode d)) = doc_version d"
  by (auto simp: decode_version)

lemma decode_model_dump:
  "decode (model_dump ev) =
     map_option (Pair (ev_aggregate_version ev))
       (decode_payload (event_type_value (ev_event_type ev)) (ev_payload ev))"
  by (simp add: decode_def dict_simps)

lemma decode_cong:
  assumes "\<And>k. k \<in> {''aggregate_version'', ''event_type'', ''payload''} \<Longrightarrow> map_of d k = map_of d' k"
  shows "decode d = decode d'"
  using assms by (simp add: decode_def)

end
