(* ===== verification/Aggregate.thy ===== *)
theory Aggregate
  imports Order_Spec
begin

text \<open>
  The order aggregate (\<open>api/services/aggregate.py\<close>): \<open>rebuild_from_events\<close> replays event
  documents through \<open>apply_event\<close> (the source's \<open>_apply\<close>), and five guards state the
  business rules.  On well-formed documents the replay refines \<open>order_run\<close>, and the guards
  are \<open>admits\<close>.
\<close>

record order_aggregate =
  agg_order_id :: pyval
  agg_version :: int
  agg_status :: order_status
  agg_customer_id :: pyval
  agg_customer_email :: pyval
  agg_items :: "pydict list"
  agg_total_amount :: pyfloat
  agg_payment_id :: pyval
  agg_tracking_id :: pyval

definition OrderAggregate :: "pyval \<Rightarrow> order_aggregate" where
  "OrderAggregate order_id =
     \<lparr>agg_order_id = order_id, agg_version = 0, agg_status = PENDING,
      agg_customer_id = PStr '''', agg_customer_email = PStr '''', agg_items = [],
      agg_total_amount = Fin 0, agg_payment_id = PNone, agg_tracking_id = PNone\<rparr>"

text \<open>\<open>aggregate_version\<close> is declared \<open>int\<close>; a value of another type counts as a type error.\<close>

definition version_item :: "pydict \<Rightarrow> exn + int" where
  "version_item event =
     bindR (dict_item event ''aggregate_version'')
       (\<lambda>v. case v of PInt i \<Rightarrow> Inr i | _ \<Rightarrow> Inl TypeError)"

text \<open>
  \<open>_apply\<close>.  A comparison of \<open>etype\<close> with an enumeration member is a comparison with its
  string; an unknown type changes the version only.
\<close>

definition apply_event :: "order_aggregate \<Rightarrow> pydict \<Rightarrow> exn + order_aggregate" where
  "apply_event self event =
     bindR (dict_item event ''event_type'') (\<lambda>etype.
     bindR (dict_item event ''payload'') (\<lambda>payload.
     bindR (version_item event) (\<lambda>version.
     let self = self\<lparr>agg_version := version\<rparr> in
     if etype = PStr (event_type_value ORDER_CREATED) then
       bindR (py_item payload ''customer_id'') (\<lambda>c.
       bindR (py_item payload ''customer_email'') (\<lambda>m.
       Inr (self\<lparr>agg_customer_id := c, agg_customer_email := m, agg_status := PENDING\<rparr>)))
     else if etype = PStr (event_type_value ORDER_ITEM_ADDED) then
       bindR (py_item payload ''product_id'') (\<lambda>i.
       bindR (py_item payload ''product_name'') (\<lambda>n.
       bindR (py_item payload ''quantity'') (\<lambda>q.
       bindR (py_item payload ''unit_price'') (\<lambda>u.
       bindR (py_item payload ''line_total'') (\<lambda>l.
       bindR (float_plus (agg_total_amount self) l) (\<lambda>total.
       Inr (self\<lparr>agg_items := agg_items self @
                   [[(''product_id'', i), (''product_name'', n), (''quantity'', q),
                     (''unit_price'', u), (''line_total'', l)]],
                 agg_total_amount := total\<rparr>)))))))
     else if etype = PStr (event_type_value ORDER_CONFIRMED) then
       Inr (self\<lparr>agg_status := CONFIRMED\<rparr>)
     else if etype = PStr (event_type_value ORDER_PAYMENT_PROCESSED) then
       bindR (py_item payload ''payment_id'') (\<lambda>p.
       Inr (self\<lparr>agg_status := PAID, agg_payment_id := p\<rparr>))
     else if etype = PStr (event_type_value ORDER_SHIPPED) then
       bindR (py_item payload ''tracking_id'') (\<lambda>t.
       Inr (self\<lparr>agg_status := SHIPPED, agg_tracking_id := t\<rparr>))
     else if etype = PStr (event_type_value ORDER_DELIVERED) then
       Inr (self\<lparr>agg_status := DELIVERED\<rparr>)
     else if etype = PStr (event_type_value ORDER_CANCELLED) then
       Inr (self\<lparr>agg_status := CANCELLED\<rparr>)
     else Inr self)))"

text \<open>\<open>sorted(events, key=lambda e: e["aggregate_version"])\<close>: stable, the keys read first.\<close>

definition sorted_by_version :: "pydict list \<Rightarrow> exn + pydict list" where
  "sorted_by_version events =
     bindR (mapR (\<lambda>e. bindR (version_item e) (\<lambda>v. Inr (v, e))) events)
       (\<lambda>ves. Inr (map snd (sort_key fst ves)))"

definition rebuild_from_events :: "pydict list \<Rightarrow> exn + order_aggregate" where
  "rebuild_from_events events =
     (case events of
        [] \<Rightarrow> Inl (ValueError [Lit ''Cannot rebuild aggregate from empty event list''])
      | ev # _ \<Rightarrow>
          bindR (dict_item ev ''aggregate_id'') (\<lambda>aggregate_id.
          bindR (sorted_by_version events) (\<lambda>evs.
          foldR apply_event (OrderAggregate aggregate_id) evs)))"

section \<open>Business rules\<close>

definition assert_can_add_item :: "order_aggregate \<Rightarrow> exn + unit" where
  "assert_can_add_item self =
     (if agg_status self \<notin> {PENDING}
      then Inl (ValueError [Lit ''Cannot add item to order in status '',
                            Fmt (PStr (order_status_value (agg_status self)))])
      else Inr ())"

definition assert_can_confirm :: "order_aggregate \<Rightarrow> exn + unit" where
  "assert_can_confirm self =
     (if agg_items self = [] then Inl (ValueError [Lit ''Cannot confirm empty order''])
      else if agg_status self \<noteq> PENDING
      then Inl (ValueError [Lit ''Cannot confirm order in status '',
                            Fmt (PStr (order_status_value (agg_status self)))])
      else Inr ())"

definition assert_can_pay :: "order_aggregate \<Rightarrow> exn + unit" where
  "assert_can_pay self =
     (if agg_status self \<noteq> CONFIRMED
      then Inl (ValueError [Lit ''Cannot pay order in status '',
                            Fmt (PStr (order_status_value (agg_status self)))])
      else Inr ())"

definition assert_can_ship :: "order_aggregate \<Rightarrow> exn + unit" where
  "assert_can_ship self =
     (if agg_status self \<noteq> PAID
      then Inl (ValueError [Lit ''Cannot ship unpaid order in status '',
                            Fmt (PStr (order_status_value (agg_status self)))])
      else Inr ())"

definition assert_can_cancel :: "order_aggregate \<Rightarrow> exn + unit" where
  "assert_can_cancel self =
     (if agg_status self \<in> {SHIPPED, DELIVERED}
      then Inl (ValueError [Lit ''Cannot cancel order in status '',
                            Fmt (PStr (order_status_value (agg_status self)))])
      else Inr ())"

section \<open>The aggregate of an abstract order\<close>

definition item_dict :: "item \<Rightarrow> pydict" where
  "item_dict i =
     [(''product_id'', PStr (it_product_id i)), (''product_name'', PStr (it_product_name i)),
      (''quantity'', PInt (it_quantity i)), (''unit_price'', PFloat (it_unit_price i)),
      (''line_total'', PFloat (it_line_total i))]"

definition opt_str :: "string option \<Rightarrow> pyval" where
  "opt_str x = (case x of None \<Rightarrow> PNone | Some s \<Rightarrow> PStr s)"

definition agg_of :: "pyval \<Rightarrow> order_state \<Rightarrow> order_aggregate" where
  "agg_of oid s =
     \<lparr>agg_order_id = oid, agg_version = os_version s, agg_status = os_status s,
      agg_customer_id = PStr (os_customer_id s), agg_customer_email = PStr (os_customer_email s),
      agg_items = map item_dict (os_items s), agg_total_amount = os_total s,
      agg_payment_id = opt_str (os_payment_id s), agg_tracking_id = opt_str (os_tracking_id s)\<rparr>"

lemma agg_of_init: "agg_of oid order_init = OrderAggregate oid"
  by (simp add: agg_of_def order_init_def OrderAggregate_def opt_str_def)

lemma agg_of_fields [simp]:
  "agg_version (agg_of oid s) = os_version s"
  "agg_status (agg_of oid s) = os_status s"
  "agg_items (agg_of oid s) = [] \<longleftrightarrow> os_items s = []"
  by (simp_all add: agg_of_def)

section \<open>Replay refines the abstract run\<close>

lemma decode_str_Some: "decode_str p k = Some s \<longleftrightarrow> map_of p k = Some (PStr s)"
  by (auto simp: decode_str_def split: option.splits pyval.splits)

lemma decode_item_Some:
  "decode_item p = Some i \<longleftrightarrow>
     map_of p ''product_id'' = Some (PStr (it_product_id i)) \<and>
     map_of p ''product_name'' = Some (PStr (it_product_name i)) \<and>
     map_of p ''quantity'' = Some (PInt (it_quantity i)) \<and>
     map_of p ''unit_price'' = Some (PFloat (it_unit_price i)) \<and>
     map_of p ''line_total'' = Some (PFloat (it_line_total i))"
  by (auto simp: decode_item_def split: option.splits pyval.splits)

lemma decode_Some:
  "decode d = Some (v, e) \<longleftrightarrow>
     map_of d ''aggregate_version'' = Some (PInt v) \<and>
     (\<exists>t p. map_of d ''event_type'' = Some (PStr t) \<and> map_of d ''payload'' = Some (PDict p) \<and>
            decode_payload t p = Some e)"
  by (auto simp: decode_def split: option.splits pyval.splits)

lemma decode_payload_SomeD:
  assumes "decode_payload t p = Some e"
  shows "case e of
        Created c m \<Rightarrow> t = event_type_value ORDER_CREATED \<and>
          map_of p ''customer_id'' = Some (PStr c) \<and> map_of p ''customer_email'' = Some (PStr m)
      | ItemAdded i \<Rightarrow> t = event_type_value ORDER_ITEM_ADDED \<and> decode_item p = Some i
      | Confirmed \<Rightarrow> t = event_type_value ORDER_CONFIRMED
      | Paid x \<Rightarrow> t = event_type_value ORDER_PAYMENT_PROCESSED \<and>
          map_of p ''payment_id'' = Some (PStr x)
      | Shipped x \<Rightarrow> t = event_type_value ORDER_SHIPPED \<and>
          map_of p ''tracking_id'' = Some (PStr x)
      | Delivered \<Rightarrow> t = event_type_value ORDER_DELIVERED
      | Cancelled \<Rightarrow> t = event_type_value ORDER_CANCELLED"
  using assms unfolding decode_payload_def
  by (auto simp: decode_str_Some simp del: event_type_value.simps
      split: if_splits option.splits)

lemma version_item_decode: "decode d = Some (v, e) \<Longrightarrow> version_item d = Inr v"
  by (simp add: decode_Some version_item_def dict_simps)

lemma apply_event_refines:
  assumes "decode d = Some (v, e)"
  shows "apply_event (agg_of oid s) d = Inr (agg_of oid (order_apply s (v, e)))"
proof -
  obtain t p where tp: "map_of d ''event_type'' = Some (PStr t)"
    "map_of d ''payload'' = Some (PDict p)" "decode_payload t p = Some e"
    using assms by (auto simp: decode_Some)
  have v: "version_item d = Inr v"
    using assms by (rule version_item_decode)
  show ?thesis
    using decode_payload_SomeD [OF tp(3)] unfolding apply_event_def
    by (cases e)
      (simp_all add: tp v dict_simps decode_item_Some agg_of_def order_apply_def opt_str_def item_dict_def)
qed

lemma foldR_apply_event:
  assumes "list_all2 (\<lambda>d ve. decode d = Some ve) ds ves"
  shows "foldR apply_event (agg_of oid s) ds = Inr (agg_of oid (order_run s ves))"
  using assms
proof (induction ds ves arbitrary: s rule: list_all2_induct)
  case Nil
  then show ?case by simp
next
  case (Cons d ds ve ves)
  then show ?case
    using apply_event_refines [of d "fst ve" "snd ve" oid s] by simp
qed

text \<open>The typed events of a document list, in version order.\<close>

definition history :: "pydict list \<Rightarrow> (int \<times> order_event) list" where
  "history ds = map (\<lambda>d. the (decode d)) (sort_key doc_version ds)"

lemma sorted_by_version_decoded:
  assumes "\<And>d. d \<in> set ds \<Longrightarrow> decode d \<noteq> None"
  shows "sorted_by_version ds = Inr (sort_key doc_version ds)"
proof -
  have "mapR (\<lambda>e. bindR (version_item e) (\<lambda>v. Inr (v, e))) ds = Inr (map (\<lambda>d. (doc_version d, d)) ds)"
    using assms by (intro mapR_Inr_map) (fastforce simp: version_item_decode decode_version)
  then show ?thesis
    by (simp add: sorted_by_version_def sort_key_decorated comp_def)
qed

lemma history_list_all2:
  assumes "\<And>d. d \<in> set ds \<Longrightarrow> decode d \<noteq> None"
  shows "list_all2 (\<lambda>d ve. decode d = Some ve) (sort_key doc_version ds) (history ds)"
  using assms by (auto simp: history_def list_all2_conv_all_nth)
    (metis assms nth_mem option.collapse set_sort length_sort)

lemma agg_id_item: "decode_str d ''aggregate_id'' = Some a \<Longrightarrow> dict_item d ''aggregate_id'' = Inr (PStr a)"
  by (simp add: decode_str_Some dict_simps)

lemma rebuild_run:
  assumes "ds \<noteq> []" and "\<And>d. d \<in> set ds \<Longrightarrow> decode d \<noteq> None"
    and "dict_item (hd ds) ''aggregate_id'' = Inr a"
  shows "rebuild_from_events ds = Inr (agg_of a (order_run order_init (history ds)))"
proof -
  have "foldR apply_event (OrderAggregate a) (sort_key doc_version ds) =
      Inr (agg_of a (order_run order_init (history ds)))"
    using foldR_apply_event [OF history_list_all2 [OF assms(2)], where oid = a and s = order_init]
    by (simp add: agg_of_init)
  then have "bindR (sorted_by_version ds) (foldR apply_event (OrderAggregate a)) =
      Inr (agg_of a (order_run order_init (history ds)))"
    using sorted_by_version_decoded [OF assms(2)] by simp
  then show ?thesis
    using assms(1,3) by (cases ds) (simp_all add: rebuild_from_events_def)
qed

lemma history_snoc:
  assumes "\<And>x. x \<in> set ds \<Longrightarrow> doc_version x \<le> doc_version d"
  shows "history (ds @ [d]) = history ds @ [the (decode d)]"
  using sort_key_snoc [of ds doc_version d] assms by (simp add: history_def)

section \<open>Properties\<close>

text \<open>
  C12. Replaying the stored documents of an order computes the abstract run: for every non-empty
  list of well-formed documents, in any order, \<open>rebuild_from_events\<close> returns (never raises) the
  aggregate of the state that the typed events denote in version order.
\<close>

theorem rebuild_refines_order_run:
  assumes "ds \<noteq> []" and "\<forall>d \<in> set ds. decode d \<noteq> None"
    and "decode_str (hd ds) ''aggregate_id'' = Some a"
  shows "rebuild_from_events ds = Inr (agg_of (PStr a) (order_run order_init (history ds)))"
  using assms by (intro rebuild_run) (auto simp: agg_id_item)

theorem rebuild_refines_order_run_witness:
  "rebuild_from_events [sample_item 2 ''x'' 3 5, sample_created] =
     Inr (agg_of (PStr ''o1'') (order_run order_init
       (history [sample_item 2 ''x'' 3 5, sample_created])))"
  by (rule rebuild_refines_order_run)
    (simp_all add: sample_defs decode_model_dump decode_payload_def decode_item_def decode_str_def
      model_dump_def decode_def)

text \<open>
  Replay does not depend on the order in which the store delivers an aggregate's documents:
  two lists with the same documents, all of one aggregate and with distinct versions, rebuild
  to the same result.
\<close>

theorem rebuild_order_independent:
  assumes "mset ds = mset ds'" and "\<forall>d \<in> set ds. decode d \<noteq> None"
    and "\<forall>d \<in> set ds. decode_str d ''aggregate_id'' = Some a"
    and "distinct (map doc_version ds)"
  shows "rebuild_from_events ds = rebuild_from_events ds'"
proof (cases "ds = []")
  case True
  then show ?thesis using assms(1) by simp
next
  case False
  have set: "set ds' = set ds" and ne: "ds' \<noteq> []"
    using assms(1) False by (auto dest: mset_eq_setD)
  have "history ds = history ds'"
    using sort_key_unique [OF assms(1,4)] by (simp add: history_def)
  moreover have "rebuild_from_events xs = Inr (agg_of (PStr a) (order_run order_init (history xs)))"
    if "xs \<noteq> []" "set xs = set ds" for xs
    using that assms(2,3) by (intro rebuild_run) (auto intro!: agg_id_item)
  ultimately show ?thesis
    using False ne set by simp
qed

theorem rebuild_order_independent_witness:
  "rebuild_from_events [sample_created, sample_item 2 ''x'' 3 5] =
   rebuild_from_events [sample_item 2 ''x'' 3 5, sample_created]"
  by (rule rebuild_order_independent [where a = "''o1''"])
    (simp_all add: sample_defs decode_model_dump decode_payload_def decode_item_def decode_str_def
      model_dump_def decode_def doc_version_def)

text \<open>
  Replay is incremental: appending a document whose version is at least every earlier one
  gives the earlier replay followed by one application of the new event, with exactly the
  errors of either.
\<close>

theorem rebuild_incremental:
  assumes "ds \<noteq> []" and "version_item d = Inr v"
    and "\<forall>x \<in> set ds. \<exists>u. version_item x = Inr u \<and> u \<le> v"
  shows "rebuild_from_events (ds @ [d]) = bindR (rebuild_from_events ds) (\<lambda>agg. apply_event agg d)"
proof -
  let ?k = "\<lambda>e. bindR (version_item e) (\<lambda>u. Inr (u, e))"
  define ves where "ves = map (\<lambda>x. (projr (version_item x), x)) ds"
  have m: "mapR ?k ds = Inr ves"
    using assms(3) unfolding ves_def by (intro mapR_Inr_map) fastforce
  have "fst y \<le> v" if "y \<in> set ves" for y
    using that assms(3) by (fastforce simp: ves_def)
  then have "sort_key fst (ves @ [(v, d)]) = sort_key fst ves @ [(v, d)]"
    by (intro sort_key_snoc) simp
  then have s: "sorted_by_version (ds @ [d]) = bindR (sorted_by_version ds) (\<lambda>es. Inr (es @ [d]))"
    using m assms(2) by (simp add: sorted_by_version_def mapR_append)
  have e: "bindR (foldR apply_event agg es) (\<lambda>a. bindR (apply_event a d) Inr) =
      bindR (foldR apply_event agg es) (\<lambda>a. apply_event a d)" for agg es
    by (cases "foldR apply_event agg es") (auto simp: bindR_def split: sum.splits)
  obtain x xs where ds: "ds = x # xs" using assms(1) by (cases ds) auto
  show ?thesis
    using s e unfolding ds rebuild_from_events_def
    by (cases "dict_item x ''aggregate_id''"; cases "sorted_by_version (x # xs)")
      (auto simp: foldR_append bindR_def split: sum.splits)
qed

theorem rebuild_incremental_witness:
  "rebuild_from_events ([sample_created] @ [sample_confirmed 2]) =
   bindR (rebuild_from_events [sample_created]) (\<lambda>agg. apply_event agg (sample_confirmed 2))"
  by (rule rebuild_incremental [where v = 2])
    (simp_all add: sample_defs version_item_def dict_simps)

text \<open>
  The guards are exactly the admission rules: for every order with at least one event, each
  \<open>assert_can_...\<close> passes if and only if the specification admits the event the command makes.
\<close>

theorem guards_decide_admission:
  assumes "os_version s \<noteq> 0"
  shows "(assert_can_add_item (agg_of oid s) = Inr () \<longleftrightarrow> admits s (ItemAdded i)) \<and>
    (assert_can_confirm (agg_of oid s) = Inr () \<longleftrightarrow> admits s Confirmed) \<and>
    (assert_can_pay (agg_of oid s) = Inr () \<longleftrightarrow> admits s (Paid p)) \<and>
    (assert_can_ship (agg_of oid s) = Inr () \<longleftrightarrow> admits s (Shipped t)) \<and>
    (assert_can_cancel (agg_of oid s) = Inr () \<longleftrightarrow> admits s Cancelled)"
  using assms by (auto simp: assert_can_add_item_def assert_can_confirm_def assert_can_pay_def
      assert_can_ship_def assert_can_cancel_def)

theorem guards_decide_admission_witness:
  "assert_can_pay (agg_of PNone (order_init\<lparr>os_version := 3, os_status := CONFIRMED\<rparr>)) = Inr ()"
  using guards_decide_admission [of "order_init\<lparr>os_version := 3, os_status := CONFIRMED\<rparr>"]
  by simp

end
