(* ===== verification/Services.thy ===== *)
theory Services
  imports Events
begin

text \<open>
  The services the program talks to: MongoDB, Redis, Kafka, PostgreSQL, SQS and S3.  None of
  them is part of the repository, so each client is a record of operations over an unknown
  world \<open>'w\<close>, passed to the definitions that use it.  What the program relies on is stated
  once per client as a locale, over a view \<open>V\<close> of the world as a \<open>backend\<close>: the documented
  effect of a call that succeeds, and what a call that raises may have done.  A call that raises may
  have taken effect (the answer was lost), except where the service reports a rejection.
  Time-to-live expiry is not an effect of any call: \<open>b_kv\<close> holds the keys that are live.

  The tables are those of \<open>infra/postgres_init.sql\<close>, without the surrogate key of
  \<open>order_items\<close>, which no statement reads.
\<close>

section \<open>The state of the services\<close>

record order_row =
  or_order_id :: string
  or_customer_id :: string
  or_customer_email :: string
  or_status :: string
  or_total_amount :: rat
  or_version :: int
  or_payment_id :: "string option"
  or_tracking_id :: "string option"
  or_created_at :: "rat option"
  or_updated_at :: "rat option"

record item_row =
  ir_order_id :: string
  ir_product_id :: string
  ir_product_name :: string
  ir_quantity :: int
  ir_unit_price :: rat
  ir_line_total :: rat

record pgdb =
  pg_orders :: "order_row list"
  pg_items :: "item_row list"

record mongo_index =
  ix_name :: string
  ix_keys :: "string list"
  ix_unique :: bool
  ix_expire_after :: "nat option"

record kafka_record =
  kr_topic :: string
  kr_key :: string
  kr_value :: string
  kr_headers :: "(string \<times> string) list"

record sqs_message =
  sm_body :: string
  sm_attributes :: "(string \<times> string) list"
  sm_receipt :: string

text \<open>For every partition of a topic, the offset of the next message.\<close>

type_synonym positions = "nat \<Rightarrow> nat"

record backend =
  b_docs :: "pydict list"
  b_indexes :: "mongo_index list"
  b_kv :: "string \<rightharpoonup> string"
  b_topic :: "kafka_record list"
  b_tables :: pgdb
  b_dlq :: "sqs_message list"
  b_objects :: "string \<rightharpoonup> string"
  b_offsets :: "string \<Rightarrow> positions"

section \<open>Clients\<close>

record 'w mongo_collection =
  insert_one :: "pydict \<Rightarrow> ('w, unit) io"
  find_sorted :: "string \<times> pyval \<Rightarrow> string \<Rightarrow> bool \<Rightarrow> nat option \<Rightarrow> ('w, pydict list) io"
  find_one_sorted :: "string \<times> pyval \<Rightarrow> string \<Rightarrow> string \<Rightarrow> bool \<Rightarrow> ('w, pydict option) io"
  update_many_set :: "string \<times> pyval \<Rightarrow> string \<times> pyval \<Rightarrow> ('w, unit) io"
  create_index :: "mongo_index \<Rightarrow> ('w, unit) io"

record 'w redis_client =
  redis_get :: "string \<Rightarrow> ('w, string option) io"
  redis_exists :: "string \<Rightarrow> ('w, bool) io"
  redis_setex :: "string \<Rightarrow> nat \<Rightarrow> string \<Rightarrow> ('w, unit) io"
  redis_delete :: "string \<Rightarrow> ('w, unit) io"

record 'w kafka_producer =
  send_and_wait :: "kafka_record \<Rightarrow> ('w, unit) io"

text \<open>tenacity's \<open>retry(stop=stop_after_attempt(n))\<close> around a coroutine that returns nothing.\<close>

type_synonym 'w tenacity = "nat \<Rightarrow> ('w, unit) io \<Rightarrow> ('w, unit) io"

section \<open>MongoDB\<close>

definition strip_id :: "pydict \<Rightarrow> pydict" where
  "strip_id d = filter (\<lambda>kv. fst kv \<noteq> ''_id'') d"

definition index_conflict :: "mongo_index \<Rightarrow> pydict \<Rightarrow> pydict \<Rightarrow> bool" where
  "index_conflict ix d x \<longleftrightarrow>
     ix_unique ix \<and> map (map_of x) (ix_keys ix) = map (map_of d) (ix_keys ix)"

definition id_index :: mongo_index where
  "id_index = \<lparr>ix_name = ''_id_'', ix_keys = [''_id''], ix_unique = True, ix_expire_after = None\<rparr>"

definition dup_key :: "mongo_index list \<Rightarrow> pydict list \<Rightarrow> pydict \<Rightarrow> bool" where
  "dup_key ixs ds d \<longleftrightarrow>
     (\<exists>ix \<in> set (id_index # ixs). \<exists>x \<in> set ds. index_conflict ix d x)"

definition matches :: "string \<times> pyval \<Rightarrow> pydict \<Rightarrow> bool" where
  "matches f d \<longleftrightarrow> map_of d (fst f) = Some (snd f)"

definition num_key :: "string \<Rightarrow> pydict \<Rightarrow> rat option" where
  "num_key k d =
     (case map_of d k of
        Some (PInt i) \<Rightarrow> Some (of_int i)
      | Some (PFloat (Fin q)) \<Rightarrow> Some q
      | _ \<Rightarrow> None)"

text \<open>Documents in the order a sort on a numeric field delivers them.\<close>

definition key_sorted :: "string \<Rightarrow> bool \<Rightarrow> pydict list \<Rightarrow> bool" where
  "key_sorted k asc ds \<longleftrightarrow>
     ((\<forall>d \<in> set ds. num_key k d \<noteq> None) \<longrightarrow>
        sorted (map (\<lambda>d. the (num_key k d)) (if asc then ds else rev ds)))"

text \<open>The text of an exception, as the program searches it for a duplicate-key report.\<close>

fun exn_text :: "exn \<Rightarrow> string" where
  "exn_text (DriverError s) = s"
| "exn_text (KafkaError s) = s"
| "exn_text (KeyError k) = [CHR 0x27] @ k @ [CHR 0x27]"
| "exn_text _ = ''''"

definition dup_text :: "string \<Rightarrow> bool" where
  "dup_text s \<longleftrightarrow> str_in ''duplicate key'' (str_lower s) \<or> str_in ''E11000'' s"

locale mongo_laws =
  fixes M :: "'w mongo_collection" and V :: "'w \<Rightarrow> backend"
  assumes insert_ok: "insert_one M d w = (Inr u, w') \<Longrightarrow>
      \<not> dup_key (b_indexes (V w)) (b_docs (V w)) d \<and>
      V w' = (V w)\<lparr>b_docs := b_docs (V w) @ [d]\<rparr>"
    and insert_err: "insert_one M d w = (Inl e, w') \<Longrightarrow>
      \<exists>s. e = DriverError s \<and>
        (if dup_text s then dup_key (b_indexes (V w)) (b_docs (V w)) d \<and> V w' = V w
         else V w' = V w \<or>
           \<not> dup_key (b_indexes (V w)) (b_docs (V w)) d \<and>
           V w' = (V w)\<lparr>b_docs := b_docs (V w) @ [d]\<rparr>)"
    and find_ok: "find_sorted M f k asc cap w = (Inr ds, w') \<Longrightarrow>
      V w' = V w \<and>
      (\<exists>full. mset full = mset (filter (matches f) (b_docs (V w))) \<and> key_sorted k asc full \<and>
        ds = map strip_id (case cap of None \<Rightarrow> full | Some n \<Rightarrow> take n full))"
    and find_err: "find_sorted M f k asc cap w = (Inl e, w') \<Longrightarrow>
      V w' = V w \<and> (\<exists>s. e = DriverError s)"
    and find_one_ok: "find_one_sorted M f p k asc w = (Inr r, w') \<Longrightarrow>
      V w' = V w \<and>
      (\<exists>full. mset full = mset (filter (matches f) (b_docs (V w))) \<and> key_sorted k asc full \<and>
        r = (case full of [] \<Rightarrow> None | d # _ \<Rightarrow> Some (filter (\<lambda>kv. fst kv \<in> {''_id'', p}) d)))"
    and find_one_err: "find_one_sorted M f p k asc w = (Inl e, w') \<Longrightarrow>
      V w' = V w \<and> (\<exists>s. e = DriverError s)"
    and update_ok: "update_many_set M f kv w = (Inr u, w') \<Longrightarrow>
      V w' = (V w)\<lparr>b_docs := map (\<lambda>d. if matches f d then dict_set d (fst kv) (snd kv) else d)
        (b_docs (V w))\<rparr>"
    and update_err: "update_many_set M f kv w = (Inl e, w') \<Longrightarrow>
      (\<exists>s. e = DriverError s) \<and>
      (\<exists>hit. V w' = (V w)\<lparr>b_docs := map (\<lambda>(d, b). if b \<and> matches f d
          then dict_set d (fst kv) (snd kv) else d) (zip (b_docs (V w)) hit)\<rparr> \<and>
        length hit = length (b_docs (V w)))"
    and index_ok: "create_index M ix w = (Inr u, w') \<Longrightarrow>
      V w' = (V w)\<lparr>b_indexes :=
        (if ix \<in> set (b_indexes (V w)) then b_indexes (V w) else b_indexes (V w) @ [ix])\<rparr> \<and>
      (\<forall>ds d es. b_docs (V w) = ds @ d # es \<longrightarrow> (\<forall>x \<in> set ds. \<not> index_conflict ix d x))"
    and index_err: "create_index M ix w = (Inl e, w') \<Longrightarrow> V w' = V w \<and> (\<exists>s. e = DriverError s)"

section \<open>Redis\<close>

locale redis_laws =
  fixes R :: "'w redis_client" and V :: "'w \<Rightarrow> backend"
  assumes get_ok: "redis_get R k w = (Inr r, w') \<Longrightarrow> V w' = V w \<and> r = b_kv (V w) k"
    and get_err: "redis_get R k w = (Inl e, w') \<Longrightarrow> V w' = V w"
    and exists_ok: "redis_exists R k w = (Inr b, w') \<Longrightarrow>
      V w' = V w \<and> (b \<longleftrightarrow> k \<in> dom (b_kv (V w)))"
    and exists_err: "redis_exists R k w = (Inl e, w') \<Longrightarrow> V w' = V w"
    and setex_ok: "redis_setex R k ttl v w = (Inr u, w') \<Longrightarrow>
      V w' = (V w)\<lparr>b_kv := (b_kv (V w))(k \<mapsto> v)\<rparr>"
    and setex_err: "redis_setex R k ttl v w = (Inl e, w') \<Longrightarrow>
      V w' = V w \<or> V w' = (V w)\<lparr>b_kv := (b_kv (V w))(k \<mapsto> v)\<rparr>"
    and delete_ok: "redis_delete R k w = (Inr u, w') \<Longrightarrow>
      V w' = (V w)\<lparr>b_kv := (b_kv (V w))(k := None)\<rparr>"
    and delete_err: "redis_delete R k w = (Inl e, w') \<Longrightarrow>
      V w' = V w \<or> V w' = (V w)\<lparr>b_kv := (b_kv (V w))(k := None)\<rparr>"

section \<open>Kafka, tenacity, clock and identifiers\<close>

locale producer_laws =
  fixes K :: "'w kafka_producer" and V :: "'w \<Rightarrow> backend"
  assumes send_ok: "send_and_wait K r w = (Inr u, w') \<Longrightarrow>
      V w' = (V w)\<lparr>b_topic := b_topic (V w) @ [r]\<rparr>"
    and send_err: "send_and_wait K r w = (Inl e, w') \<Longrightarrow>
      V w' = V w \<or> V w' = (V w)\<lparr>b_topic := b_topic (V w) @ [r]\<rparr>"

text \<open>
  Without \<open>reraise\<close>, tenacity retries on any exception and raises \<open>RetryError\<close> after the last
  attempt; it sleeps in between.
\<close>

fun retry_attempts :: "nat \<Rightarrow> ('w, unit) io \<Rightarrow> ('w, unit) io" where
  "retry_attempts 0 m = raiseM RetryError"
| "retry_attempts (Suc n) m = tryM m (\<lambda>_. retry_attempts n m)"

locale tenacity_laws =
  fixes T :: "'w tenacity"
  assumes retry_documented: "T n m w = retry_attempts n m w"

locale env_laws =
  fixes E :: "'w pyenv" and V :: "'w \<Rightarrow> backend"
  assumes uuid4_view: "V (snd (uuid4 E w)) = V w"
    and time_view: "V (snd (time_time E w)) = V w"
    and utcnow_view: "V (snd (utcnow E w)) = V w"
    and uuid4_nonempty: "fst (uuid4 E w) \<noteq> []"

text \<open>An invariant that every attempt keeps is kept by the retries.\<close>

lemma retry_attempts_inv:
  assumes "retry_attempts n m w = (r, w')" and "P w"
    and "\<And>w r w'. m w = (r, w') \<Longrightarrow> P w \<Longrightarrow> P w'"
  shows "P w'"
  using assms(1,2)
proof (induction n arbitrary: w)
  case 0
  then show ?case by (simp add: io_simps)
next
  case (Suc n)
  from Suc.prems(1) show ?case
    unfolding retry_attempts.simps
  proof (cases rule: tryM_cases)
    case (handled e w1)
    then show ?thesis using Suc.IH Suc.prems(2) assms(3) by blast
  next
    case (returned x)
    then show ?thesis using Suc.prems(2) assms(3) by blast
  qed
qed

lemma keepsM_retry [keeps_intros]: "keepsM P m \<Longrightarrow> keepsM P (retry_attempts n m)"
  by (induction n) (auto intro: keeps_intros)

lemma retry_attempts_ok:
  assumes "retry_attempts n m w = (Inr x, w')"
  obtains w1 where "m w1 = (Inr x, w')"
  using assms
proof (induction n arbitrary: w)
  case 0
  then show ?case by (simp add: io_simps)
next
  case (Suc n)
  from Suc.prems(2) show ?case
    unfolding retry_attempts.simps
    by (cases rule: tryM_cases) (use Suc in auto)
qed

lemma retry_attempts_error: "retry_attempts n m w = (Inl e, w') \<Longrightarrow> e = RetryError"
proof (induction n arbitrary: w)
  case 0
  then show ?case by (simp add: io_simps)
next
  case (Suc n)
  from Suc.prems show ?case
    unfolding retry_attempts.simps
    by (cases rule: tryM_cases) (use Suc in auto)
qed

end
