(* ===== verification/Memory_Backend.thy ===== *)
theory Memory_Backend
  imports Services
begin

text \<open>
  A reference implementation of the services in memory, with a script of faults: each call
  takes the next entry of the script and works (\<open>Up\<close>), raises without effect (\<open>Lost\<close>), or
  takes effect and then raises (\<open>Late\<close>); after the script every call works.  It satisfies the
  laws of \<open>Services\<close>, so those laws are consistent, and the theorems that rest on them are
  evaluated on it.
\<close>

datatype fault = Up | Lost | Late

record mem =
  mem_state :: backend
  mem_faults :: "fault list"
  mem_seed :: nat

definition mem_op :: "(backend \<Rightarrow> (exn + 'a) \<times> backend) \<Rightarrow> (mem, 'a) io" where
  "mem_op f w =
     (let fs = tl (mem_faults w); run = f (mem_state w);
          late = w\<lparr>mem_state := snd run, mem_faults := fs\<rparr>
      in case mem_faults w of
           Lost # _ \<Rightarrow> (Inl (DriverError ''connection lost''), w\<lparr>mem_faults := fs\<rparr>)
         | Late # _ \<Rightarrow> (case fst run of
                          Inl e \<Rightarrow> (Inl e, late)
                        | Inr _ \<Rightarrow> (Inl (DriverError ''timed out''), late))
         | _ \<Rightarrow> (fst run, late))"

text \<open>An update that never fails, or one that fails by the script.\<close>

definition mem_do :: "bool \<Rightarrow> (backend \<Rightarrow> backend) \<Rightarrow> (mem, unit) io" where
  "mem_do reliable f =
     (if reliable then (\<lambda>w. (Inr (), w\<lparr>mem_state := f (mem_state w)\<rparr>)) else mem_op (\<lambda>b. (Inr (), f b)))"

definition mem_sort :: "string \<Rightarrow> bool \<Rightarrow> pydict list \<Rightarrow> pydict list" where
  "mem_sort k asc ds =
     (let s = sort_key (\<lambda>d. case num_key k d of None \<Rightarrow> 0 | Some q \<Rightarrow> q) ds
      in if asc then s else rev s)"

definition mem_mongo :: "mem mongo_collection" where
  "mem_mongo =
     \<lparr>insert_one = (\<lambda>d. mem_op (\<lambda>b. if dup_key (b_indexes b) (b_docs b) d
          then (Inl (DriverError ''E11000 duplicate key error''), b)
          else (Inr (), b\<lparr>b_docs := b_docs b @ [d]\<rparr>))),
      find_sorted = (\<lambda>f k asc cap. mem_op (\<lambda>b.
          (Inr (map strip_id (let full = mem_sort k asc (filter (matches f) (b_docs b))
             in case cap of None \<Rightarrow> full | Some n \<Rightarrow> take n full)), b))),
      find_one_sorted = (\<lambda>f p k asc. mem_op (\<lambda>b.
          (Inr (case mem_sort k asc (filter (matches f) (b_docs b)) of
                  [] \<Rightarrow> None | d # _ \<Rightarrow> Some (filter (\<lambda>kv. fst kv \<in> {''_id'', p}) d)), b))),
      update_many_set = (\<lambda>f kv. mem_op (\<lambda>b. (Inr (), b\<lparr>b_docs :=
          map (\<lambda>d. if matches f d then dict_set d (fst kv) (snd kv) else d) (b_docs b)\<rparr>))),
      create_index = (\<lambda>ix w.
          let b = mem_state w in
          if \<exists>i < length (b_docs b). \<exists>x \<in> set (take i (b_docs b)).
               index_conflict ix (b_docs b ! i) x
          then (Inl (DriverError ''cannot build index''), w)
          else (Inr (), w\<lparr>mem_state := b\<lparr>b_indexes :=
            (if ix \<in> set (b_indexes b) then b_indexes b else b_indexes b @ [ix])\<rparr>\<rparr>))\<rparr>"

definition mem_redis :: "mem redis_client" where
  "mem_redis =
     \<lparr>redis_get = (\<lambda>k. mem_op (\<lambda>b. (Inr (b_kv b k), b))),
      redis_exists = (\<lambda>k. mem_op (\<lambda>b. (Inr (b_kv b k \<noteq> None), b))),
      redis_setex = (\<lambda>k ttl v. mem_op (\<lambda>b. (Inr (), b\<lparr>b_kv := (b_kv b)(k \<mapsto> v)\<rparr>))),
      redis_delete = (\<lambda>k. mem_op (\<lambda>b. (Inr (), b\<lparr>b_kv := (b_kv b)(k := None)\<rparr>)))\<rparr>"

definition mem_kafka :: "mem kafka_producer" where
  "mem_kafka =
     \<lparr>send_and_wait = (\<lambda>r. mem_op (\<lambda>b. (Inr (), b\<lparr>b_topic := b_topic b @ [r]\<rparr>)))\<rparr>"

text \<open>Identifiers longer than any that a stored document carries.\<close>

definition str_size :: "pyval option \<Rightarrow> nat" where
  "str_size v = (case v of Some (PStr s) \<Rightarrow> length s | _ \<Rightarrow> 0)"

definition id_size :: "pydict list \<Rightarrow> nat" where
  "id_size ds = sum_list (map (\<lambda>d. str_size (map_of d ''_id'') + str_size (map_of d ''event_id'') +
     str_size (map_of d ''aggregate_id'')) ds)"

definition mem_env :: "mem pyenv" where
  "mem_env =
     \<lparr>uuid4 = (\<lambda>w. (replicate (Suc (mem_seed w + id_size (b_docs (mem_state w)))) CHR ''u'',
                  w\<lparr>mem_seed := Suc (mem_seed w)\<rparr>)),
      time_time = (\<lambda>w. (Fin (of_nat (mem_seed w)), w)),
      utcnow = (\<lambda>w. (of_nat (mem_seed w), w))\<rparr>"

definition mem_init :: mem where
  "mem_init =
     \<lparr>mem_state = \<lparr>b_docs = [], b_indexes = [], b_kv = Map.empty, b_topic = [],
        b_tables = \<lparr>pg_orders = [], pg_items = []\<rparr>, b_dlq = [], b_objects = Map.empty,
        b_offsets = (\<lambda>_ _. 0)\<rparr>,
      mem_faults = [], mem_seed = 0\<rparr>"

section \<open>The laws hold\<close>

lemma mem_op_Inr:
  assumes "mem_op f w = (Inr x, w')"
  shows "f (mem_state w) = (Inr x, mem_state w')"
  using assms
  by (auto simp: mem_op_def Let_def prod_eq_iff split: list.splits fault.splits sum.splits)

lemma mem_op_Inl:
  assumes "mem_op f w = (Inl e, w')"
  shows "f (mem_state w) = (Inl e, mem_state w') \<or>
    (\<exists>s. e = DriverError s \<and> s \<in> {''connection lost'', ''timed out''}) \<and>
      (mem_state w' = mem_state w \<or> (\<exists>x. f (mem_state w) = (Inr x, mem_state w')))"
  using assms
  by (auto simp: mem_op_def Let_def prod_eq_iff split: list.splits fault.splits sum.splits)

lemma mem_do_any:
  "mem_do reliable f w = (q, w') \<Longrightarrow>
     mem_state w' = mem_state w \<and> q \<noteq> Inr () \<or> mem_state w' = f (mem_state w)"
  by (auto simp: mem_do_def mem_op_def Let_def split: if_splits list.splits fault.splits)

lemma dup_text_simps [simp]:
  "dup_text ''E11000 duplicate key error''"
  "\<not> dup_text ''connection lost''" "\<not> dup_text ''timed out''"
  by code_simp+

lemma mem_sort_mset [simp]: "mset (mem_sort k asc ds) = mset ds"
  by (simp add: mem_sort_def Let_def)

lemma mem_sort_sorted [simp]: "key_sorted k asc (mem_sort k asc ds)"
proof -
  let ?f = "\<lambda>d. case num_key k d of None \<Rightarrow> 0 | Some q \<Rightarrow> q"
  have "sorted (map (\<lambda>d. the (num_key k d)) (sort_key ?f ds))" if "\<forall>d \<in> set ds. num_key k d \<noteq> None"
  proof -
    have "map (\<lambda>d. the (num_key k d)) (sort_key ?f ds) = map ?f (sort_key ?f ds)"
      using that by (intro map_cong) (auto split: option.splits)
    then show ?thesis by (simp only: sorted_sort_key)
  qed
  then show ?thesis
    by (simp add: key_sorted_def mem_sort_def Let_def)
qed

interpretation mem_mongo: mongo_laws mem_mongo mem_state
proof
  fix d :: pydict and w w' and u
  assume "insert_one mem_mongo d w = (Inr u, w')"
  then show "\<not> dup_key (b_indexes (mem_state w)) (b_docs (mem_state w)) d \<and>
      mem_state w' = (mem_state w)\<lparr>b_docs := b_docs (mem_state w) @ [d]\<rparr>"
    by (auto simp: mem_mongo_def dest!: mem_op_Inr split: if_splits)
next
  fix d :: pydict and w w' and e
  assume "insert_one mem_mongo d w = (Inl e, w')"
  then show "\<exists>s. e = DriverError s \<and>
        (if dup_text s then dup_key (b_indexes (mem_state w)) (b_docs (mem_state w)) d \<and>
           mem_state w' = mem_state w
         else mem_state w' = mem_state w \<or>
           \<not> dup_key (b_indexes (mem_state w)) (b_docs (mem_state w)) d \<and>
           mem_state w' = (mem_state w)\<lparr>b_docs := b_docs (mem_state w) @ [d]\<rparr>)"
    by (auto simp: mem_mongo_def dest!: mem_op_Inl split: if_splits)
next
  fix f k asc cap w w' and ds :: "pydict list"
  assume "find_sorted mem_mongo f k asc cap w = (Inr ds, w')"
  then show "mem_state w' = mem_state w \<and>
      (\<exists>full. mset full = mset (filter (matches f) (b_docs (mem_state w))) \<and> key_sorted k asc full \<and>
        ds = map strip_id (case cap of None \<Rightarrow> full | Some n \<Rightarrow> take n full))"
    by (auto simp: mem_mongo_def Let_def dest!: mem_op_Inr
        intro!: exI [of _ "mem_sort k asc (filter (matches f) (b_docs (mem_state w)))"])
next
  fix f k asc cap w w' e
  assume "find_sorted mem_mongo f k asc cap w = (Inl e, w')"
  then show "mem_state w' = mem_state w \<and> (\<exists>s. e = DriverError s)"
    by (auto simp: mem_mongo_def dest!: mem_op_Inl)
next
  fix f p k asc w w' r
  assume "find_one_sorted mem_mongo f p k asc w = (Inr r, w')"
  then show "mem_state w' = mem_state w \<and>
      (\<exists>full. mset full = mset (filter (matches f) (b_docs (mem_state w))) \<and> key_sorted k asc full \<and>
        r = (case full of [] \<Rightarrow> None | d # _ \<Rightarrow> Some (filter (\<lambda>kv. fst kv \<in> {''_id'', p}) d)))"
    by (auto simp: mem_mongo_def dest!: mem_op_Inr
        intro!: exI [of _ "mem_sort k asc (filter (matches f) (b_docs (mem_state w)))"])
next
  fix f p k asc w w' e
  assume "find_one_sorted mem_mongo f p k asc w = (Inl e, w')"
  then show "mem_state w' = mem_state w \<and> (\<exists>s. e = DriverError s)"
    by (auto simp: mem_mongo_def dest!: mem_op_Inl)
next
  fix f kv w w' u
  assume "update_many_set mem_mongo f kv w = (Inr u, w')"
  then show "mem_state w' = (mem_state w)\<lparr>b_docs := map (\<lambda>d. if matches f d
      then dict_set d (fst kv) (snd kv) else d) (b_docs (mem_state w))\<rparr>"
    by (auto simp: mem_mongo_def dest!: mem_op_Inr)
next
  fix f kv w w' e
  assume "update_many_set mem_mongo f kv w = (Inl e, w')"
  then consider "mem_state w' = mem_state w" "\<exists>s. e = DriverError s"
    | "mem_state w' = (mem_state w)\<lparr>b_docs := map (\<lambda>d. if matches f d
        then dict_set d (fst kv) (snd kv) else d) (b_docs (mem_state w))\<rparr>" "\<exists>s. e = DriverError s"
    by (auto simp: mem_mongo_def dest!: mem_op_Inl)
  then show "(\<exists>s. e = DriverError s) \<and>
      (\<exists>hit. mem_state w' = (mem_state w)\<lparr>b_docs := map (\<lambda>(d, b). if b \<and> matches f d
          then dict_set d (fst kv) (snd kv) else d) (zip (b_docs (mem_state w)) hit)\<rparr> \<and>
        length hit = length (b_docs (mem_state w)))"
  proof cases
    case 1
    then show ?thesis
      by (intro conjI exI [of _ "replicate (length (b_docs (mem_state w))) False"])
        (auto simp: zip_replicate2 comp_def)
  next
    case 2
    then show ?thesis
      by (intro conjI exI [of _ "replicate (length (b_docs (mem_state w))) True"])
        (auto simp: zip_replicate2 comp_def)
  qed
next
  fix ix w w' u
  assume "create_index mem_mongo ix w = (Inr u, w')"
  then have *: "mem_state w' = (mem_state w)\<lparr>b_indexes := (if ix \<in> set (b_indexes (mem_state w))
      then b_indexes (mem_state w) else b_indexes (mem_state w) @ [ix])\<rparr>"
    "\<And>i x. i < length (b_docs (mem_state w)) \<Longrightarrow> x \<in> set (take i (b_docs (mem_state w))) \<Longrightarrow>
       \<not> index_conflict ix (b_docs (mem_state w) ! i) x"
    by (auto simp: mem_mongo_def Let_def split: if_splits)
  have "\<not> index_conflict ix d x" if "b_docs (mem_state w) = ds @ d # es" "x \<in> set ds" for ds d es x
    using *(2) [of "length ds" x] that by simp
  with *(1) show "mem_state w' = (mem_state w)\<lparr>b_indexes := (if ix \<in> set (b_indexes (mem_state w))
        then b_indexes (mem_state w) else b_indexes (mem_state w) @ [ix])\<rparr> \<and>
      (\<forall>ds d es. b_docs (mem_state w) = ds @ d # es \<longrightarrow> (\<forall>x \<in> set ds. \<not> index_conflict ix d x))"
    by blast
next
  fix ix w w' e
  assume "create_index mem_mongo ix w = (Inl e, w')"
  then show "mem_state w' = mem_state w \<and> (\<exists>s. e = DriverError s)"
    by (auto simp: mem_mongo_def Let_def split: if_splits)
qed

interpretation mem_redis: redis_laws mem_redis mem_state
  by unfold_locales (auto simp: mem_redis_def dest!: mem_op_Inr mem_op_Inl)

interpretation mem_kafka: producer_laws mem_kafka mem_state
  by unfold_locales (auto simp: mem_kafka_def dest!: mem_op_Inr mem_op_Inl)

interpretation mem_tenacity: tenacity_laws retry_attempts
  by unfold_locales simp

interpretation mem_env: env_laws mem_env mem_state
  by unfold_locales (simp_all add: mem_env_def)

lemma mem_op_up:
  "mem_faults w = [] \<Longrightarrow> mem_op f w =
     (fst (f (mem_state w)), w\<lparr>mem_state := snd (f (mem_state w)), mem_faults := []\<rparr>)"
  by (simp add: mem_op_def Let_def)

lemma str_size_le_id_size:
  assumes "d \<in> set ds" and "k \<in> {''_id'', ''event_id'', ''aggregate_id''}"
  shows "str_size (map_of d k) \<le> id_size ds"
  using assms by (induction ds) (auto simp: id_size_def)

lemma mem_uuid4_fresh:
  assumes "d \<in> set (b_docs (mem_state w))" and "k \<in> {''_id'', ''event_id'', ''aggregate_id''}"
  shows "map_of d k \<noteq> Some (PStr (fst (uuid4 mem_env w)))"
proof
  assume "map_of d k = Some (PStr (fst (uuid4 mem_env w)))"
  then have "id_size (b_docs (mem_state w)) < str_size (map_of d k)"
    by (simp add: str_size_def mem_env_def)
  then show False
    using str_size_le_id_size [OF assms] by simp
qed

end
