(* ===== verification/Event_Store.thy ===== *)
theory Event_Store
  imports Aggregate Memory_Backend
begin

text \<open>
  The MongoDB event store (\<open>api/services/event_store.py\<close>), every method over the client record
  \<open>M\<close>.  Under the laws of the client: \<open>setup_indexes\<close> makes \<open>(aggregate_id,
  aggregate_version)\<close> and \<open>event_id\<close> keys of the collection, \<open>append_es\<close> (the source's
  \<open>append\<close>) keeps them keys and reports a taken version as a conflict, and reads return the
  documents of an order in version order.
\<close>

section \<open>Operations\<close>

definition idx_aggregate_version :: mongo_index where
  "idx_aggregate_version =
     \<lparr>ix_name = ''idx_aggregate_version'', ix_keys = [''aggregate_id'', ''aggregate_version''],
      ix_unique = True, ix_expire_after = None\<rparr>"

definition idx_aggregate_time :: mongo_index where
  "idx_aggregate_time =
     \<lparr>ix_name = ''idx_aggregate_time'', ix_keys = [''aggregate_id'', ''occurred_at''],
      ix_unique = False, ix_expire_after = None\<rparr>"

definition idx_event_type :: mongo_index where
  "idx_event_type =
     \<lparr>ix_name = ''idx_event_type'', ix_keys = [''event_type''],
      ix_unique = False, ix_expire_after = None\<rparr>"

definition idx_event_id :: mongo_index where
  "idx_event_id =
     \<lparr>ix_name = ''idx_event_id'', ix_keys = [''event_id''],
      ix_unique = True, ix_expire_after = None\<rparr>"

definition idx_event_expiry :: mongo_index where
  "idx_event_expiry =
     \<lparr>ix_name = ''idx_event_expiry'', ix_keys = [''expires_at''],
      ix_unique = False, ix_expire_after = Some 0\<rparr>"

definition setup_indexes :: "'w mongo_collection \<Rightarrow> ('w, unit) io" where
  "setup_indexes M =
     bindM (create_index M idx_aggregate_version) (\<lambda>_.
     bindM (create_index M idx_aggregate_time) (\<lambda>_.
     bindM (create_index M idx_event_type) (\<lambda>_.
     bindM (create_index M idx_event_id) (\<lambda>_.
     create_index M idx_event_expiry))))"

definition append_es :: "'w mongo_collection \<Rightarrow> pydict \<Rightarrow> ('w, unit) io" where
  "append_es M event =
     tryM
       (bindM (liftM (dict_item event ''event_id'')) (\<lambda>i.
        insert_one M (dict_set event ''_id'' i)))
       (\<lambda>e. if str_in ''duplicate key'' (str_lower (exn_text e)) \<or> str_in ''E11000'' (exn_text e)
            then bindM (liftM (dict_item event ''aggregate_id'')) (\<lambda>a.
                 bindM (liftM (dict_item event ''aggregate_version'')) (\<lambda>v.
                 raiseM (ValueError [Lit ''Version conflict: order '', Fmt a,
                                     Lit '' already at version '', Fmt v])))
            else raiseM e)"

definition get_events :: "'w mongo_collection \<Rightarrow> string \<Rightarrow> ('w, pydict list) io" where
  "get_events M aggregate_id =
     find_sorted M (''aggregate_id'', PStr aggregate_id) ''aggregate_version'' True None"

definition get_latest_version :: "'w mongo_collection \<Rightarrow> string \<Rightarrow> ('w, int) io" where
  "get_latest_version M aggregate_id =
     bindM (find_one_sorted M (''aggregate_id'', PStr aggregate_id) ''aggregate_version''
              ''aggregate_version'' False) (\<lambda>doc.
     case doc of
       Some d \<Rightarrow> if truthy (PDict d) then liftM (version_item d) else returnM 0
     | None \<Rightarrow> returnM 0)"

definition get_events_by_type ::
    "'w mongo_collection \<Rightarrow> string \<Rightarrow> nat \<Rightarrow> ('w, pydict list) io" where
  "get_events_by_type M event_type limit =
     find_sorted M (''event_type'', PStr event_type) ''occurred_at'' False
       (if limit = 0 then None else Some limit)"

definition set_expiry_for_aggregate ::
    "'w mongo_collection \<Rightarrow> 'w pyenv \<Rightarrow> pyval \<Rightarrow> int \<Rightarrow> ('w, unit) io" where
  "set_expiry_for_aggregate M E aggregate_id retention_seconds =
     bindM (effM (utcnow E)) (\<lambda>now.
     update_many_set M (''aggregate_id'', aggregate_id)
       (''expires_at'', PTime (now + of_int retention_seconds)))"

section \<open>Stored documents\<close>

definition stored :: "base_event \<Rightarrow> pydict" where
  "stored ev = dict_set (model_dump ev) ''_id'' (PStr (ev_event_id ev))"

definition agg_docs :: "backend \<Rightarrow> string \<Rightarrow> pydict list" where
  "agg_docs b a = filter (matches (''aggregate_id'', PStr a)) (b_docs b)"

text \<open>The keys of the collection.\<close>

definition version_key :: "pydict \<Rightarrow> pyval option \<times> pyval option" where
  "version_key d = (map_of d ''aggregate_id'', map_of d ''aggregate_version'')"

definition store_keys :: "backend \<Rightarrow> bool" where
  "store_keys b \<longleftrightarrow> {idx_aggregate_version, idx_event_id} \<subseteq> set (b_indexes b) \<and>
     distinct (map version_key (b_docs b)) \<and>
     distinct (map (\<lambda>d. map_of d ''event_id'') (b_docs b))"

lemma map_of_strip_id [dict_simps]:
  "map_of (strip_id d) k = (if k = ''_id'' then None else map_of d k)"
  by (induction d) (auto simp: strip_id_def)

lemma strip_id_dict_set [dict_simps]: "strip_id (dict_set d ''_id'' v) = strip_id d"
  by (induction d) (auto simp: strip_id_def dict_set_def)

lemma strip_id_stored [simp]: "strip_id (stored ev) = model_dump ev"
  by (simp add: stored_def dict_simps) (simp add: strip_id_def model_dump_def)

lemma decode_strip_id [simp]: "decode (strip_id d) = decode d"
  by (rule decode_cong) (auto simp: dict_simps)

lemma doc_version_strip_id [simp]: "doc_version (strip_id d) = doc_version d"
  by (simp add: doc_version_def dict_simps)

lemma map_of_stored [dict_simps]:
  "map_of (stored ev) k = (if k = ''_id'' then Some (PStr (ev_event_id ev)) else map_of (model_dump ev) k)"
  by (simp add: stored_def dict_simps)

lemma decode_stored [simp]: "decode (stored ev) = decode (model_dump ev)"
  by (metis decode_strip_id strip_id_stored)

lemma doc_version_stored [simp]: "doc_version (stored ev) = ev_aggregate_version ev"
  by (simp add: doc_version_def dict_simps)

lemma version_key_stored [simp]:
  "version_key (stored ev) = (Some (PStr (ev_aggregate_id ev)), Some (PInt (ev_aggregate_version ev)))"
  by (simp add: version_key_def dict_simps)

lemma agg_docs_snoc:
  "agg_docs (b\<lparr>b_docs := b_docs b @ [stored ev]\<rparr>) a =
     agg_docs b a @ (if ev_aggregate_id ev = a then [stored ev] else [])"
  by (simp add: agg_docs_def matches_def dict_simps)

lemma dup_key_version:
  assumes "idx_aggregate_version \<in> set ixs" and "version_key d \<in> set (map version_key ds)"
  shows "dup_key ixs ds d"
proof -
  obtain x where "x \<in> set ds" "version_key x = version_key d"
    using assms(2) by auto
  then have "index_conflict idx_aggregate_version d x"
    by (auto simp: index_conflict_def idx_aggregate_version_def version_key_def)
  with assms(1) \<open>x \<in> set ds\<close> show ?thesis
    by (auto simp: dup_key_def)
qed

lemma dup_key_event_id:
  assumes "idx_event_id \<in> set ixs" and "map_of d ''event_id'' \<in> set (map (\<lambda>d. map_of d ''event_id'') ds)"
  shows "dup_key ixs ds d"
proof -
  obtain x where "x \<in> set ds" "map_of x ''event_id'' = map_of d ''event_id''"
    using assms(2) by auto
  then have "index_conflict idx_event_id d x"
    by (auto simp: index_conflict_def idx_event_id_def)
  with assms(1) \<open>x \<in> set ds\<close> show ?thesis
    by (auto simp: dup_key_def)
qed

lemma store_keys_snoc:
  assumes "store_keys b" and "\<not> dup_key (b_indexes b) (b_docs b) d"
  shows "store_keys (b\<lparr>b_docs := b_docs b @ [d]\<rparr>)"
proof -
  have "version_key d \<notin> set (map version_key (b_docs b))"
    using assms dup_key_version unfolding store_keys_def by blast
  moreover have "map_of d ''event_id'' \<notin> set (map (\<lambda>d. map_of d ''event_id'') (b_docs b))"
    using assms dup_key_event_id unfolding store_keys_def by blast
  ultimately show ?thesis
    using assms(1) by (simp add: store_keys_def)
qed

section \<open>Histories in the store\<close>

definition order_history :: "backend \<Rightarrow> string \<Rightarrow> (int \<times> order_event) list" where
  "order_history b a = history (agg_docs b a)"

abbreviation order_state_of :: "backend \<Rightarrow> string \<Rightarrow> order_state" where
  "order_state_of b a \<equiv> order_run order_init (order_history b a)"

text \<open>
  The invariant of the event store: the keys are keys, every document denotes an event of a
  named order, and the events of every order form a valid history.
\<close>

definition store_ok :: "backend \<Rightarrow> bool" where
  "store_ok b \<longleftrightarrow> store_keys b \<and> (\<forall>d \<in> set (b_docs b). wf_doc d) \<and>
     (\<forall>a. valid_history (order_history b a))"

lemma store_ok_cong:
  "b_docs b = b_docs c \<Longrightarrow> b_indexes b = b_indexes c \<Longrightarrow> store_ok b = store_ok c"
  by (simp add: store_ok_def store_keys_def order_history_def agg_docs_def)

lemma agg_docs_decode:
  assumes "\<forall>d \<in> set (b_docs b). wf_doc d" and "d \<in> set (agg_docs b a)"
  shows "decode d \<noteq> None"
  using assms by (auto simp: agg_docs_def wf_doc_def)

lemma agg_docs_distinct:
  assumes "store_keys b" and "\<forall>d \<in> set (b_docs b). wf_doc d"
  shows "distinct (map doc_version (agg_docs b a))"
proof -
  have "inj_on version_key (set (b_docs b))" "distinct (b_docs b)"
    using assms(1) by (simp_all add: store_keys_def distinct_map)
  moreover have "version_key d = (Some (PStr a), Some (PInt (doc_version d)))"
    if "d \<in> set (agg_docs b a)" for d
    using that agg_docs_decode [OF assms(2) that]
    by (auto simp: agg_docs_def matches_def version_key_def doc_version_def decode_Some)
  ultimately show ?thesis
    by (auto simp: distinct_map agg_docs_def inj_on_def)
qed

lemma order_history_cong: "b_docs b = b_docs c \<Longrightarrow> order_history b a = order_history c a"
  by (simp add: order_history_def agg_docs_def)

lemma length_order_history: "length (order_history b a) = length (agg_docs b a)"
  by (simp add: order_history_def history_def)

text \<open>Version numbers of an order run from 1 to the number of its documents.\<close>

lemma agg_docs_versions:
  assumes "store_ok b"
  shows "set (map doc_version (agg_docs b a)) = {1 .. int (length (agg_docs b a))}"
proof -
  have "map fst (order_history b a) = [1 .. int (length (agg_docs b a))]"
    using valid_from_versions [of order_init "order_history b a"] assms
    by (simp add: store_ok_def length_order_history order_init_def)
  moreover have "map fst (order_history b a) = map doc_version (sort_key doc_version (agg_docs b a))"
    using assms by (auto simp: order_history_def history_def store_ok_def agg_docs_def wf_doc_def
        intro!: decode_doc_version)
  ultimately show ?thesis
    by (metis set_map set_sort set_upto)
qed

lemma history_version:
  assumes "store_ok b"
  shows "os_version (order_state_of b a) = int (length (agg_docs b a))"
  using valid_from_run_version [of order_init "order_history b a"] assms
  by (simp add: store_ok_def length_order_history order_init_def)

lemma order_history_snoc:
  assumes "store_ok b" and "decode (model_dump ev) = Some (v, e)"
    and "v = os_version (order_state_of b (ev_aggregate_id ev)) + 1"
  shows "order_history (b\<lparr>b_docs := b_docs b @ [stored ev]\<rparr>) =
    (order_history b)(ev_aggregate_id ev := order_history b (ev_aggregate_id ev) @ [(v, e)])"
proof
  fix a
  have v: "ev_aggregate_version ev = v"
    using assms(2) by (auto simp: decode_model_dump)
  have "doc_version x \<le> v" if "x \<in> set (agg_docs b (ev_aggregate_id ev))" for x
  proof -
    have "doc_version x \<in> set (map doc_version (agg_docs b (ev_aggregate_id ev)))"
      using that by simp
    then show ?thesis
      using assms(3) unfolding agg_docs_versions [OF assms(1)] history_version [OF assms(1)] by simp
  qed
  then have "history (agg_docs b (ev_aggregate_id ev) @ [stored ev]) =
      history (agg_docs b (ev_aggregate_id ev)) @ [(v, e)]"
    using history_snoc [of "agg_docs b (ev_aggregate_id ev)" "stored ev"] assms(2) v by simp
  then show "order_history (b\<lparr>b_docs := b_docs b @ [stored ev]\<rparr>) a =
    ((order_history b)(ev_aggregate_id ev := order_history b (ev_aggregate_id ev) @ [(v, e)])) a"
    by (simp add: order_history_def agg_docs_snoc)
qed

lemma store_ok_snoc:
  assumes "store_ok b" and "decode (model_dump ev) = Some (v, e)"
    and "v = os_version (order_state_of b (ev_aggregate_id ev)) + 1"
    and "admits (order_state_of b (ev_aggregate_id ev)) e"
    and "\<not> dup_key (b_indexes b) (b_docs b) (stored ev)"
  shows "store_ok (b\<lparr>b_docs := b_docs b @ [stored ev]\<rparr>)"
proof -
  have "wf_doc (stored ev)"
    using assms(2) by (simp add: wf_doc_def decode_str_def dict_simps)
  moreover have "valid_history (order_history (b\<lparr>b_docs := b_docs b @ [stored ev]\<rparr>) a)" for a
    using assms by (auto simp: order_history_snoc store_ok_def valid_from_snoc)
  ultimately show ?thesis
    using assms(1,5) by (auto simp: store_ok_def intro: store_keys_snoc)
qed

lemma decoded_version:
  assumes "decode d \<noteq> None"
  shows "map_of d ''aggregate_version'' = Some (PInt (doc_version d))"
    and "num_key ''aggregate_version'' d = Some (of_int (doc_version d))"
  using assms by (auto simp: doc_version_def num_key_def decode_Some)

lemma key_sorted_versions:
  assumes "\<forall>d \<in> set ds. decode d \<noteq> None" and "key_sorted ''aggregate_version'' asc ds"
  shows "sorted (map doc_version (if asc then ds else rev ds))"
proof -
  let ?ds = "if asc then ds else rev ds"
  have "map (\<lambda>d. the (num_key ''aggregate_version'' d)) ?ds = map (\<lambda>d. rat_of_int (doc_version d)) ?ds"
    using assms(1) by (intro map_cong) (auto simp: decoded_version split: if_splits)
  moreover have "\<forall>d \<in> set ds. num_key ''aggregate_version'' d \<noteq> None"
    using assms(1) by (simp add: decoded_version)
  ultimately have "sorted (map (\<lambda>d. rat_of_int (doc_version d)) ?ds)"
    using assms(2) unfolding key_sorted_def by metis
  then show ?thesis by (simp only: sorted_map_of_int)
qed

text \<open>The first document of a descending sort has the number of the order's documents as version.\<close>

lemma latest_version_is_length:
  assumes "store_ok b" and "mset (d # ds) = mset (agg_docs b a)"
    and "key_sorted ''aggregate_version'' False (d # ds)"
  shows "decode d \<noteq> None" and "doc_version d = int (length (agg_docs b a))"
proof -
  have set: "set (d # ds) = set (agg_docs b a)" and len: "length (agg_docs b a) \<noteq> 0"
    using assms(2) by (metis mset_eq_setD, metis length_0_conv list.distinct(1) mset_zero_iff)
  then have dec: "\<forall>x \<in> set (d # ds). decode x \<noteq> None"
    using assms(1) agg_docs_decode by (metis store_ok_def)
  then show "decode d \<noteq> None" by simp
  have "sorted (map doc_version (rev (d # ds)))"
    using key_sorted_versions [OF dec assms(3)] by simp
  then have max: "\<forall>x \<in> set (d # ds). doc_version x \<le> doc_version d"
    by (auto simp: sorted_append)
  have vs: "set (map doc_version (d # ds)) = {1 .. int (length (agg_docs b a))}"
    using agg_docs_versions [OF assms(1), of a] set by (metis set_map)
  moreover have "int (length (agg_docs b a)) \<in> {1 .. int (length (agg_docs b a))}"
    using len by (simp add: Suc_le_eq)
  ultimately have "int (length (agg_docs b a)) \<in> set (map doc_version (d # ds))"
    by simp
  then have "int (length (agg_docs b a)) \<le> doc_version d"
    using max by auto
  moreover have "doc_version d \<in> {1 .. int (length (agg_docs b a))}"
    using vs by auto
  ultimately show "doc_version d = int (length (agg_docs b a))"
    by simp
qed

lemma map_of_filter_key:
  "map_of (filter (\<lambda>kv. fst kv \<in> ks) d) k = (if k \<in> ks then map_of d k else None)"
  by (induction d) auto

section \<open>What the operations promise\<close>

context mongo_laws
begin

lemma append_cases [consumes 1, case_names appended conflict failed]:
  assumes "append_es M (model_dump ev) w = (r, w')"
  obtains (appended) "r = Inr ()" "\<not> dup_key (b_indexes (V w)) (b_docs (V w)) (stored ev)"
      "V w' = (V w)\<lparr>b_docs := b_docs (V w) @ [stored ev]\<rparr>"
    | (conflict) "r = Inl (ValueError [Lit ''Version conflict: order '',
        Fmt (PStr (ev_aggregate_id ev)), Lit '' already at version '',
        Fmt (PInt (ev_aggregate_version ev))])"
      "dup_key (b_indexes (V w)) (b_docs (V w)) (stored ev)" "V w' = V w"
    | (failed) s where "r = Inl (DriverError s)" "\<not> dup_text s"
      "V w' = V w \<or> \<not> dup_key (b_indexes (V w)) (b_docs (V w)) (stored ev) \<and>
         V w' = (V w)\<lparr>b_docs := b_docs (V w) @ [stored ev]\<rparr>"
proof -
  have i: "bindM (liftM (dict_item (model_dump ev) ''event_id''))
      (\<lambda>i. insert_one M (dict_set (model_dump ev) ''_id'' i)) w = insert_one M (stored ev) w"
    by (simp add: dict_simps io_simps stored_def)
  from assms show ?thesis
    unfolding append_es_def
  proof (cases rule: tryM_cases)
    case (returned x)
    then show ?thesis
      using appended insert_ok [of "stored ev" w x w'] i by (cases x) auto
  next
    case (handled e w1)
    then obtain s where s: "e = DriverError s"
      "if dup_text s then dup_key (b_indexes (V w)) (b_docs (V w)) (stored ev) \<and> V w1 = V w
       else V w1 = V w \<or> \<not> dup_key (b_indexes (V w)) (b_docs (V w)) (stored ev) \<and>
         V w1 = (V w)\<lparr>b_docs := b_docs (V w) @ [stored ev]\<rparr>"
      using insert_err [of "stored ev" w e w1] i by auto
    show ?thesis
    proof (cases "dup_text s")
      case True
      then show ?thesis
        using handled(2) s conflict by (simp add: dup_text_def dict_simps io_simps)
    next
      case False
      then show ?thesis
        using handled(2) s failed [of s] by (simp add: dup_text_def io_simps)
    qed
  qed
qed

lemma append_keys:
  assumes "append_es M (model_dump ev) w = (r, w')" and "store_keys (V w)"
  shows "store_keys (V w')"
  using assms by (cases rule: append_cases) (auto intro: store_keys_snoc)

lemma get_events_ok:
  assumes "get_events M a w = (Inr ds, w')"
    and "\<And>d. d \<in> set (agg_docs (V w) a) \<Longrightarrow> decode d \<noteq> None"
    and "distinct (map doc_version (agg_docs (V w) a))"
  shows "V w' = V w \<and> ds = map strip_id (sort_key doc_version (agg_docs (V w) a))"
proof -
  obtain full where full: "V w' = V w" "mset full = mset (agg_docs (V w) a)"
    "key_sorted ''aggregate_version'' True full" "ds = map strip_id full"
    using find_ok [OF assms(1) [unfolded get_events_def]] by (auto simp: agg_docs_def)
  have "\<forall>d \<in> set full. decode d \<noteq> None"
    using assms(2) full(2) by (metis mset_eq_setD)
  then have "sorted (map doc_version full)"
    using key_sorted_versions [OF _ full(3)] by simp
  then have "full = sort_key doc_version (agg_docs (V w) a)"
    using full(2) assms(3)
    by (intro sorted_by_key_unique [where f = doc_version, symmetric])
      (simp_all add: distinct_map_sort_key)
  with full show ?thesis by simp
qed

lemma get_events_history:
  assumes "get_events M a w = (Inr ds, w')" and "store_ok (V w)"
  shows "V w' = V w" "ds = map strip_id (sort_key doc_version (agg_docs (V w) a))"
  using get_events_ok [OF assms(1)] agg_docs_decode agg_docs_distinct assms(2)
  by (auto simp: store_ok_def)

lemma get_latest_view:
  assumes "get_latest_version M a w = (r, w')"
  shows "V w' = V w"
  using assms unfolding get_latest_version_def
  by (cases rule: bindM_cases)
    (auto simp: io_simps split: option.splits if_splits dest!: find_one_ok find_one_err)

lemma get_latest_ok:
  assumes "get_latest_version M a w = (Inr v, w')" and "store_ok (V w)"
  shows "V w' = V w \<and> v = int (length (agg_docs (V w) a))"
proof -
  let ?A = "agg_docs (V w) a" and ?p = "''aggregate_version''"
  obtain doc w1 where find: "find_one_sorted M (''aggregate_id'', PStr a) ?p ?p False w = (Inr doc, w1)"
    and rest: "(case doc of Some d \<Rightarrow> if truthy (PDict d) then liftM (version_item d) else returnM 0
       | None \<Rightarrow> returnM 0) w1 = (Inr v, w')"
    using assms(1) unfolding get_latest_version_def by (cases rule: bindM_cases) auto
  obtain full where full: "V w1 = V w" "mset full = mset ?A" "key_sorted ?p False full"
    "doc = (case full of [] \<Rightarrow> None | d # _ \<Rightarrow> Some (filter (\<lambda>kv. fst kv \<in> {''_id'', ?p}) d))"
    using find_one_ok [OF find] by (auto simp: agg_docs_def)
  show ?thesis
  proof (cases full)
    case Nil
    then show ?thesis using full rest by (simp add: io_simps)
  next
    case (Cons d ds)
    note latest = latest_version_is_length [OF assms(2), of d ds a]
    have m: "map_of (filter (\<lambda>kv. fst kv \<in> {''_id'', ?p}) d) ?p = Some (PInt (doc_version d))"
      using latest(1) full Cons by (simp only: map_of_filter_key) (simp add: decoded_version)
    then have "filter (\<lambda>kv. fst kv \<in> {''_id'', ?p}) d \<noteq> []"
      by (metis map_of.simps(1) option.distinct(1))
    then have "v = doc_version d" "V w' = V w1"
      using rest full(4) Cons m by (auto simp: io_simps version_item_def dict_simps split: if_splits)
    then show ?thesis
      using latest(2) full Cons by simp
  qed
qed

end

section \<open>Indexes and expiry\<close>

lemma index_distinct:
  assumes "\<forall>ds d es. docs = ds @ d # es \<longrightarrow> (\<forall>x \<in> set ds. \<not> index_conflict ix d x)"
    and "\<And>d x. f x = f d \<Longrightarrow> index_conflict ix d x"
  shows "distinct (map f docs)"
  using assms(1)
proof (induction docs rule: rev_induct)
  case Nil
  then show ?case by simp
next
  case (snoc y ys)
  have "\<forall>x \<in> set ys. \<not> index_conflict ix y x"
    using snoc.prems by blast
  then have "f y \<notin> set (map f ys)"
    using assms(2) by auto
  moreover have "\<forall>ds d es. ys = ds @ d # es \<longrightarrow> (\<forall>x \<in> set ds. \<not> index_conflict ix d x)"
    using snoc.prems by (metis append.assoc append_Cons)
  ultimately show ?case
    using snoc.IH by auto
qed

lemma index_conflict_version: "version_key x = version_key d \<Longrightarrow> index_conflict idx_aggregate_version d x"
  by (simp add: index_conflict_def idx_aggregate_version_def version_key_def)

lemma index_conflict_event_id:
  "map_of x ''event_id'' = map_of d ''event_id'' \<Longrightarrow> index_conflict idx_event_id d x"
  by (simp add: index_conflict_def idx_event_id_def)

definition with_index :: "mongo_index \<Rightarrow> backend \<Rightarrow> backend" where
  "with_index ix b = b\<lparr>b_indexes := (if ix \<in> set (b_indexes b) then b_indexes b else b_indexes b @ [ix])\<rparr>"

lemma with_index_simps [simp]:
  "b_docs (with_index ix b) = b_docs b" "set (b_indexes (with_index ix b)) = insert ix (set (b_indexes b))"
  by (auto simp: with_index_def)

lemma with_index_present: "ix \<in> set (b_indexes b) \<Longrightarrow> with_index ix b = b"
  by (simp add: with_index_def)

context mongo_laws
begin

lemma setup_indexes_view:
  assumes "setup_indexes M w = (Inr u, w')"
  shows "V w' = with_index idx_event_expiry (with_index idx_event_id (with_index idx_event_type
      (with_index idx_aggregate_time (with_index idx_aggregate_version (V w)))))"
    and "store_keys (V w')"
proof -
  obtain w1 w2 w3 w4 where
    1: "create_index M idx_aggregate_version w = (Inr (), w1)" and
    2: "create_index M idx_aggregate_time w1 = (Inr (), w2)" and
    3: "create_index M idx_event_type w2 = (Inr (), w3)" and
    4: "create_index M idx_event_id w3 = (Inr (), w4)" and
    5: "create_index M idx_event_expiry w4 = (Inr (), w')"
    using assms by (auto simp: setup_indexes_def elim!: bindM_cases)
  note ix = index_ok [OF 1] index_ok [OF 2] index_ok [OF 3] index_ok [OF 4] index_ok [OF 5]
  show v: "V w' = with_index idx_event_expiry (with_index idx_event_id (with_index idx_event_type
      (with_index idx_aggregate_time (with_index idx_aggregate_version (V w)))))"
    using ix by (simp add: with_index_def)
  have d: "b_docs (V w3) = b_docs (V w)"
    using ix by simp
  have "distinct (map version_key (b_docs (V w)))"
    using ix(1) index_distinct [of "b_docs (V w)" idx_aggregate_version version_key]
      index_conflict_version by blast
  moreover have "distinct (map (\<lambda>d. map_of d ''event_id'') (b_docs (V w)))"
    using ix(4) index_distinct [of "b_docs (V w)" idx_event_id "\<lambda>d. map_of d ''event_id''"]
      index_conflict_event_id d by metis
  ultimately show "store_keys (V w')"
    unfolding v by (simp add: store_keys_def)
qed

end

lemma expiry_invisible [simp]:
  "decode (dict_set d ''expires_at'' v) = decode d"
  "doc_version (dict_set d ''expires_at'' v) = doc_version d"
  "matches (''aggregate_id'', a) (dict_set d ''expires_at'' v) = matches (''aggregate_id'', a) d"
  by (auto simp: doc_version_def matches_def dict_simps intro!: decode_cong)

lemma order_history_expiry:
  "order_history (b\<lparr>b_docs := map (\<lambda>d. if matches (''aggregate_id'', PStr a) d
      then dict_set d ''expires_at'' v else d) (b_docs b)\<rparr>) = order_history b" (is "_ (_\<lparr>b_docs := map ?f _\<rparr>) = _")
proof
  fix x
  have inv: "decode (?f d) = decode d" "doc_version (?f d) = doc_version d"
    "matches (''aggregate_id'', PStr x) (?f d) = matches (''aggregate_id'', PStr x) d" for d
    by simp_all
  have docs: "b_docs (b\<lparr>b_docs := xs\<rparr>) = xs" for xs
    by simp
  show "order_history (b\<lparr>b_docs := map ?f (b_docs b)\<rparr>) x = order_history b x"
    by (simp only: order_history_def history_def agg_docs_def docs filter_map
        sort_key_map map_map comp_def inv)
qed

section \<open>Properties\<close>

text \<open>A collection with its indexes, in memory, for evaluation.\<close>

definition mem_ready :: mem where
  "mem_ready = snd (setup_indexes mem_mongo mem_init)"

lemma mem_ready_eq:
  "mem_ready = mem_init\<lparr>mem_state := (mem_state mem_init)\<lparr>b_indexes :=
     [idx_aggregate_version, idx_aggregate_time, idx_event_type, idx_event_id, idx_event_expiry]\<rparr>\<rparr>"
  by (simp add: mem_ready_def setup_indexes_def mem_mongo_def mem_init_def bindM_def Let_def
      idx_aggregate_version_def idx_aggregate_time_def idx_event_type_def idx_event_id_def
      idx_event_expiry_def)

lemma setup_indexes_mem: "setup_indexes mem_mongo mem_init = (Inr (), mem_ready)"
  by (simp add: mem_ready_def setup_indexes_def mem_mongo_def mem_init_def bindM_def Let_def
      idx_aggregate_version_def idx_aggregate_time_def idx_event_type_def idx_event_id_def
      idx_event_expiry_def)

lemma mem_ready_state [simp]:
  "b_docs (mem_state mem_ready) = []" "b_kv (mem_state mem_ready) = Map.empty"
  "b_topic (mem_state mem_ready) = []" "mem_faults mem_ready = []" "mem_seed mem_ready = 0"
  by (simp_all add: mem_ready_eq mem_init_def)

lemma mem_ready_ok: "store_ok (mem_state mem_ready)"
  by (simp add: store_ok_def store_keys_def mem_ready_eq order_history_def agg_docs_def history_def
      mem_init_def)

text \<open>The store after the first event of a sample order.\<close>

definition sample_first :: base_event where
  "sample_first = sample_event ORDER_CREATED 1
     [(''customer_id'', PStr ''cust''), (''customer_email'', PStr ''a@b''), (''items'', PList []), (''total_amount'', PFloat (Fin 0))]"

definition mem_one :: mem where
  "mem_one = mem_ready\<lparr>mem_state := (mem_state mem_ready)\<lparr>b_docs := [stored sample_first]\<rparr>\<rparr>"

lemma append_mem:
  assumes "mem_faults w = []" and "\<not> dup_key (b_indexes (mem_state w)) (b_docs (mem_state w)) (stored ev)"
  shows "append_es mem_mongo (model_dump ev) w =
    (Inr (), w\<lparr>mem_state := (mem_state w)\<lparr>b_docs := b_docs (mem_state w) @ [stored ev]\<rparr>\<rparr>)"
  using assms by (simp add: append_es_def mem_mongo_def mem_op_def tryM_def bindM_def
      liftM_def dict_simps stored_def)

lemma append_mem_first: "append_es mem_mongo (model_dump sample_first) mem_ready = (Inr (), mem_one)"
  by (simp add: append_mem dup_key_def mem_one_def)

lemma sample_first_simps [simp]:
  "ev_aggregate_id sample_first = ''o1''" "ev_aggregate_version sample_first = 1"
  "ev_event_id sample_first = ''e''" "ev_event_type sample_first = ORDER_CREATED"
  "decode (model_dump sample_first) = Some (1, Created ''cust'' ''a@b'')"
  by (simp_all add: sample_first_def sample_event_def decode_model_dump decode_payload_def decode_str_def)

lemma mem_one_state [simp]:
  "b_docs (mem_state mem_one) = [stored sample_first]" "b_indexes (mem_state mem_one) = b_indexes (mem_state mem_ready)"
  "b_kv (mem_state mem_one) = Map.empty" "b_topic (mem_state mem_one) = []"
  "mem_faults mem_one = []" "mem_seed mem_one = 0"
  by (simp_all add: mem_one_def)

lemma mem_one_ok: "store_ok (mem_state mem_one)"
proof -
  have "order_state_of (mem_state mem_ready) ''o1'' = order_init"
    by (simp add: order_history_def agg_docs_def history_def)
  then have "store_ok ((mem_state mem_ready)\<lparr>b_docs := b_docs (mem_state mem_ready) @ [stored sample_first]\<rparr>)"
    using mem_ready_ok by (intro store_ok_snoc [where v = 1 and e = "Created ''cust'' ''a@b''"])
      (simp_all add: dup_key_def order_init_def)
  then show ?thesis by (simp add: mem_one_def)
qed

text \<open>
  Appending has exactly three outcomes: the event becomes the last document of the
  collection; or a key is taken, the store is unchanged and the caller gets the version
  conflict that names the order and the version; or the driver failed with another error, and
  then the event is either absent or the last document.
\<close>

theorem append_outcome:
  assumes "mongo_laws M V" and "append_es M (model_dump ev) w = (r, w')"
  shows "(r = Inr () \<and> \<not> dup_key (b_indexes (V w)) (b_docs (V w)) (stored ev) \<and>
      V w' = (V w)\<lparr>b_docs := b_docs (V w) @ [stored ev]\<rparr>) \<or>
    (r = Inl (ValueError [Lit ''Version conflict: order '', Fmt (PStr (ev_aggregate_id ev)),
        Lit '' already at version '', Fmt (PInt (ev_aggregate_version ev))]) \<and>
      dup_key (b_indexes (V w)) (b_docs (V w)) (stored ev) \<and> V w' = V w) \<or>
    (\<exists>s. r = Inl (DriverError s) \<and> \<not> dup_text s \<and>
      (V w' = V w \<or> \<not> dup_key (b_indexes (V w)) (b_docs (V w)) (stored ev) \<and>
         V w' = (V w)\<lparr>b_docs := b_docs (V w) @ [stored ev]\<rparr>))"
  using assms(2) by (cases rule: mongo_laws.append_cases [OF assms(1)]) auto

theorem append_outcome_witness:
  "mongo_laws mem_mongo mem_state \<and>
   append_es mem_mongo (model_dump sample_first) mem_ready = (Inr (), mem_one) \<and>
   mem_state mem_one = (mem_state mem_ready)\<lparr>b_docs := b_docs (mem_state mem_ready) @ [stored sample_first]\<rparr>"
  using append_outcome [OF mem_mongo.mongo_laws_axioms append_mem_first]
  by (simp add: append_mem_first mem_mongo.mongo_laws_axioms)

text \<open>
  Optimistic concurrency: once a version of an order is in the store, no later writer that
  built its event for the same version can store it.  The attempt raises, and whatever it
  raises, the store is unchanged.
\<close>

theorem second_writer_rejected:
  assumes "mongo_laws M V" and "store_keys (V w)"
    and "d \<in> set (b_docs (V w))"
    and "version_key d = (Some (PStr (ev_aggregate_id ev)), Some (PInt (ev_aggregate_version ev)))"
    and "append_es M (model_dump ev) w = (r, w')"
  shows "(\<exists>e. r = Inl e) \<and> V w' = V w"
proof -
  have "version_key (stored ev) \<in> set (map version_key (b_docs (V w)))"
    using assms(3,4) by (metis imageI set_map version_key_stored)
  then have "dup_key (b_indexes (V w)) (b_docs (V w)) (stored ev)"
    using assms(2) by (intro dup_key_version) (auto simp: store_keys_def)
  with assms(5) show ?thesis
    by (cases rule: mongo_laws.append_cases [OF assms(1)]) auto
qed

theorem second_writer_rejected_witness:
  "\<exists>e w'. append_es mem_mongo (model_dump (sample_event ORDER_CANCELLED 1 [])) mem_one = (Inl e, w') \<and>
     mem_state w' = mem_state mem_one"
proof -
  let ?ev = "sample_event ORDER_CANCELLED 1 []"
  obtain r w' where run: "append_es mem_mongo (model_dump ?ev) mem_one = (r, w')"
    by (cases "append_es mem_mongo (model_dump ?ev) mem_one") auto
  have "(\<exists>e. r = Inl e) \<and> mem_state w' = mem_state mem_one"
    using mem_one_ok
    by (intro second_writer_rejected [OF mem_mongo.mongo_laws_axioms _ _ _ run, of "stored sample_first"])
      (simp_all add: store_ok_def sample_event_def)
  with run show ?thesis by auto
qed

text \<open>
  Reading an order returns every one of its documents, without \<open>_id\<close>, in ascending version
  order, and changes nothing.
\<close>

theorem get_events_complete_sorted:
  assumes "mongo_laws M V" and "store_ok (V w)" and "get_events M a w = (Inr ds, w')"
  shows "V w' = V w \<and> mset ds = mset (map strip_id (agg_docs (V w) a)) \<and>
    map doc_version ds = [1 .. int (length (agg_docs (V w) a))]"
proof -
  have ds: "V w' = V w" "ds = map strip_id (sort_key doc_version (agg_docs (V w) a))"
    using mongo_laws.get_events_history [OF assms(1,3,2)] by auto
  have "map fst (order_history (V w) a) = [1 .. int (length (agg_docs (V w) a))]"
    using valid_from_versions [of order_init "order_history (V w) a"] assms(2)
    by (simp add: store_ok_def length_order_history order_init_def)
  moreover have "map fst (order_history (V w) a) = map doc_version ds"
    using assms(2) by (auto simp: ds order_history_def history_def store_ok_def agg_docs_def wf_doc_def
        intro!: decode_doc_version)
  ultimately show ?thesis
    using ds by simp
qed

theorem get_events_complete_sorted_witness:
  "\<exists>ds w'. get_events mem_mongo ''o1'' mem_one = (Inr ds, w') \<and>
     mset ds = mset (map strip_id (agg_docs (mem_state mem_one) ''o1'')) \<and> length ds = 1"
proof -
  obtain ds w' where run: "get_events mem_mongo ''o1'' mem_one = (Inr ds, w')"
    by (auto simp: get_events_def mem_mongo_def mem_op_def)
  show ?thesis
    using get_events_complete_sorted [OF mem_mongo.mongo_laws_axioms mem_one_ok run] run
    by (auto simp: agg_docs_def matches_def dict_simps dest: arg_cong [of _ _ size])
qed

text \<open>
  Append, then read: after storing the next event of an order, reading the order returns
  what it returned before, followed by the new event exactly as the handler dumped it.
\<close>

theorem append_then_get_events:
  assumes "mongo_laws M V" and "store_ok (V w)"
    and "get_events M (ev_aggregate_id ev) w = (Inr ds, w1)"
    and "decode (model_dump ev) = Some (v, e)" and "v = int (length ds) + 1"
    and "append_es M (model_dump ev) w1 = (Inr (), w2)"
    and "get_events M (ev_aggregate_id ev) w2 = (Inr ds', w3)"
    and "admits (order_state_of (V w) (ev_aggregate_id ev)) e"
  shows "ds' = ds @ [model_dump ev]"
proof -
  let ?a = "ev_aggregate_id ev" and ?b = "V w"
  have ds: "V w1 = ?b" "ds = map strip_id (sort_key doc_version (agg_docs ?b ?a))"
    using mongo_laws.get_events_history [OF assms(1,3,2)] by auto
  have app: "\<not> dup_key (b_indexes ?b) (b_docs ?b) (stored ev)"
    "V w2 = ?b\<lparr>b_docs := b_docs ?b @ [stored ev]\<rparr>"
    using assms(6) ds(1) by (auto elim: mongo_laws.append_cases [OF assms(1)])
  have v: "v = os_version (order_state_of ?b ?a) + 1"
    using assms(5) ds(2) history_version [OF assms(2)] by simp
  have "store_ok (V w2)"
    unfolding app(2) using store_ok_snoc [OF assms(2,4) v assms(8) app(1)] .
  then have ds': "ds' = map strip_id (sort_key doc_version (agg_docs (V w2) ?a))"
    using mongo_laws.get_events_history [OF assms(1,7)] by auto
  have "doc_version x \<le> doc_version (stored ev)" if "x \<in> set (agg_docs ?b ?a)" for x
  proof -
    have "doc_version x \<in> set (map doc_version (agg_docs ?b ?a))"
      using that by simp
    then show ?thesis
      using v assms(4) history_version [OF assms(2)] unfolding agg_docs_versions [OF assms(2)]
      by (auto simp: decode_model_dump)
  qed
  then show ?thesis
    using ds(2) ds' app(2) sort_key_snoc [of "agg_docs ?b ?a" doc_version "stored ev"]
    by (simp add: agg_docs_snoc)
qed

theorem append_then_get_events_witness:
  "\<exists>w. get_events mem_mongo ''o1'' mem_one = (Inr ([] @ [model_dump sample_first]), w)"
proof -
  have 1: "get_events mem_mongo (ev_aggregate_id sample_first) mem_ready = (Inr [], mem_ready)"
    by (simp add: get_events_def mem_mongo_def mem_op_def mem_sort_def Let_def)
  obtain ds w where 2: "get_events mem_mongo (ev_aggregate_id sample_first) mem_one = (Inr ds, w)"
    by (auto simp: get_events_def mem_mongo_def mem_op_def)
  have "ds = [] @ [model_dump sample_first]"
    by (rule append_then_get_events [OF mem_mongo.mongo_laws_axioms mem_ready_ok 1 _ _ append_mem_first 2,
          of 1 "Created ''cust'' ''a@b''"])
      (simp_all add: order_history_def agg_docs_def history_def)
  with 2 show ?thesis by auto
qed

text \<open>
  \<open>get_latest_version\<close> answers the highest version of the order, which is the number of its
  events, and 0 for an order without events.
\<close>

theorem latest_version_counts_events:
  assumes "mongo_laws M V" and "store_ok (V w)" and "get_latest_version M a w = (Inr v, w')"
  shows "V w' = V w \<and> v = int (length (order_history (V w) a)) \<and>
    v = os_version (order_state_of (V w) a)"
  using mongo_laws.get_latest_ok [OF assms(1,3,2)] history_version [OF assms(2)]
  by (simp add: length_order_history)

theorem latest_version_counts_events_witness:
  "\<exists>w'. get_latest_version mem_mongo ''o1'' mem_one = (Inr 1, w')"
proof -
  obtain v w' where run: "get_latest_version mem_mongo ''o1'' mem_one = (Inr v, w')"
    by (auto simp: get_latest_version_def mem_mongo_def mem_op_def mem_sort_def bindM_def matches_def
        dict_simps stored_def model_dump_def dict_set_def liftM_def version_item_def)
  have "v = int (length (order_history (mem_state mem_one) ''o1''))"
    using latest_version_counts_events [OF mem_mongo.mongo_laws_axioms mem_one_ok run] by blast
  then show ?thesis
    using run by (simp add: length_order_history agg_docs_def matches_def dict_simps)
qed

text \<open>
  \<open>setup_indexes\<close> establishes the keys the store relies on: when it returns, the order and
  version, and the event id, identify a document; the documents are untouched; and running it
  again changes nothing.
\<close>

theorem setup_indexes_establishes_keys:
  assumes "mongo_laws M V" and "setup_indexes M w = (Inr (), w')"
  shows "store_keys (V w') \<and> b_docs (V w') = b_docs (V w) \<and>
    (\<forall>w''. setup_indexes M w' = (Inr (), w'') \<longrightarrow> V w'' = V w')"
proof (intro conjI allI impI)
  note view = mongo_laws.setup_indexes_view [OF assms(1)]
  show "store_keys (V w')" by (rule view(2) [OF assms(2)])
  show "b_docs (V w') = b_docs (V w)" by (simp add: view(1) [OF assms(2)])
  fix w'' assume "setup_indexes M w' = (Inr (), w'')"
  from view(1) [OF this] show "V w'' = V w'"
    by (simp add: with_index_present view(1) [OF assms(2)])
qed

theorem setup_indexes_establishes_keys_witness:
  "setup_indexes mem_mongo mem_init = (Inr (), mem_ready) \<and> store_keys (mem_state mem_ready)"
  using setup_indexes_establishes_keys [OF mem_mongo.mongo_laws_axioms setup_indexes_mem]
    setup_indexes_mem by simp

text \<open>
  Scheduling the expiry of an order stamps every document of that order with the deadline
  and no other document, and no order's history changes by it.
\<close>

theorem set_expiry_stamps_order:
  assumes "mongo_laws M V" and "env_laws E V"
    and "set_expiry_for_aggregate M E (PStr a) secs w = (Inr (), w')"
  shows "(\<forall>d \<in> set (agg_docs (V w') a).
      map_of d ''expires_at'' = Some (PTime (fst (utcnow E w) + of_int secs))) \<and>
    filter (\<lambda>d. \<not> matches (''aggregate_id'', PStr a) d) (b_docs (V w')) =
      filter (\<lambda>d. \<not> matches (''aggregate_id'', PStr a) d) (b_docs (V w)) \<and>
    order_history (V w') = order_history (V w)"
proof -
  let ?v = "PTime (fst (utcnow E w) + of_int secs)" and ?m = "matches (''aggregate_id'', PStr a)"
  have "update_many_set M (''aggregate_id'', PStr a) (''expires_at'', ?v) (snd (utcnow E w)) = (Inr (), w')"
    using assms(3) by (simp add: set_expiry_for_aggregate_def io_simps bindM_def)
  then have v: "V w' = (V w)\<lparr>b_docs := map (\<lambda>d. if ?m d then dict_set d ''expires_at'' ?v else d) (b_docs (V w))\<rparr>"
    using mongo_laws.update_ok [OF assms(1)] env_laws.utcnow_view [OF assms(2)] by fastforce
  have "filter (\<lambda>d. \<not> ?m d) (map (\<lambda>d. if ?m d then dict_set d ''expires_at'' ?v else d) xs) =
      filter (\<lambda>d. \<not> ?m d) xs" for xs
    by (induction xs) auto
  then show ?thesis
    using order_history_expiry by (auto simp: v agg_docs_def dict_simps)
qed

theorem set_expiry_stamps_order_witness:
  "\<exists>w'. set_expiry_for_aggregate mem_mongo mem_env (PStr ''o1'') 2592000 mem_one = (Inr (), w') \<and>
     (\<forall>d \<in> set (agg_docs (mem_state w') ''o1''). map_of d ''expires_at'' = Some (PTime 2592000))"
proof -
  obtain w' where run: "set_expiry_for_aggregate mem_mongo mem_env (PStr ''o1'') 2592000 mem_one = (Inr (), w')"
    by (auto simp: set_expiry_for_aggregate_def mem_mongo_def mem_op_def bindM_def effM_def mem_env_def)
  show ?thesis
    using set_expiry_stamps_order [OF mem_mongo.mongo_laws_axioms mem_env.env_laws_axioms run] run
    by (auto simp: mem_env_def)
qed

end
