(* ===== verification/Read_Model.thy ===== *)
theory Read_Model
  imports Aggregate Memory_Backend
begin

text \<open>
  The PostgreSQL read model: the SQL statements of \<open>project_to_postgres\<close>
  (\<open>consumers/main.py\<close>) over the tables of \<open>infra/postgres_init.sql\<close>, with their NOT NULL,
  foreign key, unique and NUMERIC constraints.  A statement takes encoded arguments, where
  \<open>None\<close> is NULL, and returns the new tables or the error.  How asyncpg encodes a Python value
  is the record \<open>pg_codec\<close>; a connection's \<open>transaction\<close> is the record \<open>pg_pool\<close>.
\<close>

section \<open>Columns and constraints\<close>

record pg_codec =
  enc_text :: "pyval \<Rightarrow> exn + string option"
  enc_int4 :: "pyval \<Rightarrow> exn + int option"
  enc_numeric :: "pyval \<Rightarrow> exn + rat option"

definition not_null :: "'a option \<Rightarrow> exn + 'a" where
  "not_null x =
     (case x of None \<Rightarrow> Inl (DriverError ''null value violates not-null constraint'') | Some y \<Rightarrow> Inr y)"

text \<open>Rounding to a scale, ties away from zero, as an assignment to NUMERIC(p, s) does.\<close>

definition round_scale :: "nat \<Rightarrow> rat \<Rightarrow> rat" where
  "round_scale s q =
     (if q < 0 then - (of_int \<lfloor>- q * 10 ^ s + 1 / 2\<rfloor> / 10 ^ s)
      else of_int \<lfloor>q * 10 ^ s + 1 / 2\<rfloor> / 10 ^ s)"

definition numeric_col :: "nat \<Rightarrow> nat \<Rightarrow> rat \<Rightarrow> exn + rat" where
  "numeric_col p s q =
     (let r = round_scale s q
      in if 10 ^ (p - s) \<le> \<bar>r\<bar> then Inl (DriverError ''numeric field overflow'') else Inr r)"

section \<open>Statements\<close>

definition has_order :: "pgdb \<Rightarrow> string \<Rightarrow> bool" where
  "has_order db oid \<longleftrightarrow> oid \<in> or_order_id ` set (pg_orders db)"

definition has_item :: "pgdb \<Rightarrow> string \<Rightarrow> string \<Rightarrow> bool" where
  "has_item db oid pid \<longleftrightarrow> (oid, pid) \<in> (\<lambda>i. (ir_order_id i, ir_product_id i)) ` set (pg_items db)"

text \<open>\<open>INSERT INTO orders ... ON CONFLICT (order_id) DO NOTHING\<close>\<close>

definition insert_order ::
    "string option \<Rightarrow> string option \<Rightarrow> string option \<Rightarrow> int option \<Rightarrow> rat \<Rightarrow> pgdb \<Rightarrow> exn + pgdb" where
  "insert_order order_id customer_id customer_email version now db =
     bindR (not_null order_id) (\<lambda>oid.
     bindR (not_null customer_id) (\<lambda>c.
     bindR (not_null customer_email) (\<lambda>m.
     bindR (numeric_col 12 2 0) (\<lambda>z.
     bindR (not_null version) (\<lambda>v.
     Inr (if has_order db oid then db
          else db\<lparr>pg_orders := pg_orders db @
            [\<lparr>or_order_id = oid, or_customer_id = c, or_customer_email = m,
              or_status = ''PENDING'', or_total_amount = z, or_version = v, or_payment_id = None,
              or_tracking_id = None, or_created_at = Some now, or_updated_at = Some now\<rparr>]\<rparr>))))))"

text \<open>
  \<open>INSERT INTO order_items ... ON CONFLICT (order_id, product_id) DO UPDATE SET quantity,
  line_total\<close>: the foreign key is checked for an inserted row only.
\<close>

definition upsert_item ::
    "string option \<Rightarrow> string option \<Rightarrow> string option \<Rightarrow> int option \<Rightarrow> rat option \<Rightarrow> rat option \<Rightarrow>
     pgdb \<Rightarrow> exn + pgdb" where
  "upsert_item order_id product_id product_name quantity unit_price line_total db =
     bindR (not_null order_id) (\<lambda>oid.
     bindR (not_null product_id) (\<lambda>pid.
     bindR (not_null product_name) (\<lambda>name.
     bindR (not_null quantity) (\<lambda>q.
     bindR (bindR (not_null unit_price) (numeric_col 10 2)) (\<lambda>price.
     bindR (bindR (not_null line_total) (numeric_col 12 2)) (\<lambda>total.
     if has_item db oid pid
     then Inr (db\<lparr>pg_items := map (\<lambda>i.
            if ir_order_id i = oid \<and> ir_product_id i = pid
            then i\<lparr>ir_quantity := q, ir_line_total := total\<rparr> else i) (pg_items db)\<rparr>)
     else if has_order db oid
     then Inr (db\<lparr>pg_items := pg_items db @
            [\<lparr>ir_order_id = oid, ir_product_id = pid, ir_product_name = name, ir_quantity = q,
              ir_unit_price = price, ir_line_total = total\<rparr>]\<rparr>)
     else Inl (DriverError ''violates foreign key constraint'')))))))"

text \<open>\<open>UPDATE orders SET ... WHERE order_id = $1\<close>\<close>

definition update_orders ::
    "string option \<Rightarrow> (order_row \<Rightarrow> exn + order_row) \<Rightarrow> pgdb \<Rightarrow> exn + pgdb" where
  "update_orders order_id f db =
     bindR (mapR (\<lambda>r. if order_id = Some (or_order_id r) then f r else Inr r) (pg_orders db))
       (\<lambda>rs. Inr (db\<lparr>pg_orders := rs\<rparr>))"

definition item_sum :: "pgdb \<Rightarrow> string \<Rightarrow> rat" where
  "item_sum db oid =
     sum_list (map ir_line_total (filter (\<lambda>i. ir_order_id i = oid) (pg_items db)))"

text \<open>\<open>SET total_amount = (SELECT COALESCE(SUM(line_total), 0) ...), version = $2, updated_at = NOW()\<close>\<close>

definition set_total :: "string option \<Rightarrow> int option \<Rightarrow> rat \<Rightarrow> pgdb \<Rightarrow> exn + pgdb" where
  "set_total order_id version now db =
     update_orders order_id (\<lambda>r.
       bindR (numeric_col 12 2 (item_sum db (or_order_id r))) (\<lambda>total.
       bindR (not_null version) (\<lambda>v.
       Inr (r\<lparr>or_total_amount := total, or_version := v, or_updated_at := Some now\<rparr>)))) db"

definition set_status ::
    "string option \<Rightarrow> string \<Rightarrow> (order_row \<Rightarrow> order_row) \<Rightarrow> int option \<Rightarrow> rat \<Rightarrow> pgdb \<Rightarrow> exn + pgdb" where
  "set_status order_id status f version now db =
     update_orders order_id (\<lambda>r.
       bindR (not_null version) (\<lambda>v.
       Inr ((f r)\<lparr>or_status := status, or_version := v, or_updated_at := Some now\<rparr>))) db"

section \<open>The projection\<close>

text \<open>
  What \<open>project_to_postgres\<close> does within its transaction: the payload is read and the
  arguments are encoded statement by statement; an event of another type changes nothing.
\<close>

definition project_statements ::
    "pg_codec \<Rightarrow> pyval \<Rightarrow> pyval \<Rightarrow> pyval \<Rightarrow> pyval \<Rightarrow> rat \<Rightarrow> pgdb \<Rightarrow> exn + pgdb" where
  "project_statements A etype oid payload version now db =
     (if etype = PStr (event_type_value ORDER_CREATED) then
        bindR (py_item payload ''customer_id'') (\<lambda>c.
        bindR (py_item payload ''customer_email'') (\<lambda>m.
        bindR (enc_text A oid) (\<lambda>oid.
        bindR (enc_text A c) (\<lambda>c.
        bindR (enc_text A m) (\<lambda>m.
        bindR (enc_int4 A version) (\<lambda>version.
        insert_order oid c m version now db))))))
      else if etype = PStr (event_type_value ORDER_ITEM_ADDED) then
        bindR (py_item payload ''product_id'') (\<lambda>pid.
        bindR (py_item payload ''product_name'') (\<lambda>name.
        bindR (py_item payload ''quantity'') (\<lambda>q.
        bindR (py_item payload ''unit_price'') (\<lambda>price.
        bindR (py_item payload ''line_total'') (\<lambda>total.
        bindR (enc_text A oid) (\<lambda>oid.
        bindR (enc_text A pid) (\<lambda>pid.
        bindR (enc_text A name) (\<lambda>name.
        bindR (enc_int4 A q) (\<lambda>q.
        bindR (enc_numeric A price) (\<lambda>price.
        bindR (enc_numeric A total) (\<lambda>total.
        bindR (upsert_item oid pid name q price total db) (\<lambda>db.
        bindR (enc_int4 A version) (\<lambda>version.
        set_total oid version now db)))))))))))))
      else if etype = PStr (event_type_value ORDER_CONFIRMED) then
        bindR (enc_text A oid) (\<lambda>oid.
        bindR (enc_int4 A version) (\<lambda>version.
        set_status oid ''CONFIRMED'' id version now db))
      else if etype = PStr (event_type_value ORDER_PAYMENT_PROCESSED) then
        bindR (py_item payload ''payment_id'') (\<lambda>p.
        bindR (enc_text A oid) (\<lambda>oid.
        bindR (enc_text A p) (\<lambda>p.
        bindR (enc_int4 A version) (\<lambda>version.
        set_status oid ''PAID'' (\<lambda>r. r\<lparr>or_payment_id := p\<rparr>) version now db))))
      else if etype = PStr (event_type_value ORDER_SHIPPED) then
        bindR (py_item payload ''tracking_id'') (\<lambda>t.
        bindR (enc_text A oid) (\<lambda>oid.
        bindR (enc_text A t) (\<lambda>t.
        bindR (enc_int4 A version) (\<lambda>version.
        set_status oid ''SHIPPED'' (\<lambda>r. r\<lparr>or_tracking_id := t\<rparr>) version now db))))
      else if etype = PStr (event_type_value ORDER_DELIVERED) then
        bindR (enc_text A oid) (\<lambda>oid.
        bindR (enc_int4 A version) (\<lambda>version.
        set_status oid ''DELIVERED'' id version now db))
      else if etype = PStr (event_type_value ORDER_CANCELLED) then
        bindR (enc_text A oid) (\<lambda>oid.
        bindR (enc_int4 A version) (\<lambda>version.
        set_status oid ''CANCELLED'' id version now db))
      else Inr db)"

section \<open>The connection\<close>

text \<open>A transaction runs its body on the tables, with \<open>NOW()\<close> fixed for its duration.\<close>

record 'w pg_pool =
  pg_transaction :: "(rat \<Rightarrow> pgdb \<Rightarrow> exn + pgdb) \<Rightarrow> ('w, unit) io"
  pg_codec_of :: pg_codec

definition project_attempt :: "'w pg_pool \<Rightarrow> pydict \<Rightarrow> ('w, unit) io" where
  "project_attempt conn event =
     bindM (liftM (dict_item event ''event_type'')) (\<lambda>etype.
     bindM (liftM (dict_item event ''aggregate_id'')) (\<lambda>oid.
     bindM (liftM (dict_item event ''payload'')) (\<lambda>payload.
     bindM (liftM (dict_item event ''aggregate_version'')) (\<lambda>version.
     pg_transaction conn (project_statements (pg_codec_of conn) etype oid payload version)))))"

definition project_to_postgres :: "'w tenacity \<Rightarrow> 'w pg_pool \<Rightarrow> pydict \<Rightarrow> ('w, unit) io" where
  "project_to_postgres retry conn event = retry 3 (project_attempt conn event)"

text \<open>The part of the projection that acts on the tables, for an event document.\<close>

definition project_doc :: "pg_codec \<Rightarrow> pydict \<Rightarrow> rat \<Rightarrow> pgdb \<Rightarrow> exn + pgdb" where
  "project_doc A event now db =
     bindR (dict_item event ''event_type'') (\<lambda>etype.
     bindR (dict_item event ''aggregate_id'') (\<lambda>oid.
     bindR (dict_item event ''payload'') (\<lambda>payload.
     bindR (dict_item event ''aggregate_version'') (\<lambda>version.
     project_statements A etype oid payload version now db))))"

section \<open>The invariant of the read model\<close>

definition cents :: "rat \<Rightarrow> bool" where
  "cents q \<longleftrightarrow> q * 100 \<in> \<int>"

text \<open>
  The constraints of the schema, and that an order's total is the sum of its line totals, in
  whole cents and within NUMERIC(12, 2).
\<close>

definition totals_ok :: "pgdb \<Rightarrow> string set \<Rightarrow> bool" where
  "totals_ok db except \<longleftrightarrow> (\<forall>r \<in> set (pg_orders db). or_order_id r \<notin> except \<longrightarrow>
     or_total_amount r = item_sum db (or_order_id r) \<and> \<bar>or_total_amount r\<bar> < 10 ^ 10)"

definition keys_ok :: "pgdb \<Rightarrow> bool" where
  "keys_ok db \<longleftrightarrow> distinct (map or_order_id (pg_orders db)) \<and>
     distinct (map (\<lambda>i. (ir_order_id i, ir_product_id i)) (pg_items db)) \<and>
     (\<forall>i \<in> set (pg_items db). has_order db (ir_order_id i) \<and> cents (ir_line_total i))"

definition rm_inv :: "pgdb \<Rightarrow> bool" where
  "rm_inv db \<longleftrightarrow> keys_ok db \<and> totals_ok db {}"

definition int4 :: "int \<Rightarrow> bool" where
  "int4 i \<longleftrightarrow> - (2 ^ 31) \<le> i \<and> i < 2 ^ 31"

text \<open>The ranges of the column types: what a float, an integer or a timestamp of the client can show.\<close>

definition row_ok :: "order_row \<Rightarrow> bool" where
  "row_ok r \<longleftrightarrow> int4 (or_version r) \<and> finite_float (or_total_amount r) \<and>
     (\<forall>t. or_created_at r = Some t \<longrightarrow> finite_float t) \<and> (\<forall>t. or_updated_at r = Some t \<longrightarrow> finite_float t)"

definition item_ok :: "item_row \<Rightarrow> bool" where
  "item_ok i \<longleftrightarrow> int4 (ir_quantity i) \<and> finite_float (ir_unit_price i) \<and> finite_float (ir_line_total i)"

definition columns_ok :: "pgdb \<Rightarrow> bool" where
  "columns_ok db \<longleftrightarrow> (\<forall>r \<in> set (pg_orders db). row_ok r) \<and> (\<forall>i \<in> set (pg_items db). item_ok i)"

lemma cents_0 [simp]: "cents 0"
  by (simp add: cents_def)

lemma cents_sum: "(\<And>x. x \<in> set xs \<Longrightarrow> cents (f x)) \<Longrightarrow> cents (sum_list (map f xs))"
  by (induction xs) (auto simp: cents_def distrib_right)

lemma round_scale_exact: "cents q \<Longrightarrow> round_scale 2 q = q"
proof -
  assume "cents q"
  then obtain k where k: "q * 100 = of_int k"
    by (auto simp: cents_def elim: Ints_cases)
  have "\<lfloor>of_int k + 1 / 2 :: rat\<rfloor> = k" for k :: int
    by linarith
  from this [of k] this [of "- k"] show ?thesis
    using k by (simp add: round_scale_def field_simps)
qed

lemma cents_numeral [simp]: "cents (numeral k)"
  by (simp add: cents_def Ints_mult)

lemmas round_scale_simps [simp] = round_scale_exact [OF cents_numeral] round_scale_exact [OF cents_0]

lemma cents_round: "cents (round_scale 2 q)"
  by (simp add: cents_def round_scale_def)

lemma numeric_col_Inr: "numeric_col p s q = Inr r \<longleftrightarrow> r = round_scale s q \<and> \<bar>r\<bar> < 10 ^ (p - s)"
  by (auto simp: numeric_col_def Let_def)

lemma not_null_Inr: "not_null x = Inr y \<longleftrightarrow> x = Some y"
  by (simp add: not_null_def split: option.splits)

text \<open>An update that succeeds, as a map over the rows.\<close>

lemma update_orders_Inr:
  "update_orders oid f db = Inr db' \<longleftrightarrow>
     (\<forall>r \<in> set (pg_orders db). oid = Some (or_order_id r) \<longrightarrow> (\<exists>r'. f r = Inr r')) \<and>
     db' = db\<lparr>pg_orders := map (\<lambda>r. if oid = Some (or_order_id r) then projr (f r) else r) (pg_orders db)\<rparr>"
  by (auto simp: update_orders_def bindR_Inr_iff mapR_Inr_iff if_distrib [of projr] cong: if_cong)

lemma item_sum_cong: "pg_items db = pg_items db' \<Longrightarrow> item_sum db oid = item_sum db' oid"
  by (simp add: item_sum_def)

lemma item_sum_orders [simp]: "item_sum (db\<lparr>pg_orders := rs\<rparr>) oid = item_sum db oid"
  by (rule item_sum_cong) simp

lemma item_sum_cents: "keys_ok db \<Longrightarrow> cents (item_sum db oid)"
  by (auto simp: item_sum_def keys_ok_def intro: cents_sum)

lemma keys_ok_orders:
  assumes "keys_ok db" and "map or_order_id rs = map or_order_id (pg_orders db)"
  shows "keys_ok (db\<lparr>pg_orders := rs\<rparr>)"
proof -
  have "set (map or_order_id rs) = set (map or_order_id (pg_orders db))"
    using assms(2) by (rule arg_cong)
  then have "has_order (db\<lparr>pg_orders := rs\<rparr>) oid = has_order db oid" for oid
    by (simp add: has_order_def)
  then show ?thesis
    using assms by (simp add: keys_ok_def)
qed

text \<open>An update of rows that keeps their keys keeps the keys of the tables.\<close>

lemma update_orders_rows:
  assumes "update_orders oid f db = Inr db'" and "keys_ok db"
    and "\<And>r r'. f r = Inr r' \<Longrightarrow> or_order_id r' = or_order_id r"
  shows "keys_ok db'" and "pg_items db' = pg_items db"
    and "\<And>r'. r' \<in> set (pg_orders db') \<Longrightarrow> \<exists>r \<in> set (pg_orders db). or_order_id r' = or_order_id r \<and>
      (if oid = Some (or_order_id r) then f r = Inr r' else r' = r)"
proof -
  let ?g = "\<lambda>r. if oid = Some (or_order_id r) then projr (f r) else r"
  have db': "db' = db\<lparr>pg_orders := map ?g (pg_orders db)\<rparr>"
    and fine: "\<And>r. r \<in> set (pg_orders db) \<Longrightarrow> oid = Some (or_order_id r) \<Longrightarrow> f r = Inr (projr (f r))"
    using assms(1) by (auto simp: update_orders_Inr)
  have id: "or_order_id (?g r) = or_order_id r" if "r \<in> set (pg_orders db)" for r
    using fine [OF that] assms(3) by auto
  then have "map or_order_id (map ?g (pg_orders db)) = map or_order_id (pg_orders db)"
    by (simp cong: map_cong)
  then show "keys_ok db'"
    unfolding db' by (rule keys_ok_orders [OF assms(2)])
  show "pg_items db' = pg_items db" by (simp add: db')
  fix r' assume "r' \<in> set (pg_orders db')"
  then obtain r where "r \<in> set (pg_orders db)" "r' = ?g r" by (auto simp: db')
  then show "\<exists>r \<in> set (pg_orders db). or_order_id r' = or_order_id r \<and>
      (if oid = Some (or_order_id r) then f r = Inr r' else r' = r)"
    using id [of r] fine [of r] by (intro bexI [of _ r]) auto
qed

text \<open>The statements, where they succeed.\<close>

definition new_row :: "string \<Rightarrow> string \<Rightarrow> string \<Rightarrow> int \<Rightarrow> rat \<Rightarrow> order_row" where
  "new_row oid c m v now =
     \<lparr>or_order_id = oid, or_customer_id = c, or_customer_email = m, or_status = ''PENDING'',
      or_total_amount = 0, or_version = v, or_payment_id = None, or_tracking_id = None,
      or_created_at = Some now, or_updated_at = Some now\<rparr>"

lemma new_row_fields [simp]:
  "or_order_id (new_row oid c m v now) = oid" "or_total_amount (new_row oid c m v now) = 0"
  by (simp_all add: new_row_def)

lemma insert_order_Inr:
  "insert_order oid c m v now db = Inr db' \<longleftrightarrow>
     (\<exists>oid' c' m' v'. oid = Some oid' \<and> c = Some c' \<and> m = Some m' \<and> v = Some v' \<and>
        db' = (if has_order db oid' then db
               else db\<lparr>pg_orders := pg_orders db @ [new_row oid' c' m' v' now]\<rparr>))"
proof -
  have "numeric_col 12 2 0 = Inr 0"
    by (simp add: numeric_col_Inr round_scale_exact)
  then show ?thesis
    by (cases oid; cases c; cases m; cases v) (auto simp: insert_order_def not_null_def new_row_def)
qed

definition put_item :: "string \<Rightarrow> string \<Rightarrow> int \<Rightarrow> rat \<Rightarrow> item_row \<Rightarrow> item_row" where
  "put_item oid pid q amt i =
     (if ir_order_id i = oid \<and> ir_product_id i = pid
      then i\<lparr>ir_quantity := q, ir_line_total := amt\<rparr> else i)"

definition put_items :: "string \<Rightarrow> string \<Rightarrow> string \<Rightarrow> int \<Rightarrow> rat \<Rightarrow> rat \<Rightarrow> pgdb \<Rightarrow> item_row list" where
  "put_items oid pid name q price amt db =
     (if has_item db oid pid then map (put_item oid pid q amt) (pg_items db)
      else pg_items db @
        [\<lparr>ir_order_id = oid, ir_product_id = pid, ir_product_name = name, ir_quantity = q,
          ir_unit_price = price, ir_line_total = amt\<rparr>])"

lemma upsert_item_Inr:
  "upsert_item oid pid name q price amt db = Inr db' \<longleftrightarrow>
     (\<exists>oid' pid' name' q' price' amt'. oid = Some oid' \<and> pid = Some pid' \<and> name = Some name' \<and>
        q = Some q' \<and> price = Some price' \<and> amt = Some amt' \<and>
        \<bar>round_scale 2 price'\<bar> < 10 ^ 8 \<and> \<bar>round_scale 2 amt'\<bar> < 10 ^ 10 \<and>
        (has_item db oid' pid' \<or> has_order db oid') \<and>
        db' = db\<lparr>pg_items := put_items oid' pid' name' q' (round_scale 2 price') (round_scale 2 amt') db\<rparr>)"
  by (cases oid; cases pid; cases name; cases q; cases price; cases amt)
    (simp_all add: upsert_item_def not_null_def numeric_col_def Let_def put_items_def
      put_item_def [abs_def] not_less eq_commute)

lemma insert_order_inv:
  assumes "insert_order oid c m v now db = Inr db'" and "rm_inv db"
  shows "rm_inv db'"
proof -
  have "rm_inv (db\<lparr>pg_orders := pg_orders db @ [r]\<rparr>)"
    if "\<not> has_order db (or_order_id r)" "or_total_amount r = 0" for r
  proof -
    have "filter (\<lambda>i. ir_order_id i = or_order_id r) (pg_items db) = []"
      using assms(2) that(1) by (auto simp: rm_inv_def keys_ok_def filter_empty_conv)
    then show ?thesis
      using assms(2) that by (auto simp: rm_inv_def keys_ok_def totals_ok_def has_order_def item_sum_def)
  qed
  then show ?thesis using assms by (auto simp: insert_order_Inr)
qed

lemma put_item_keys [simp]:
  "ir_order_id (put_item oid pid q amt i) = ir_order_id i"
  "ir_product_id (put_item oid pid q amt i) = ir_product_id i"
  by (simp_all add: put_item_def)

lemma put_item_total: "ir_line_total (put_item oid pid q amt i) =
    (if ir_order_id i = oid \<and> ir_product_id i = pid then amt else ir_line_total i)"
  by (simp add: put_item_def)

lemma put_item_other [simp]: "ir_order_id i \<noteq> oid \<Longrightarrow> put_item oid pid q amt i = i"
  by (simp add: put_item_def)

lemma upsert_item_inv:
  assumes "upsert_item oid pid name q price amt db = Inr db'" and "rm_inv db"
  shows "\<exists>o'. oid = Some o' \<and> keys_ok db' \<and> totals_ok db' {o'} \<and> pg_orders db' = pg_orders db"
proof -
  obtain o' p' n' q' u' t' where args: "oid = Some o'"
    "has_item db o' p' \<or> has_order db o'"
    "db' = db\<lparr>pg_items := put_items o' p' n' q' u' (round_scale 2 t') db\<rparr>"
    using assms(1) unfolding upsert_item_Inr by blast
  have has: "has_order db o'"
    using args(2) assms(2) by (auto simp: rm_inv_def keys_ok_def has_item_def)
  have "filter (\<lambda>i. ir_order_id i = x) (put_items o' p' n' q' u' (round_scale 2 t') db) =
      filter (\<lambda>i. ir_order_id i = x) (pg_items db)" if "x \<noteq> o'" for x
    using that by (auto simp: put_items_def filter_map comp_def intro!: map_idI)
  then have "item_sum db' x = item_sum db x" if "x \<noteq> o'" for x
    using that by (simp add: item_sum_def args(3))
  then have "totals_ok db' {o'}"
    using assms(2) by (auto simp: rm_inv_def totals_ok_def args(3))
  moreover have "keys_ok db'"
    using assms(2) has cents_round
    by (auto simp: rm_inv_def keys_ok_def args(3) put_items_def has_order_def has_item_def comp_def
        put_item_total)
  ultimately show ?thesis
    using args by simp
qed

lemma set_status_inv:
  assumes "set_status oid st f v now db = Inr db'" and "rm_inv db"
    and "\<And>r. or_order_id (f r) = or_order_id r \<and> or_total_amount (f r) = or_total_amount r"
  shows "rm_inv db'"
proof -
  have keys: "keys_ok db" and tot: "totals_ok db {}"
    using assms(2) by (simp_all add: rm_inv_def)
  have id: "or_order_id r' = or_order_id r"
    if "bindR (not_null v) (\<lambda>v. Inr ((f r)\<lparr>or_status := st, or_version := v, or_updated_at := Some now\<rparr>)) = Inr r'"
    for r r'
    using that assms(3) by (auto simp: bindR_Inr_iff)
  note rows = update_orders_rows [OF assms(1) [unfolded set_status_def] keys id]
  have "totals_ok db' {}"
    unfolding totals_ok_def
  proof (intro ballI impI)
    fix r' assume "r' \<in> set (pg_orders db')"
    then obtain r where "r \<in> set (pg_orders db)" "or_order_id r' = or_order_id r"
      "or_total_amount r' = or_total_amount r"
      using rows(3) [of r'] assms(3) by (fastforce simp: bindR_Inr_iff split: if_splits)
    then show "or_total_amount r' = item_sum db' (or_order_id r') \<and> \<bar>or_total_amount r'\<bar> < 10 ^ 10"
      using tot item_sum_cong [OF rows(2)] by (auto simp: totals_ok_def)
  qed
  then show ?thesis
    using rows(1) by (simp add: rm_inv_def)
qed

lemma set_total_inv:
  assumes "set_total (Some oid) v now db = Inr db'" and "keys_ok db" and "totals_ok db {oid}"
  shows "rm_inv db'"
proof -
  have id: "or_order_id r' = or_order_id r"
    if "bindR (numeric_col 12 2 (item_sum db (or_order_id r))) (\<lambda>amt. bindR (not_null v) (\<lambda>v.
       Inr (r\<lparr>or_total_amount := amt, or_version := v, or_updated_at := Some now\<rparr>))) = Inr r'" for r r'
    using that by (auto simp: bindR_Inr_iff)
  note rows = update_orders_rows [OF assms(1) [unfolded set_total_def] assms(2) id]
  have sum: "round_scale 2 (item_sum db x) = item_sum db x" for x
    by (rule round_scale_exact [OF item_sum_cents [OF assms(2)]])
  have "totals_ok db' {}"
    unfolding totals_ok_def
  proof (intro ballI impI)
    fix r' assume "r' \<in> set (pg_orders db')"
    then obtain r where "r \<in> set (pg_orders db)" "or_order_id r' = or_order_id r"
      "or_total_amount r' = item_sum db (or_order_id r)" "\<bar>or_total_amount r'\<bar> < 10 ^ 10"
      using rows(3) [of r'] assms(3) sum
      by (fastforce simp: bindR_Inr_iff numeric_col_Inr totals_ok_def split: if_splits)
    then show "or_total_amount r' = item_sum db' (or_order_id r') \<and> \<bar>or_total_amount r'\<bar> < 10 ^ 10"
      using item_sum_cong [OF rows(2)] by auto
  qed
  then show ?thesis
    using rows(1) by (simp add: rm_inv_def)
qed

lemma project_statements_inv:
  assumes "project_statements A etype oid payload version now db = Inr db'" and "rm_inv db"
  shows "rm_inv db'"
proof -
  have item: "rm_inv db'" if "upsert_item o1 pid name q price amt db = Inr db1" "set_total o1 v now db1 = Inr db'"
    for o1 pid name q price amt db1 v
    using upsert_item_inv [OF that(1) assms(2)] set_total_inv [of _ v now db1 db'] that(2) by blast
  show ?thesis
    using assms unfolding project_statements_def
    by (auto simp: bindR_Inr_iff split: if_splits
        intro: insert_order_inv [OF _ assms(2)] set_status_inv [OF _ assms(2)] item assms(2))
qed

lemma project_doc_inv: "project_doc A ev now db = Inr db' \<Longrightarrow> rm_inv db \<Longrightarrow> rm_inv db'"
  by (auto simp: project_doc_def bindR_Inr_iff intro: project_statements_inv)

section \<open>Replaying an event\<close>

text \<open>Tables that differ in \<open>updated_at\<close> only.\<close>

definition strip_time :: "pgdb \<Rightarrow> pgdb" where
  "strip_time db = db\<lparr>pg_orders := map (\<lambda>r. r\<lparr>or_updated_at := None\<rparr>) (pg_orders db)\<rparr>"

lemma update_orders_again:
  assumes "update_orders oid f db = Inr db1"
    and "\<And>r r'. f r = Inr r' \<Longrightarrow> or_order_id r' = or_order_id r \<and>
      (\<exists>r''. g r' = Inr r'' \<and> r''\<lparr>or_updated_at := None\<rparr> = r'\<lparr>or_updated_at := None\<rparr>)"
  shows "\<exists>db2. update_orders oid g db1 = Inr db2 \<and> strip_time db2 = strip_time db1"
proof -
  let ?f = "\<lambda>r. if oid = Some (or_order_id r) then projr (f r) else r"
  let ?g = "\<lambda>r. if oid = Some (or_order_id r) then projr (g r) else r"
  have db1: "db1 = db\<lparr>pg_orders := map ?f (pg_orders db)\<rparr>"
    and fine: "\<And>r. r \<in> set (pg_orders db) \<Longrightarrow> oid = Some (or_order_id r) \<Longrightarrow> f r = Inr (projr (f r))"
    using assms(1) by (auto simp: update_orders_Inr)
  have again: "\<exists>r''. g (projr (f r)) = Inr r'' \<and>
      r''\<lparr>or_updated_at := None\<rparr> = (projr (f r))\<lparr>or_updated_at := None\<rparr> \<and> or_order_id (projr (f r)) = or_order_id r"
    if "r \<in> set (pg_orders db)" "oid = Some (or_order_id r)" for r
    using assms(2) [OF fine [OF that]] by blast
  have "update_orders oid g db1 = Inr (db1\<lparr>pg_orders := map ?g (pg_orders db1)\<rparr>)"
    using again by (fastforce simp: update_orders_Inr db1)
  moreover have "(?g r)\<lparr>or_updated_at := None\<rparr> = r\<lparr>or_updated_at := None\<rparr>" if "r \<in> set (pg_orders db1)" for r
    using that again by (fastforce simp: db1)
  then have "strip_time (db1\<lparr>pg_orders := map ?g (pg_orders db1)\<rparr>) = strip_time db1"
    by (simp add: strip_time_def)
  ultimately show ?thesis by blast
qed

lemma set_status_again:
  assumes "set_status oid st f v now db = Inr db1"
    and "\<And>r. or_order_id (f r) = or_order_id r"
    and "\<And>r st v t u. f ((f r)\<lparr>or_status := st, or_version := v, or_updated_at := t\<rparr>) =
      (f r)\<lparr>or_status := st, or_version := v, or_updated_at := t\<rparr>"
  shows "\<exists>db2. set_status oid st f v now' db1 = Inr db2 \<and> strip_time db2 = strip_time db1"
  unfolding set_status_def
  by (rule update_orders_again [OF assms(1) [unfolded set_status_def]])
    (auto simp: bindR_Inr_iff assms(2,3))

lemma set_total_again:
  assumes "set_total oid v now db = Inr db1"
  shows "\<exists>db2. set_total oid v now' db1 = Inr db2 \<and> strip_time db2 = strip_time db1"
proof -
  have "item_sum db1 = item_sum db"
    using assms by (auto simp: set_total_def update_orders_Inr)
  then show ?thesis
    unfolding set_total_def
    by (intro update_orders_again [OF assms [unfolded set_total_def]]) (auto simp: bindR_Inr_iff)
qed

lemma put_item_idem [simp]: "put_item oid pid q amt (put_item oid pid q amt i) = put_item oid pid q amt i"
  by (simp add: put_item_def)

lemma insert_order_again:
  assumes "insert_order oid c m v now db = Inr db1"
  shows "\<exists>db2. insert_order oid c m v now' db1 = Inr db2 \<and> strip_time db2 = strip_time db1"
proof -
  obtain o' c' m' v' where args: "oid = Some o'" "c = Some c'" "m = Some m'" "v = Some v'"
    and db1: "db1 = (if has_order db o' then db
      else db\<lparr>pg_orders := pg_orders db @ [new_row o' c' m' v' now]\<rparr>)"
    using assms unfolding insert_order_Inr by blast
  have "has_order db1 o'"
    by (simp add: db1 has_order_def)
  with args show ?thesis by (simp add: insert_order_Inr)
qed

lemma upsert_item_again:
  assumes "upsert_item oid pid name q price amt db = Inr db1" and "pg_items db2 = pg_items db1"
  shows "upsert_item oid pid name q price amt db2 = Inr db2"
proof -
  obtain o' p' n' q' u' t' where args: "oid = Some o'" "pid = Some p'" "name = Some n'" "q = Some q'"
    "price = Some u'" "amt = Some t'" "\<bar>round_scale 2 u'\<bar> < 10 ^ 8" "\<bar>round_scale 2 t'\<bar> < 10 ^ 10"
    "pg_items db1 = put_items o' p' n' q' (round_scale 2 u') (round_scale 2 t') db"
    using assms(1) unfolding upsert_item_Inr by auto
  have has: "has_item db2 o' p'"
    using assms(2) args(9) by (auto simp: has_item_def put_items_def image_iff split: if_splits)
  have "put_items o' p' n' q' (round_scale 2 u') (round_scale 2 t') db2 = pg_items db2"
  proof (cases "has_item db o' p'")
    case True
    then show ?thesis
      using has assms(2) args(9) by (simp add: put_items_def comp_def)
  next
    case False
    have "map (put_item o' p' q' (round_scale 2 t')) (pg_items db) = pg_items db"
      using False by (intro map_idI) (auto simp: has_item_def put_item_def image_iff)
    then show ?thesis
      using False has assms(2) args(9) by (simp add: put_items_def put_item_def)
  qed
  then show ?thesis
    using args has unfolding upsert_item_Inr by auto
qed

lemma project_statements_again:
  assumes "project_statements A etype oid payload version now db = Inr db1"
  shows "\<exists>db2. project_statements A etype oid payload version now' db1 = Inr db2 \<and>
    strip_time db2 = strip_time db1"
proof -
  have item: "\<exists>db2. bindR (upsert_item o1 pid name q price amt db1) (\<lambda>db. set_total o1 v now' db) = Inr db2 \<and>
      strip_time db2 = strip_time db1"
    if "upsert_item o1 pid name q price amt db = Inr db0" "set_total o1 v now db0 = Inr db1"
    for o1 pid name q price amt db0 v
  proof -
    have "pg_items db1 = pg_items db0"
      using that(2) by (auto simp: set_total_def update_orders_Inr)
    from upsert_item_again [OF that(1) this] show ?thesis
      using set_total_again [OF that(2)] by simp
  qed
  show ?thesis
    using assms unfolding project_statements_def
    by (auto simp: bindR_Inr_iff split: if_splits simp del: event_type_value.simps
        dest: insert_order_again set_status_again item [unfolded bindR_Inr_iff]
        intro!: insert_order_again set_status_again)
qed

lemma project_doc_again:
  assumes "project_doc A ev now db = Inr db1"
  shows "\<exists>db2. project_doc A ev now' db1 = Inr db2 \<and> strip_time db2 = strip_time db1"
  using assms by (auto simp: project_doc_def bindR_Inr_iff intro!: project_statements_again)

section \<open>Other orders\<close>

text \<open>The rows of one order.\<close>

definition order_rows :: "pgdb \<Rightarrow> string \<Rightarrow> order_row list \<times> item_row list" where
  "order_rows db oid =
     (filter (\<lambda>r. or_order_id r = oid) (pg_orders db), filter (\<lambda>i. ir_order_id i = oid) (pg_items db))"

lemma update_orders_other:
  assumes "update_orders oid f db = Inr db'" and "oid \<noteq> Some x"
    and "\<And>r r'. f r = Inr r' \<Longrightarrow> or_order_id r' = or_order_id r"
  shows "order_rows db' x = order_rows db x"
proof -
  let ?f = "\<lambda>r. if oid = Some (or_order_id r) then projr (f r) else r"
  have db': "db' = db\<lparr>pg_orders := map ?f (pg_orders db)\<rparr>"
    and fine: "\<forall>r \<in> set (pg_orders db). oid = Some (or_order_id r) \<longrightarrow> (\<exists>r'. f r = Inr r')"
    using assms(1) by (auto simp: update_orders_Inr)
  have "filter (\<lambda>r. or_order_id r = x) (map ?f rs) = filter (\<lambda>r. or_order_id r = x) rs"
    if "\<forall>r \<in> set rs. oid = Some (or_order_id r) \<longrightarrow> (\<exists>r'. f r = Inr r')" for rs
    using that assms(2,3) by (induction rs) fastforce+
  then show ?thesis
    using fine by (simp add: order_rows_def db')
qed

lemma project_statements_other:
  assumes "project_statements A etype oid payload version now db = Inr db'"
    and "enc_text A oid = Inr oid'" and "oid' \<noteq> Some x"
  shows "order_rows db' x = order_rows db x"
proof -
  have st: "order_rows db' x = order_rows db x"
    if "set_status oid' s f v now db = Inr db'" "\<And>r. or_order_id (f r) = or_order_id r" for s f v
    using that by (intro update_orders_other [OF that(1) [unfolded set_status_def] assms(3)])
      (auto simp: bindR_Inr_iff)
  have item: "order_rows db' x = order_rows db x"
    if "upsert_item oid' pid name q price amt db = Inr db1" "set_total oid' v now db1 = Inr db'"
    for pid name q price amt db1 v
  proof -
    have "order_rows db' x = order_rows db1 x"
      by (rule update_orders_other [OF that(2) [unfolded set_total_def] assms(3)]) (auto simp: bindR_Inr_iff)
    moreover have "order_rows db1 x = order_rows db x"
      using that(1) assms(3) unfolding upsert_item_Inr
      by (auto simp: order_rows_def put_items_def filter_map comp_def intro!: map_idI)
    ultimately show ?thesis by simp
  qed
  have ins: "order_rows db' x = order_rows db x" if "insert_order oid' c m v now db = Inr db'" for c m v
    using that assms(3) unfolding insert_order_Inr by (auto simp: order_rows_def)
  show ?thesis
    using assms(1,2) unfolding project_statements_def
    by (auto simp: bindR_Inr_iff split: if_splits simp del: event_type_value.simps intro: st item ins)
qed

section \<open>A codec and a connection\<close>

text \<open>What asyncpg documents: text is \<open>str\<close>, int4 a 32-bit \<open>int\<close>, numeric a decimal.\<close>

definition text_ok :: "string \<Rightarrow> bool" where
  "text_ok s \<longleftrightarrow> CHR 0x00 \<notin> set s"

locale codec_laws =
  fixes A :: pg_codec
  assumes text_str: "text_ok s \<Longrightarrow> enc_text A (PStr s) = Inr (Some s)"
    and text_any: "enc_text A (PStr s) = Inr x \<Longrightarrow> x = Some s"
    and int4_in: "- (2 ^ 31) \<le> i \<Longrightarrow> i < 2 ^ 31 \<Longrightarrow> enc_int4 A (PInt i) = Inr (Some i)"
    and int4_out: "i < - (2 ^ 31) \<or> 2 ^ 31 \<le> i \<Longrightarrow> \<exists>e. enc_int4 A (PInt i) = Inl e"
    and int4_range: "enc_int4 A v = Inr (Some i) \<Longrightarrow> int4 i"
    and numeric_float: "enc_numeric A (PFloat (Fin q)) = Inr (Some q)"
    and numeric_null: "enc_numeric A PNone = Inr None"

text \<open>
  A transaction that returns has committed what its body computed; one that raises was rolled
  back, or committed without the client learning of it.  \<open>NOW()\<close> is a timestamp, in seconds.
\<close>

definition pg_time :: "rat \<Rightarrow> bool" where
  "pg_time t \<longleftrightarrow> \<bar>t\<bar> < 10 ^ 13"

locale pool_laws = codec_laws "pg_codec_of C"
  for C :: "'w pg_pool" and V :: "'w \<Rightarrow> backend" +
  assumes tx_ok: "pg_transaction C f w = (Inr u, w') \<Longrightarrow>
      \<exists>now db. pg_time now \<and> f now (b_tables (V w)) = Inr db \<and> V w' = (V w)\<lparr>b_tables := db\<rparr>"
    and tx_err: "pg_transaction C f w = (Inl e, w') \<Longrightarrow>
      V w' = V w \<or> (\<exists>now db. pg_time now \<and> f now (b_tables (V w)) = Inr db \<and> V w' = (V w)\<lparr>b_tables := db\<rparr>)"

lemma pg_time_0 [simp]: "pg_time 0"
  by (simp add: pg_time_def)

definition mem_codec :: pg_codec where
  "mem_codec =
     \<lparr>enc_text = (\<lambda>v. case v of PNone \<Rightarrow> Inr None
         | PStr s \<Rightarrow> if text_ok s then Inr (Some s) else Inl (DriverError ''invalid byte sequence'')
         | _ \<Rightarrow> Inl (DriverError ''expected str'')),
      enc_int4 = (\<lambda>v. case v of PNone \<Rightarrow> Inr None
         | PInt i \<Rightarrow> if - (2 ^ 31) \<le> i \<and> i < 2 ^ 31 then Inr (Some i)
                    else Inl (DriverError ''value out of int32 range'')
         | _ \<Rightarrow> Inl (DriverError ''an integer is required'')),
      enc_numeric = (\<lambda>v. case v of PNone \<Rightarrow> Inr None
         | PFloat (Fin q) \<Rightarrow> Inr (Some q) | PInt i \<Rightarrow> Inr (Some (of_int i))
         | _ \<Rightarrow> Inl (DriverError ''invalid numeric''))\<rparr>"

interpretation mem_codec: codec_laws mem_codec
  by unfold_locales (auto simp: mem_codec_def int4_def split: pyval.splits if_splits)

definition mem_pool :: "mem pg_pool" where
  "mem_pool =
     \<lparr>pg_transaction = (\<lambda>f. mem_op (\<lambda>b. case f 0 (b_tables b) of
          Inl e \<Rightarrow> (Inl e, b) | Inr db \<Rightarrow> (Inr (), b\<lparr>b_tables := db\<rparr>))),
      pg_codec_of = mem_codec\<rparr>"

interpretation mem_pool: pool_laws mem_pool mem_state
proof (intro pool_laws.intro pool_laws_axioms.intro)
  show "codec_laws (pg_codec_of mem_pool)"
    by (simp add: mem_pool_def mem_codec.codec_laws_axioms)
next
  fix f w w' and u :: unit assume "pg_transaction mem_pool f w = (Inr u, w')"
  then have "f 0 (b_tables (mem_state w)) = Inr (b_tables (mem_state w')) \<and>
      mem_state w' = (mem_state w)\<lparr>b_tables := b_tables (mem_state w')\<rparr>"
    by (auto simp: mem_pool_def dest!: mem_op_Inr split: sum.splits) (drule sym, simp)+
  then show "\<exists>now db. pg_time now \<and> f now (b_tables (mem_state w)) = Inr db \<and> mem_state w' = (mem_state w)\<lparr>b_tables := db\<rparr>"
    using pg_time_0 by blast
next
  fix f w w' e assume "pg_transaction mem_pool f w = (Inl e, w')"
  then have "mem_state w' = mem_state w \<or> f 0 (b_tables (mem_state w)) = Inr (b_tables (mem_state w')) \<and>
      mem_state w' = (mem_state w)\<lparr>b_tables := b_tables (mem_state w')\<rparr>"
    by (auto simp: mem_pool_def dest!: mem_op_Inl split: sum.splits) (drule sym, simp)+
  then show "mem_state w' = mem_state w \<or>
      (\<exists>now db. pg_time now \<and> f now (b_tables (mem_state w)) = Inr db \<and> mem_state w' = (mem_state w)\<lparr>b_tables := db\<rparr>)"
    using pg_time_0 by blast
qed

section \<open>Attempts\<close>

text \<open>The tables after an event took effect: once, up to \<open>updated_at\<close>.\<close>

definition projected :: "pg_codec \<Rightarrow> pydict \<Rightarrow> pgdb \<Rightarrow> pgdb \<Rightarrow> bool" where
  "projected A ev db db' \<longleftrightarrow>
     (\<exists>now db1. project_doc A ev now db = Inr db1 \<and> strip_time db' = strip_time db1)"

text \<open>Every statement writes values that the client can show.\<close>

lemma numeric_finite: "\<bar>q\<bar> < 10 ^ 10 \<Longrightarrow> finite_float q" "\<bar>q\<bar> < 10 ^ 8 \<Longrightarrow> finite_float q"
  by (rule fl_round_finite; simp)+

lemma update_orders_columns:
  assumes "update_orders oid f db = Inr db'" and "columns_ok db"
    and "\<And>r r'. row_ok r \<Longrightarrow> f r = Inr r' \<Longrightarrow> row_ok r'"
  shows "columns_ok db'"
  using assms unfolding update_orders_Inr columns_ok_def by (fastforce split: if_splits)

context codec_laws
begin

lemma int4_any: "enc_int4 A (PInt i) = Inr x \<Longrightarrow> x = Some i"
  using int4_in [of i] int4_out [of i] by fastforce

lemma project_doc_columns:
  assumes "project_doc A ev now db = Inr db'" and "columns_ok db" and "pg_time now"
  shows "columns_ok db'"
proof -
  have now: "finite_float now"
    using assms(3) by (intro fl_round_finite) (simp add: pg_time_def)
  have ins: "columns_ok db'" if "insert_order oid c m v now db = Inr db'" "\<And>i. v = Some i \<Longrightarrow> int4 i" for oid c m v
    using that assms(2) now by (auto simp: insert_order_Inr columns_ok_def row_ok_def new_row_def numeric_finite split: if_splits)
  have st: "columns_ok db'" if "set_status oid s f v now db = Inr db'" "\<And>i. v = Some i \<Longrightarrow> int4 i"
      "\<And>r. row_ok r \<Longrightarrow> row_ok (f r)" for oid s f v
  proof (rule update_orders_columns [OF that(1) [unfolded set_status_def] assms(2)])
    fix r r' assume "row_ok r"
      and "bindR (not_null v) (\<lambda>v. Inr ((f r)\<lparr>or_status := s, or_version := v, or_updated_at := Some now\<rparr>)) = Inr r'"
    then show "row_ok r'"
      using that(2) that(3) [of r] now by (auto simp: bindR_Inr_iff not_null_Inr row_ok_def)
  qed
  have item: "columns_ok db1" if "upsert_item oid pid name q price amt db = Inr db1" "\<And>i. q = Some i \<Longrightarrow> int4 i"
    for oid pid name q price amt db1
    using that assms(2) unfolding upsert_item_Inr
    by (auto simp: columns_ok_def item_ok_def put_items_def put_item_def numeric_finite split: if_splits)
  have tot: "columns_ok db'" if "set_total oid v now db1 = Inr db'" "columns_ok db1" "\<And>i. v = Some i \<Longrightarrow> int4 i" for oid v db1
  proof (rule update_orders_columns [OF that(1) [unfolded set_total_def] that(2)])
    fix r r' assume "row_ok r"
      and "bindR (numeric_col 12 2 (item_sum db1 (or_order_id r))) (\<lambda>amt. bindR (not_null v) (\<lambda>v.
        Inr (r\<lparr>or_total_amount := amt, or_version := v, or_updated_at := Some now\<rparr>))) = Inr r'"
    then show "row_ok r'"
      using that(3) now by (auto simp: bindR_Inr_iff not_null_Inr row_ok_def numeric_col_Inr intro: numeric_finite)
  qed
  show ?thesis
    using assms(1,2) unfolding project_doc_def project_statements_def
    by (auto simp: bindR_Inr_iff row_ok_def split: if_splits simp del: event_type_value.simps
        intro: ins st tot [OF _ item] dest: int4_range)
qed

end

context pool_laws
begin

abbreviation codec :: pg_codec where
  "codec \<equiv> pg_codec_of C"

lemma attempt_tx:
  assumes "project_attempt C ev w = (r, w')"
  shows "(\<exists>now db. pg_time now \<and> project_doc codec ev now (b_tables (V w)) = Inr db \<and> V w' = (V w)\<lparr>b_tables := db\<rparr>) \<or>
    r \<noteq> Inr () \<and> V w' = V w"
proof (cases "\<exists>t a p v. dict_item ev ''event_type'' = Inr t \<and> dict_item ev ''aggregate_id'' = Inr a \<and>
    dict_item ev ''payload'' = Inr p \<and> dict_item ev ''aggregate_version'' = Inr v")
  case True
  then obtain t a p v where f: "dict_item ev ''event_type'' = Inr t" "dict_item ev ''aggregate_id'' = Inr a"
    "dict_item ev ''payload'' = Inr p" "dict_item ev ''aggregate_version'' = Inr v"
    by blast
  then have run: "pg_transaction C (project_statements codec t a p v) w = (r, w')"
    using assms by (simp add: project_attempt_def bindM_def liftM_def)
  have doc: "project_doc codec ev now db = project_statements codec t a p v now db" for now db
    using f by (simp add: project_doc_def)
  show ?thesis
    using run tx_ok [of _ w "()" w'] tx_err [of _ w _ w'] unfolding doc by (cases r) auto
next
  case False
  then have "\<exists>e. r = Inl e \<and> w' = w"
    using assms
    by (cases "dict_item ev ''event_type''"; cases "dict_item ev ''aggregate_id''";
        cases "dict_item ev ''payload''"; cases "dict_item ev ''aggregate_version''")
      (auto simp: project_attempt_def bindM_def liftM_def)
  then show ?thesis by auto
qed

lemma attempts_once:
  assumes "retry_attempts n (project_attempt C ev) w = (r, w')"
  shows "(\<exists>db. V w' = (V w)\<lparr>b_tables := db\<rparr> \<and> projected codec ev (b_tables (V w)) db) \<or>
    r \<noteq> Inr () \<and> V w' = V w"
  using assms
proof (induction n arbitrary: w)
  case 0
  then show ?case by (auto simp: io_simps)
next
  case (Suc n)
  from Suc.prems show ?case
    unfolding retry_attempts.simps
  proof (cases rule: tryM_cases)
    case (returned x)
    then show ?thesis
      using attempt_tx [OF returned(1)] by (auto simp: projected_def)
  next
    case (handled e w1)
    have again: "project_doc codec ev now (b_tables (V w)) = Inr db1 \<Longrightarrow> projected codec ev db1 db \<Longrightarrow>
        projected codec ev (b_tables (V w)) db" for now db1 db
      using project_doc_again unfolding projected_def by (metis sum.inject(2))
    from attempt_tx [OF handled(1)] show ?thesis
    proof
      assume "\<exists>now db. pg_time now \<and> project_doc codec ev now (b_tables (V w)) = Inr db \<and> V w1 = (V w)\<lparr>b_tables := db\<rparr>"
      then obtain now db where db: "project_doc codec ev now (b_tables (V w)) = Inr db"
        "V w1 = (V w)\<lparr>b_tables := db\<rparr>" by blast
      then have "projected codec ev (b_tables (V w)) db" by (auto simp: projected_def)
      then show ?thesis
        using Suc.IH [OF handled(2)] again [OF db(1)] db(2) by auto
    next
      assume "Inl e \<noteq> Inr () \<and> V w1 = V w"
      then show ?thesis using Suc.IH [OF handled(2)] by simp
    qed
  qed
qed

end

lemma strip_time_inv:
  assumes "strip_time db = strip_time db'" and "rm_inv db'"
  shows "rm_inv db"
proof -
  have it: "pg_items db = pg_items db'"
    using assms(1) by (auto simp: strip_time_def dest: arg_cong [of _ _ pg_items])
  have rows: "map (\<lambda>r. r\<lparr>or_updated_at := None\<rparr>) (pg_orders db) = map (\<lambda>r. r\<lparr>or_updated_at := None\<rparr>) (pg_orders db')"
    using assms(1) by (auto simp: strip_time_def dest: arg_cong [of _ _ pg_orders])
  have both: "map (\<lambda>r. (or_order_id r, or_total_amount r)) (pg_orders db) =
      map (\<lambda>r. (or_order_id r, or_total_amount r)) (pg_orders db')"
    using arg_cong [OF rows, of "map (\<lambda>r. (or_order_id r, or_total_amount r))"] by (simp add: comp_def)
  have keys: "map or_order_id (pg_orders db) = map or_order_id (pg_orders db')"
    using arg_cong [OF both, of "map fst"] by (simp add: comp_def)
  have tots: "(\<lambda>r. (or_order_id r, or_total_amount r)) ` set (pg_orders db) =
      (\<lambda>r. (or_order_id r, or_total_amount r)) ` set (pg_orders db')"
    using arg_cong [OF both, of set] by simp
  have "has_order db = has_order db'"
    using arg_cong [OF keys, of set] by (auto simp: has_order_def fun_eq_iff)
  moreover have "item_sum db = item_sum db'"
    using it by (simp add: item_sum_def fun_eq_iff)
  ultimately have "keys_ok db"
    using assms(2) keys it by (simp add: rm_inv_def keys_ok_def)
  moreover have "totals_ok db {}"
    unfolding totals_ok_def
  proof (intro ballI impI)
    fix r assume "r \<in> set (pg_orders db)"
    then have "(or_order_id r, or_total_amount r) \<in> (\<lambda>r. (or_order_id r, or_total_amount r)) ` set (pg_orders db')"
      unfolding tots [symmetric] by (rule imageI)
    then obtain r' where "r' \<in> set (pg_orders db')" "or_order_id r' = or_order_id r"
      "or_total_amount r' = or_total_amount r" by auto
    then have "or_total_amount r = item_sum db' (or_order_id r) \<and> \<bar>or_total_amount r\<bar> < 10 ^ 10"
      using assms(2) unfolding rm_inv_def totals_ok_def by (metis empty_iff)
    then show "or_total_amount r = item_sum db (or_order_id r) \<and> \<bar>or_total_amount r\<bar> < 10 ^ 10"
      unfolding \<open>item_sum db = item_sum db'\<close> .
  qed
  ultimately show ?thesis by (simp add: rm_inv_def)
qed

lemma projected_inv: "projected A ev db db' \<Longrightarrow> rm_inv db \<Longrightarrow> rm_inv db'"
  unfolding projected_def using strip_time_inv project_doc_inv by blast

section \<open>Properties\<close>

text \<open>A world whose read model holds the sample order, before its first item.\<close>

definition sample_row :: order_row where
  "sample_row = new_row ''o1'' ''cust'' ''a@b'' 1 0"

definition mem_row :: mem where
  "mem_row = mem_init\<lparr>mem_state := (mem_state mem_init)\<lparr>b_tables := \<lparr>pg_orders = [sample_row], pg_items = []\<rparr>\<rparr>\<rparr>"

lemma mem_row_columns: "columns_ok (b_tables (mem_state mem_row))"
  by (simp add: mem_row_def columns_ok_def row_ok_def sample_row_def new_row_def int4_def fl_round_finite)

lemma mem_row_inv: "rm_inv (b_tables (mem_state mem_row))"
  by (simp add: mem_row_def rm_inv_def keys_ok_def totals_ok_def item_sum_def sample_row_def)

text \<open>
  C14. The projection of an event takes effect exactly once, whatever the three attempts go
  through: when \<open>project_to_postgres\<close> returns, the tables are those of one application of the
  event (up to the \<open>updated_at\<close> stamp), even if an earlier attempt committed and its answer was
  lost; when it raises, they are that or unchanged; nothing but the tables is touched.
\<close>

theorem projection_takes_effect_once:
  assumes "pool_laws C V" and "tenacity_laws T" and "project_to_postgres T C event w = (r, w')"
  shows "\<exists>db. V w' = (V w)\<lparr>b_tables := db\<rparr> \<and>
    (projected (pg_codec_of C) event (b_tables (V w)) db \<or> r \<noteq> Inr () \<and> db = b_tables (V w))"
proof -
  have "retry_attempts 3 (project_attempt C event) w = (r, w')"
    using assms(3) tenacity_laws.retry_documented [OF assms(2)] by (simp add: project_to_postgres_def)
  from pool_laws.attempts_once [OF assms(1) this] show ?thesis
    by (auto intro: exI [of _ "b_tables (V w)"])
qed

theorem projection_takes_effect_once_witness:
  "\<exists>r w' db. project_to_postgres retry_attempts mem_pool sample_created
      (mem_init\<lparr>mem_faults := [Late, Lost]\<rparr>) = (r, w') \<and>
    mem_state w' = (mem_state mem_init)\<lparr>b_tables := db\<rparr>"
proof -
  obtain r w' where run: "project_to_postgres retry_attempts mem_pool sample_created
      (mem_init\<lparr>mem_faults := [Late, Lost]\<rparr>) = (r, w')"
    by (metis surj_pair)
  from projection_takes_effect_once [OF mem_pool.pool_laws_axioms mem_tenacity.tenacity_laws_axioms run] run
  show ?thesis by auto
qed

text \<open>
  Projecting an event that was already projected changes nothing but \<open>updated_at\<close>, and it
  does not fail: for any event document, well formed or not, in any state of the tables, if the
  statements succeed once they succeed again with the same rows.
\<close>

theorem projection_idempotent:
  assumes "project_doc A event now db = Inr db1"
  shows "\<exists>db2. project_doc A event now' db1 = Inr db2 \<and> strip_time db2 = strip_time db1"
  by (rule project_doc_again [OF assms])

lemma sample_item_projects:
  "project_doc mem_codec (sample_item 2 ''x'' 3 5) now \<lparr>pg_orders = [sample_row], pg_items = []\<rparr> =
     Inr \<lparr>pg_orders = [sample_row\<lparr>or_total_amount := 15, or_version := 2, or_updated_at := Some now\<rparr>],
          pg_items = [\<lparr>ir_order_id = ''o1'', ir_product_id = ''x'', ir_product_name = ''thing'',
            ir_quantity = 3, ir_unit_price = 5, ir_line_total = 15\<rparr>]\<rparr>"
  by (simp add: project_doc_def project_statements_def sample_defs dict_simps mem_codec_def text_ok_def
      upsert_item_def not_null_def numeric_col_def has_item_def has_order_def
      set_total_def update_orders_def item_sum_def sample_row_def Let_def)

theorem projection_idempotent_witness:
  "\<exists>db1 db2. project_doc mem_codec (sample_item 2 ''x'' 3 5) 0 \<lparr>pg_orders = [sample_row], pg_items = []\<rparr> = Inr db1 \<and>
     project_doc mem_codec (sample_item 2 ''x'' 3 5) 7 db1 = Inr db2 \<and> strip_time db2 = strip_time db1"
  using projection_idempotent [OF sample_item_projects [of 0], of 7] sample_item_projects by blast

text \<open>
  The read model's invariant is kept by every projection, whatever events arrive in whatever
  order and whatever the connection does: order ids and (order, product) pairs are keys, every
  item belongs to an order, and every order's total is the sum of its line totals in whole
  cents, within NUMERIC(12, 2).
\<close>

theorem projection_keeps_read_model_invariant:
  assumes "pool_laws C V" and "tenacity_laws T" and "rm_inv (b_tables (V w))"
    and "project_to_postgres T C event w = (r, w')"
  shows "rm_inv (b_tables (V w'))"
proof -
  have "retry_attempts 3 (project_attempt C event) w = (r, w')"
    using assms(4) tenacity_laws.retry_documented [OF assms(2)] by (simp add: project_to_postgres_def)
  from pool_laws.attempts_once [OF assms(1) this] show ?thesis
    using assms(3) projected_inv by auto
qed

theorem projection_keeps_read_model_invariant_witness:
  "\<exists>r w'. project_to_postgres retry_attempts mem_pool (sample_item 2 ''x'' 3 5) mem_row = (r, w') \<and>
     rm_inv (b_tables (mem_state w'))"
proof -
  obtain r w' where run: "project_to_postgres retry_attempts mem_pool (sample_item 2 ''x'' 3 5) mem_row = (r, w')"
    by (metis surj_pair)
  from projection_keeps_read_model_invariant [OF mem_pool.pool_laws_axioms
      mem_tenacity.tenacity_laws_axioms mem_row_inv run] run
  show ?thesis by blast
qed

text \<open>
  Projecting an event of one order leaves the rows and items of every other order exactly
  as they are.
\<close>

theorem projection_isolates_orders:
  assumes "codec_laws A" and "map_of event ''aggregate_id'' = Some (PStr oid)" and "text_ok oid"
    and "project_doc A event now db = Inr db'" and "other \<noteq> oid"
  shows "order_rows db' other = order_rows db other"
  using assms codec_laws.text_str [OF assms(1,3)]
  by (auto simp: project_doc_def bindR_Inr_iff dict_simps intro!: project_statements_other)

theorem projection_isolates_orders_witness:
  "\<exists>db'. project_doc mem_codec (sample_item 2 ''x'' 3 5) 0 \<lparr>pg_orders = [sample_row], pg_items = []\<rparr> = Inr db' \<and>
     order_rows db' ''o2'' = order_rows \<lparr>pg_orders = [sample_row], pg_items = []\<rparr> ''o2''"
  using projection_isolates_orders [OF mem_codec.codec_laws_axioms _ _ sample_item_projects, of "''o1''" "''o2''" 0]
    sample_item_projects [of 0]
  by (auto simp: sample_defs dict_simps text_ok_def)

end
