(* ===== verification/Projection.thy ===== *)
theory Projection
  imports Read_Model
begin

text \<open>
  What the read model says of an order after its events were projected.  On documents that
  denote typed events the projection is the typed \<open>proj\<close>; its effect on the columns of a row
  is last write wins, stated once as the locale \<open>overwriting\<close> and used for order rows and for
  item rows.  From this: projecting a valid history succeeds and yields the state the history
  denotes, and projecting the whole history once more changes nothing.
\<close>

section \<open>Last write wins\<close>

locale overwriting =
  fixes put :: "'s \<Rightarrow> 'e \<Rightarrow> 's"
  assumes regular: "put (put (put s e) d) e = put (put s d) e"
    and idem: "put (put s e) e = put s e"
begin

lemma put_foldl: "put (foldl put (put s e) ds) e = put (foldl put s ds) e"
proof (induction ds arbitrary: s)
  case Nil
  then show ?case by (simp add: idem)
next
  case (Cons d ds)
  have "put (foldl put (put (put s e) d) ds) e = put (foldl put (put (put (put s e) d) e) ds) e"
    by (rule Cons.IH [symmetric])
  also have "\<dots> = put (foldl put (put s d) ds) e"
    by (simp add: regular Cons.IH)
  finally show ?case by simp
qed

text \<open>A state that a sequence of writes leaves alone still is after one more write, for the longer sequence.\<close>

lemma absorb_snoc: "foldl put s es = s \<Longrightarrow> foldl put (put s e) (es @ [e]) = put s e"
  by (simp add: put_foldl)

end

section \<open>The typed projection\<close>

fun float_val :: "pyfloat \<Rightarrow> rat" where
  "float_val (Fin q) = q"
| "float_val _ = 0"

fun proj :: "string \<Rightarrow> rat \<Rightarrow> pgdb \<Rightarrow> int \<times> order_event \<Rightarrow> exn + pgdb" where
  "proj oid now db (v, Created c m) = insert_order (Some oid) (Some c) (Some m) (Some v) now db"
| "proj oid now db (v, ItemAdded i) =
     bindR (upsert_item (Some oid) (Some (it_product_id i)) (Some (it_product_name i))
       (Some (it_quantity i)) (Some (float_val (it_unit_price i))) (Some (float_val (it_line_total i))) db)
     (set_total (Some oid) (Some v) now)"
| "proj oid now db (v, Confirmed) = set_status (Some oid) ''CONFIRMED'' id (Some v) now db"
| "proj oid now db (v, Paid p) =
     set_status (Some oid) ''PAID'' (\<lambda>r. r\<lparr>or_payment_id := Some p\<rparr>) (Some v) now db"
| "proj oid now db (v, Shipped t) =
     set_status (Some oid) ''SHIPPED'' (\<lambda>r. r\<lparr>or_tracking_id := Some t\<rparr>) (Some v) now db"
| "proj oid now db (v, Delivered) = set_status (Some oid) ''DELIVERED'' id (Some v) now db"
| "proj oid now db (v, Cancelled) = set_status (Some oid) ''CANCELLED'' id (Some v) now db"

text \<open>An event whose values the columns of the schema can hold.\<close>

definition fits_item :: "item \<Rightarrow> bool" where
  "fits_item i \<longleftrightarrow> text_ok (it_product_id i) \<and> text_ok (it_product_name i) \<and> int4 (it_quantity i) \<and>
     it_unit_price i = Fin (float_val (it_unit_price i)) \<and>
     it_line_total i = Fin (float_val (it_line_total i)) \<and>
     \<bar>round_scale 2 (float_val (it_unit_price i))\<bar> < 10 ^ 8 \<and>
     0 \<le> float_val (it_line_total i) \<and> round_scale 2 (float_val (it_line_total i)) < 10 ^ 10"

fun fits :: "int \<times> order_event \<Rightarrow> bool" where
  "fits (v, Created c m) = (int4 v \<and> text_ok c \<and> text_ok m)"
| "fits (v, ItemAdded i) = (int4 v \<and> fits_item i)"
| "fits (v, Paid p) = (int4 v \<and> text_ok p)"
| "fits (v, Shipped t) = (int4 v \<and> text_ok t)"
| "fits (v, _) = int4 v"

context codec_laws
begin

lemma project_doc_typed:
  assumes "decode d = Some ve" and "map_of d ''aggregate_id'' = Some (PStr oid)"
    and "text_ok oid" and "fits ve"
  shows "project_doc A d now db = proj oid now db ve"
proof -
  obtain v e where ve: "ve = (v, e)" by (cases ve)
  obtain t p where tp: "map_of d ''aggregate_version'' = Some (PInt v)"
    "map_of d ''event_type'' = Some (PStr t)" "map_of d ''payload'' = Some (PDict p)"
    "decode_payload t p = Some e"
    using assms(1) by (auto simp: ve decode_Some)
  have v: "enc_int4 A (PInt v) = Inr (Some v)"
    using assms(4) int4_in [of v] by (cases e) (auto simp: ve int4_def)
  note oid = text_str [OF assms(3)]
  have st: "project_doc A d now db = project_statements A (PStr t) (PStr oid) (PDict p) (PInt v) now db"
    using tp assms(2) by (simp add: project_doc_def dict_simps)
  have item: "enc_numeric A (PFloat (it_unit_price i)) = Inr (Some (float_val (it_unit_price i)))"
    "enc_numeric A (PFloat (it_line_total i)) = Inr (Some (float_val (it_line_total i)))"
    "enc_int4 A (PInt (it_quantity i)) = Inr (Some (it_quantity i))" if "fits_item i" for i
    using that numeric_float [of "float_val (it_unit_price i)"]
      numeric_float [of "float_val (it_line_total i)"] int4_in [of "it_quantity i"]
    by (simp_all add: fits_item_def int4_def)
  show ?thesis
    using decode_payload_SomeD [OF tp(4)] assms(4) unfolding st project_statements_def ve
    by (cases e) (simp_all add: v oid text_str item dict_simps decode_item_Some fits_item_def [of _])
qed

end

section \<open>The writes of an event\<close>

text \<open>What an event writes into an order row, besides the total and \<open>updated_at\<close>, and into an item row.\<close>

definition row_put :: "string \<Rightarrow> order_row \<Rightarrow> int \<times> order_event \<Rightarrow> order_row" where
  "row_put oid r ve =
     (if or_order_id r \<noteq> oid then r
      else case snd ve of
        Created c m \<Rightarrow> r
      | ItemAdded i \<Rightarrow> r\<lparr>or_version := fst ve\<rparr>
      | Confirmed \<Rightarrow> r\<lparr>or_status := ''CONFIRMED'', or_version := fst ve\<rparr>
      | Paid p \<Rightarrow> r\<lparr>or_payment_id := Some p, or_status := ''PAID'', or_version := fst ve\<rparr>
      | Shipped t \<Rightarrow> r\<lparr>or_tracking_id := Some t, or_status := ''SHIPPED'', or_version := fst ve\<rparr>
      | Delivered \<Rightarrow> r\<lparr>or_status := ''DELIVERED'', or_version := fst ve\<rparr>
      | Cancelled \<Rightarrow> r\<lparr>or_status := ''CANCELLED'', or_version := fst ve\<rparr>)"

definition line_cents :: "item \<Rightarrow> rat" where
  "line_cents i = round_scale 2 (float_val (it_line_total i))"

definition item_put :: "string \<Rightarrow> item_row \<Rightarrow> int \<times> order_event \<Rightarrow> item_row" where
  "item_put oid i ve =
     (case snd ve of
        ItemAdded it \<Rightarrow> put_item oid (it_product_id it) (it_quantity it) (line_cents it) i
      | _ \<Rightarrow> i)"

interpretation row_writes: overwriting "row_put oid" for oid
proof
  fix r d e
  show "row_put oid (row_put oid (row_put oid r e) d) e = row_put oid (row_put oid r d) e"
  proof (cases "or_order_id r = oid")
    case True
    then show ?thesis
      by (cases r; cases "snd e"; cases "snd d") (simp_all add: row_put_def)
  qed (simp add: row_put_def)
  show "row_put oid (row_put oid r e) e = row_put oid r e"
    by (cases "snd e") (simp_all add: row_put_def)
qed

interpretation item_writes: overwriting "item_put oid" for oid
proof
  fix i d e
  show "item_put oid (item_put oid (item_put oid i e) d) e = item_put oid (item_put oid i d) e"
    by (cases "snd e"; cases "snd d") (auto simp: item_put_def put_item_def)
  show "item_put oid (item_put oid i e) e = item_put oid i e"
    by (cases "snd e") (simp_all add: item_put_def)
qed

text \<open>A row without its total and time stamp.\<close>

definition core :: "order_row \<Rightarrow> order_row" where
  "core r = r\<lparr>or_total_amount := 0, or_updated_at := None\<rparr>"

lemma core_id [simp]: "or_order_id (core r) = or_order_id r"
  by (simp add: core_def)

lemma core_row_put: "core (row_put oid r ve) = row_put oid (core r) ve"
  by (cases "snd ve") (simp_all add: core_def row_put_def)

lemma core_foldl: "core (foldl (row_put oid) r ves) = foldl (row_put oid) (core r) ves"
  by (induction ves arbitrary: r) (simp_all add: core_row_put)

lemma row_put_id [simp]: "or_order_id (row_put oid r ve) = or_order_id r"
  by (cases "snd ve") (simp_all add: row_put_def)

lemma update_orders_core:
  assumes "update_orders (Some oid) f db = Inr db'"
    and "\<And>r r'. f r = Inr r' \<Longrightarrow> or_order_id r = oid \<Longrightarrow> core r' = core (row_put oid r ve)"
  shows "map core (pg_orders db') = map (\<lambda>r. core (row_put oid r ve)) (pg_orders db)"
proof -
  let ?f = "\<lambda>r. if Some oid = Some (or_order_id r) then projr (f r) else r"
  have db': "pg_orders db' = map ?f (pg_orders db)"
    and fine: "\<And>r. r \<in> set (pg_orders db) \<Longrightarrow> oid = or_order_id r \<Longrightarrow> f r = Inr (projr (f r))"
    using assms(1) by (auto simp: update_orders_Inr)
  have "core (?f r) = core (row_put oid r ve)" if "r \<in> set (pg_orders db)" for r
    using assms(2) [OF fine [OF that]] by (auto simp: row_put_def)
  then show ?thesis by (simp add: db')
qed

lemma upsert_item_orders: "upsert_item oid pid name q price amt db = Inr db1 \<Longrightarrow> pg_orders db1 = pg_orders db"
  by (auto simp: upsert_item_Inr)

lemma proj_orders:
  assumes "proj oid now db ve = Inr db'" and "has_order db oid"
  shows "map core (pg_orders db') = map (\<lambda>r. core (row_put oid r ve)) (pg_orders db)"
proof -
  obtain v e where ve: "ve = (v, e)" by (cases ve)
  have st: "map core (pg_orders db') = map (\<lambda>r. core (row_put oid r ve)) (pg_orders db)"
    if "set_status (Some oid) s f (Some v) now db = Inr db'"
      "\<And>r. or_order_id r = oid \<Longrightarrow> row_put oid r ve = (f r)\<lparr>or_status := s, or_version := v\<rparr>" for s f
    using that(2) by (intro update_orders_core [OF that(1) [unfolded set_status_def]])
      (auto simp: not_null_def core_def)
  show ?thesis
  proof (cases e)
    case (Created c m)
    then have "db' = db"
      using assms by (auto simp: ve insert_order_Inr)
    moreover have "row_put oid r ve = r" for r
      by (simp add: row_put_def ve Created)
    ultimately show ?thesis by simp
  next
    case (ItemAdded i)
    then obtain db1 where db1: "pg_orders db1 = pg_orders db" "set_total (Some oid) (Some v) now db1 = Inr db'"
      using assms(1) upsert_item_orders unfolding ve ItemAdded proj.simps bindR_Inr_iff by blast
    have "map core (pg_orders db') = map (\<lambda>r. core (row_put oid r ve)) (pg_orders db1)"
      by (rule update_orders_core [OF db1(2) [unfolded set_total_def]])
        (auto simp: bindR_Inr_iff not_null_def core_def row_put_def ve ItemAdded)
    then show ?thesis using db1(1) by simp
  next
    case Confirmed
    then show ?thesis
      using assms(1) by (intro st [of "''CONFIRMED''" "id"]) (simp_all add: ve row_put_def)
  next
    case (Paid p)
    then show ?thesis
      using assms(1) by (intro st [of "''PAID''" "\<lambda>r. r\<lparr>or_payment_id := Some p\<rparr>"]) (simp_all add: ve row_put_def)
  next
    case (Shipped t)
    then show ?thesis
      using assms(1) by (intro st [of "''SHIPPED''" "\<lambda>r. r\<lparr>or_tracking_id := Some t\<rparr>"]) (simp_all add: ve row_put_def)
  next
    case Delivered
    then show ?thesis
      using assms(1) by (intro st [of "''DELIVERED''" "id"]) (simp_all add: ve row_put_def)
  next
    case Cancelled
    then show ?thesis
      using assms(1) by (intro st [of "''CANCELLED''" "id"]) (simp_all add: ve row_put_def)
  qed
qed

lemma has_item_core: "has_item db oid pid \<longleftrightarrow> (\<exists>i \<in> set (pg_items db). ir_order_id i = oid \<and> ir_product_id i = pid)"
  by (auto simp: has_item_def)

lemma proj_items:
  assumes "proj oid now db (v, e) = Inr db'"
  shows "pg_items db' = (case e of
      ItemAdded i \<Rightarrow> put_items oid (it_product_id i) (it_product_name i) (it_quantity i)
        (round_scale 2 (float_val (it_unit_price i))) (line_cents i) db
    | _ \<Rightarrow> pg_items db)"
  using assms by (cases e)
    (auto simp: bindR_Inr_iff insert_order_Inr upsert_item_Inr set_total_def set_status_def
      update_orders_Inr line_cents_def split: if_splits)

section \<open>When the projection succeeds\<close>

text \<open>
  The total column holds the total as long as the line totals of all item events together fit:
  an item row carries the amount of one of the events of its product.
\<close>

definition product_cents :: "item list \<Rightarrow> string \<Rightarrow> rat" where
  "product_cents its pid = sum_list (map line_cents (filter (\<lambda>it. it_product_id it = pid) its))"

definition bounded :: "item list \<Rightarrow> string \<Rightarrow> pgdb \<Rightarrow> bool" where
  "bounded its oid db \<longleftrightarrow> (\<forall>i \<in> set (pg_items db). ir_order_id i = oid \<longrightarrow>
     0 \<le> ir_line_total i \<and> ir_line_total i \<le> product_cents its (ir_product_id i))"

lemma round_scale_nonneg: "0 \<le> q \<Longrightarrow> 0 \<le> round_scale s q"
  by (simp add: round_scale_def)

lemma line_cents_nonneg: "fits_item it \<Longrightarrow> 0 \<le> line_cents it"
  by (simp add: line_cents_def fits_item_def round_scale_nonneg)

lemma product_cents_member:
  assumes "it \<in> set its" and "\<And>x. x \<in> set its \<Longrightarrow> 0 \<le> line_cents x"
  shows "line_cents it \<le> product_cents its (it_product_id it)"
  unfolding product_cents_def
  by (rule member_le_sum_list) (use assms in auto)

lemma product_cents_sum:
  assumes "distinct ps" and "\<And>x. x \<in> set its \<Longrightarrow> 0 \<le> line_cents x"
  shows "sum_list (map (product_cents its) ps) \<le> sum_list (map line_cents its)"
  using assms(2)
proof (induction its)
  case Nil
  then show ?case by (simp add: product_cents_def)
next
  case (Cons it its)
  have "sum_list (map (\<lambda>p. if it_product_id it = p then line_cents it else 0) ps) =
      (if it_product_id it \<in> set ps then line_cents it else 0)"
    using assms(1) by (induction ps) auto
  then have one: "sum_list (map (\<lambda>p. if it_product_id it = p then line_cents it else 0) ps) \<le> line_cents it"
    using Cons.prems [of it] by simp
  have "sum_list (map (product_cents (it # its)) ps) =
      sum_list (map (\<lambda>p. (if it_product_id it = p then line_cents it else 0) + product_cents its p) ps)"
    by (intro arg_cong [where f = sum_list] map_cong) (auto simp: product_cents_def)
  also have "\<dots> = sum_list (map (\<lambda>p. if it_product_id it = p then line_cents it else 0) ps) +
      sum_list (map (product_cents its) ps)"
    by (simp add: sum_list_addf)
  also have "\<dots> \<le> line_cents it + sum_list (map line_cents its)"
    using one Cons by (intro add_mono) auto
  finally show ?case by simp
qed

lemma item_sum_bounded:
  assumes "keys_ok db" and "bounded its oid db" and "\<And>x. x \<in> set its \<Longrightarrow> 0 \<le> line_cents x"
  shows "0 \<le> item_sum db oid" and "item_sum db oid \<le> sum_list (map line_cents its)"
proof -
  let ?rows = "filter (\<lambda>i. ir_order_id i = oid) (pg_items db)"
  show "0 \<le> item_sum db oid"
    using assms(2) by (auto simp: item_sum_def bounded_def intro!: sum_list_nonneg)
  have "distinct (map (\<lambda>i. (ir_order_id i, ir_product_id i)) ?rows)"
    using assms(1) by (auto simp: keys_ok_def distinct_map intro: inj_on_subset)
  then have "distinct (map ir_product_id ?rows)"
    by (auto simp: distinct_map inj_on_def)
  then have "sum_list (map (product_cents its) (map ir_product_id ?rows)) \<le> sum_list (map line_cents its)"
    using assms(3) by (rule product_cents_sum)
  moreover have "item_sum db oid \<le> sum_list (map (\<lambda>i. product_cents its (ir_product_id i)) ?rows)"
    unfolding item_sum_def using assms(2) by (intro sum_list_mono) (auto simp: bounded_def)
  ultimately show "item_sum db oid \<le> sum_list (map line_cents its)"
    by (simp add: comp_def)
qed

lemma bounded_put_items:
  assumes "bounded its oid db" and "it \<in> set its" and "\<And>x. x \<in> set its \<Longrightarrow> 0 \<le> line_cents x"
  shows "bounded its oid (db\<lparr>pg_items := put_items oid (it_product_id it) name q price (line_cents it) db\<rparr>)"
  using assms(1) product_cents_member [OF assms(2,3)] assms(2,3)
  by (auto simp: bounded_def put_items_def put_item_total)

lemma update_orders_succeeds:
  "(\<And>r. \<exists>r'. f r = Inr r') \<Longrightarrow> \<exists>db'. update_orders oid f db = Inr db'"
  by (auto simp: update_orders_Inr)

lemma has_order_core: "map core (pg_orders db') = map core rs \<Longrightarrow> has_order db' = (\<lambda>x. x \<in> or_order_id ` set rs)"
proof -
  assume "map core (pg_orders db') = map core rs"
  then have "map or_order_id (map core (pg_orders db')) = map or_order_id (map core rs)" by simp
  then have "map or_order_id (pg_orders db') = map or_order_id rs" by (simp add: comp_def)
  from arg_cong [OF this, of set] show ?thesis by (auto simp: has_order_def fun_eq_iff)
qed

text \<open>One event: with the order present, or with its creation.\<close>

lemma proj_succeeds:
  assumes "rm_inv db" and "has_order db oid \<or> (\<exists>c m. e = Created c m)" and "fits (v, e)"
    and "bounded its oid db" and "\<And>it. e = ItemAdded it \<Longrightarrow> it \<in> set its"
    and "\<And>x. x \<in> set its \<Longrightarrow> 0 \<le> line_cents x" and "sum_list (map line_cents its) < 10 ^ 10"
  shows "\<exists>db'. proj oid now db (v, e) = Inr db'"
proof (cases e)
  case (ItemAdded it)
  let ?db1 = "db\<lparr>pg_items := put_items oid (it_product_id it) (it_product_name it) (it_quantity it)
    (round_scale 2 (float_val (it_unit_price it))) (line_cents it) db\<rparr>"
  have up: "upsert_item (Some oid) (Some (it_product_id it)) (Some (it_product_name it))
       (Some (it_quantity it)) (Some (float_val (it_unit_price it))) (Some (float_val (it_line_total it))) db =
      Inr ?db1"
    using assms(2,3) ItemAdded
    by (auto simp: upsert_item_Inr line_cents_def fits_item_def round_scale_nonneg)
  have keys: "keys_ok ?db1"
    using upsert_item_inv [OF up assms(1)] by simp
  have "bounded its oid ?db1"
    using assms(4,5,6) ItemAdded by (intro bounded_put_items) auto
  from item_sum_bounded [OF keys this assms(6)] have sum: "\<bar>item_sum ?db1 oid\<bar> < 10 ^ 10"
    using assms(7) by linarith
  have "numeric_col 12 2 (item_sum ?db1 oid) = Inr (item_sum ?db1 oid)"
    using sum round_scale_exact [OF item_sum_cents [OF keys]] by (simp add: numeric_col_Inr)
  then have "\<exists>db'. set_total (Some oid) (Some v) now ?db1 = Inr db'"
    by (auto simp: set_total_def update_orders_Inr not_null_def)
  then show ?thesis using up by (simp add: ItemAdded)
qed (use assms in \<open>auto simp: insert_order_Inr set_status_def not_null_def intro!: update_orders_succeeds\<close>)

section \<open>Streams of events of one order\<close>

text \<open>Events with the time each is projected at.\<close>

definition project_stream :: "string \<Rightarrow> pgdb \<Rightarrow> (rat \<times> int \<times> order_event) list \<Rightarrow> exn + pgdb" where
  "project_stream oid = foldR (\<lambda>db tve. proj oid (fst tve) db (snd tve))"

fun item_of :: "order_event \<Rightarrow> item list" where
  "item_of (ItemAdded i) = [i]"
| "item_of _ = []"

definition hist_items :: "(int \<times> order_event) list \<Rightarrow> item list" where
  "hist_items ves = concat (map (\<lambda>ve. item_of (snd ve)) ves)"

lemma hist_items_simps [simp]:
  "hist_items [] = []" "hist_items (ve # ves) = item_of (snd ve) @ hist_items ves"
  "hist_items (xs @ ys) = hist_items xs @ hist_items ys"
  by (simp_all add: hist_items_def)

lemma item_of_iff [simp]: "it \<in> set (item_of e) \<longleftrightarrow> e = ItemAdded it"
  by (cases e) auto

lemma hist_items_iff: "it \<in> set (hist_items ves) \<longleftrightarrow> (\<exists>v. (v, ItemAdded it) \<in> set ves)"
  by (force simp: hist_items_def)

lemma project_stream_Nil [simp]: "project_stream oid db [] = Inr db"
  by (simp add: project_stream_def)

lemma project_stream_snoc:
  "project_stream oid db (tves @ [tve]) =
     bindR (project_stream oid db tves) (\<lambda>db. proj oid (fst tve) db (snd tve))"
  by (auto simp: project_stream_def foldR_append bindR_def split: sum.splits)

lemma proj_inv:
  assumes "proj oid now db ve = Inr db'" and "rm_inv db"
  shows "rm_inv db'"
proof -
  obtain v e where ve: "ve = (v, e)" by (cases ve)
  show ?thesis
  proof (cases e)
    case (ItemAdded it)
    then obtain db1 where db1: "upsert_item (Some oid) (Some (it_product_id it)) (Some (it_product_name it))
       (Some (it_quantity it)) (Some (float_val (it_unit_price it))) (Some (float_val (it_line_total it))) db =
      Inr db1" "set_total (Some oid) (Some v) now db1 = Inr db'"
      using assms(1) by (auto simp: ve bindR_Inr_iff)
    show ?thesis
      using upsert_item_inv [OF db1(1) assms(2)] set_total_inv [OF db1(2)] by simp
  qed (use assms in \<open>auto simp: ve intro: insert_order_inv [OF _ assms(2)] set_status_inv [OF _ assms(2)]\<close>)
qed

lemma proj_has_order:
  assumes "proj oid now db ve = Inr db'" and "has_order db oid"
  shows "has_order db' oid"
proof -
  have "map core (pg_orders db') = map core (map (\<lambda>r. row_put oid r ve) (pg_orders db))"
    using proj_orders [OF assms] by (simp add: comp_def)
  from has_order_core [OF this] show ?thesis
    using assms(2) by (auto simp: has_order_def image_iff)
qed

lemma bounded_proj:
  assumes "proj oid now db (v, e) = Inr db'" and "bounded its oid db" and "set (item_of e) \<subseteq> set its"
    and "\<And>x. x \<in> set its \<Longrightarrow> 0 \<le> line_cents x"
  shows "bounded its oid db'"
proof (cases e)
  case (ItemAdded it)
  let ?db1 = "db\<lparr>pg_items := put_items oid (it_product_id it) (it_product_name it) (it_quantity it)
    (round_scale 2 (float_val (it_unit_price it))) (line_cents it) db\<rparr>"
  have "bounded its oid ?db1"
    using assms(2,3,4) ItemAdded by (intro bounded_put_items) auto
  moreover have "pg_items db' = pg_items ?db1"
    using proj_items [OF assms(1)] by (simp add: ItemAdded)
  ultimately show ?thesis by (simp add: bounded_def)
qed (use proj_items [OF assms(1)] assms(2) in \<open>simp_all add: bounded_def\<close>)

text \<open>An event with a key of its own leaves an item row alone.\<close>

lemma item_put_other:
  "(\<And>it. snd ve = ItemAdded it \<Longrightarrow> it_product_id it \<noteq> ir_product_id i) \<Longrightarrow> item_put oid i ve = i"
  by (cases "snd ve") (auto simp: item_put_def put_item_def)

lemma item_put_keys [simp]:
  "ir_order_id (item_put oid i ve) = ir_order_id i" "ir_product_id (item_put oid i ve) = ir_product_id i"
  by (cases "snd ve"; simp add: item_put_def)+

lemma item_foldl_keys [simp]:
  "ir_order_id (foldl (item_put oid) i ves) = ir_order_id i"
  "ir_product_id (foldl (item_put oid) i ves) = ir_product_id i"
  by (induction ves arbitrary: i) simp_all

lemma item_foldl_other:
  "(\<And>it. it \<in> set (hist_items ves) \<Longrightarrow> it_product_id it \<noteq> ir_product_id i) \<Longrightarrow>
     foldl (item_put oid) i ves = i"
proof (induction ves)
  case Nil
  then show ?case by simp
next
  case (Cons ve ves)
  have "item_put oid i ve = i"
    using Cons.prems by (intro item_put_other) auto
  then show ?case using Cons by simp
qed

text \<open>
  The tables after the events \<open>ves\<close> of an order: its row and its items are there, and hold
  what writing those events again would write.
\<close>

definition settled :: "string \<Rightarrow> (int \<times> order_event) list \<Rightarrow> pgdb \<Rightarrow> bool" where
  "settled oid ves db \<longleftrightarrow> rm_inv db \<and> has_order db oid \<and>
     (\<forall>r \<in> set (pg_orders db). foldl (row_put oid) (core r) ves = core r) \<and>
     (\<forall>i \<in> set (pg_items db). foldl (item_put oid) i ves = i) \<and>
     (\<forall>it \<in> set (hist_items ves). has_item db oid (it_product_id it))"

lemma settled_rows:
  assumes "\<forall>r \<in> set (pg_orders db). foldl (row_put oid) (core r) ves = core r"
    and "map core (pg_orders db') = map (\<lambda>r. core (row_put oid r ve)) (pg_orders db)"
    and "r' \<in> set (pg_orders db')"
  shows "foldl (row_put oid) (core r') (ves @ [ve]) = core r'"
proof -
  have "core r' \<in> set (map core (pg_orders db'))"
    using assms(3) by simp
  then obtain r where "r \<in> set (pg_orders db)" "core r' = row_put oid (core r) ve"
    unfolding assms(2) by (auto simp: core_row_put)
  then show ?thesis
    using row_writes.absorb_snoc [of oid "core r" ves ve] assms(1) by simp
qed

lemma settled_items:
  assumes "settled oid ves db" and "pg_items db' = put_items oid (it_product_id it) name (it_quantity it) price (line_cents it) db"
  shows "\<forall>i \<in> set (pg_items db'). foldl (item_put oid) i (ves @ [(v, ItemAdded it)]) = i"
proof
  let ?ve = "(v, ItemAdded it)"
  fix i' assume i': "i' \<in> set (pg_items db')"
  have fixed: "foldl (item_put oid) i ves = i" if "i \<in> set (pg_items db)" for i
    using that assms(1) by (simp add: settled_def)
  consider i where "i \<in> set (pg_items db)" "i' = item_put oid i ?ve"
    | "\<not> has_item db oid (it_product_id it)" "i' = \<lparr>ir_order_id = oid, ir_product_id = it_product_id it,
        ir_product_name = name, ir_quantity = it_quantity it, ir_unit_price = price, ir_line_total = line_cents it\<rparr>"
  proof (cases "has_item db oid (it_product_id it)")
    case True
    then show ?thesis
      using i' that(1) by (auto simp: assms(2) put_items_def item_put_def)
  next
    case False
    have "item_put oid i ?ve = i" if "i \<in> set (pg_items db)" for i
      using that False by (auto simp: item_put_def put_item_def has_item_core)
    then show ?thesis
      using i' False that by (auto simp: assms(2) put_items_def)
  qed
  then show "foldl (item_put oid) i' (ves @ [?ve]) = i'"
  proof cases
    case (1 i)
    then show ?thesis
      using item_writes.absorb_snoc [OF fixed [OF 1(1)]] by simp
  next
    case 2
    have "foldl (item_put oid) i' ves = i'"
      using 2 assms(1) by (intro item_foldl_other) (auto simp: settled_def)
    then show ?thesis
      using 2 by (simp add: item_put_def put_item_def)
  qed
qed

lemma settled_proj:
  assumes "settled oid ves db" and "proj oid now db (v, e) = Inr db'"
  shows "settled oid (ves @ [(v, e)]) db'"
proof -
  have inv: "rm_inv db'" and has: "has_order db' oid"
    using assms proj_inv proj_has_order by (auto simp: settled_def)
  have rows: "\<forall>r \<in> set (pg_orders db'). foldl (row_put oid) (core r) (ves @ [(v, e)]) = core r"
    using settled_rows proj_orders [OF assms(2)] assms(1) by (auto simp: settled_def simp del: foldl_append)
  have items: "(\<forall>i \<in> set (pg_items db'). foldl (item_put oid) i (ves @ [(v, e)]) = i) \<and>
      (\<forall>it \<in> set (hist_items (ves @ [(v, e)])). has_item db' oid (it_product_id it))"
  proof (cases "\<exists>it. e = ItemAdded it")
    case True
    then obtain it where e: "e = ItemAdded it" by blast
    then have db': "pg_items db' = put_items oid (it_product_id it) (it_product_name it) (it_quantity it)
        (round_scale 2 (float_val (it_unit_price it))) (line_cents it) db"
      using proj_items [OF assms(2)] by simp
    have "has_item db' oid p" if "has_item db oid p \<or> p = it_product_id it" for p
      using that by (auto simp: has_item_core db' put_items_def)
    then show ?thesis
      using settled_items [OF assms(1) db'] assms(1) by (auto simp: settled_def e)
  next
    case False
    then have "pg_items db' = pg_items db" "item_of e = []" "\<And>i. item_put oid i (v, e) = i"
      using proj_items [OF assms(2)] by (cases e; simp add: item_put_def)+
    then show ?thesis
      using assms(1) by (auto simp: settled_def has_item_def)
  qed
  show ?thesis
    using inv has rows items by (simp add: settled_def)
qed

lemma settled_created:
  assumes "rm_inv db" and "\<not> has_order db oid"
    and "proj oid now db (v, Created c m) = Inr db'"
  shows "settled oid [(v, Created c m)] db'" and "db' = db\<lparr>pg_orders := pg_orders db @ [new_row oid c m v now]\<rparr>"
proof -
  show db': "db' = db\<lparr>pg_orders := pg_orders db @ [new_row oid c m v now]\<rparr>"
    using assms(2,3) by (auto simp: insert_order_Inr)
  have "row_put oid r (v, Created c m) = r" "item_put oid i (v, Created c m) = i" for r i
    by (simp_all add: row_put_def item_put_def)
  then show "settled oid [(v, Created c m)] db'"
    using proj_inv [OF assms(3,1)] by (simp add: settled_def has_order_def db')
qed

section \<open>What the read model shows of an order\<close>

definition row_shows :: "order_state \<Rightarrow> order_row \<Rightarrow> bool" where
  "row_shows s r \<longleftrightarrow> or_status r = order_status_value (os_status s) \<and> or_version r = os_version s \<and>
     or_customer_id r = os_customer_id s \<and> or_customer_email r = os_customer_email s \<and>
     or_payment_id r = os_payment_id s \<and> or_tracking_id r = os_tracking_id s"

definition item_row_of :: "string \<Rightarrow> item \<Rightarrow> item_row" where
  "item_row_of oid it =
     \<lparr>ir_order_id = oid, ir_product_id = it_product_id it, ir_product_name = it_product_name it,
      ir_quantity = it_quantity it, ir_unit_price = round_scale 2 (float_val (it_unit_price it)),
      ir_line_total = line_cents it\<rparr>"

text \<open>The rows of a list of items: a product that occurs again overwrites quantity and total.\<close>

definition add_item_row :: "string \<Rightarrow> item_row list \<Rightarrow> item \<Rightarrow> item_row list" where
  "add_item_row oid rows it =
     (if \<exists>row \<in> set rows. ir_product_id row = it_product_id it
      then map (put_item oid (it_product_id it) (it_quantity it) (line_cents it)) rows
      else rows @ [item_row_of oid it])"

definition item_rows :: "string \<Rightarrow> item list \<Rightarrow> item_row list" where
  "item_rows oid its = foldl (add_item_row oid) [] its"

definition shows_order :: "string \<Rightarrow> order_state \<Rightarrow> pgdb \<Rightarrow> bool" where
  "shows_order oid s db \<longleftrightarrow>
     (\<exists>r. filter (\<lambda>r. or_order_id r = oid) (pg_orders db) = [r] \<and> row_shows s r \<and>
        or_total_amount r = sum_list (map ir_line_total (item_rows oid (os_items s)))) \<and>
     filter (\<lambda>i. ir_order_id i = oid) (pg_items db) = item_rows oid (os_items s)"

lemma row_shows_core: "core r = core r' \<Longrightarrow> row_shows s r \<longleftrightarrow> row_shows s r'"
proof -
  assume "core r = core r'"
  then have "or_status (core r) = or_status (core r')" "or_version (core r) = or_version (core r')"
    "or_customer_id (core r) = or_customer_id (core r')" "or_customer_email (core r) = or_customer_email (core r')"
    "or_payment_id (core r) = or_payment_id (core r')" "or_tracking_id (core r) = or_tracking_id (core r')"
    by simp_all
  then show ?thesis by (simp add: row_shows_def core_def)
qed

lemma row_shows_put:
  assumes "row_shows s r" and "or_order_id r = oid" and "\<And>c m. snd ve \<noteq> Created c m"
  shows "row_shows (order_apply s ve) (row_put oid r ve)"
  using assms by (cases "snd ve") (auto simp: row_shows_def row_put_def order_apply_def)

lemma put_items_rows:
  "filter (\<lambda>i. ir_order_id i = oid) (put_items oid (it_product_id it) (it_product_name it) (it_quantity it)
     (round_scale 2 (float_val (it_unit_price it))) (line_cents it) db) =
   add_item_row oid (filter (\<lambda>i. ir_order_id i = oid) (pg_items db)) it"
  by (auto simp: put_items_def add_item_row_def item_row_of_def has_item_core filter_map comp_def)

text \<open>When no product is added twice, the rows are the items.\<close>

lemma item_rows_distinct:
  "distinct (map it_product_id its) \<Longrightarrow> item_rows oid its = map (item_row_of oid) its"
proof (induction its rule: rev_induct)
  case Nil
  then show ?case by (simp add: item_rows_def)
next
  case (snoc it its)
  then have "item_rows oid (its @ [it]) = add_item_row oid (map (item_row_of oid) its) it"
    by (simp add: item_rows_def)
  then show ?case
    using snoc.prems by (auto simp: add_item_row_def item_row_of_def image_iff)
qed

lemma order_items_step: "os_items (order_apply s (v, e)) = os_items s @ item_of e"
  by (cases e) (simp_all add: order_apply_def)

lemma filter_core:
  assumes "map core xs = map (\<lambda>r. core (row_put oid r ve)) ys"
    and "filter (\<lambda>r. or_order_id r = oid) ys = [r]"
  shows "\<exists>r'. filter (\<lambda>r. or_order_id r = oid) xs = [r'] \<and> core r' = core (row_put oid r ve)"
proof -
  have "map core (filter (\<lambda>r. or_order_id r = oid) xs) = filter (\<lambda>r. or_order_id r = oid) (map core xs)"
    by (simp add: filter_map comp_def)
  also have "\<dots> = filter (\<lambda>r. or_order_id r = oid) (map (\<lambda>r. core (row_put oid r ve)) ys)"
    by (simp only: assms(1))
  also have "\<dots> = map (\<lambda>r. core (row_put oid r ve)) (filter (\<lambda>r. or_order_id r = oid) ys)"
    by (simp add: filter_map comp_def)
  finally show ?thesis
    using assms(2) by auto
qed

lemma shows_order_step:
  assumes "shows_order oid s db" and "proj oid now db (v, e) = Inr db'" and "rm_inv db"
    and "\<And>c m. e \<noteq> Created c m"
  shows "shows_order oid (order_apply s (v, e)) db'"
proof -
  obtain r where r: "filter (\<lambda>r. or_order_id r = oid) (pg_orders db) = [r]" "row_shows s r"
    "filter (\<lambda>i. ir_order_id i = oid) (pg_items db) = item_rows oid (os_items s)"
    using assms(1) by (auto simp: shows_order_def)
  have id: "or_order_id r = oid" and "r \<in> set (pg_orders db)"
    using arg_cong [OF r(1), of set] by auto
  then have "has_order db oid" by (auto simp: has_order_def)
  from filter_core [OF proj_orders [OF assms(2) this] r(1)] obtain r' where
    r': "filter (\<lambda>r. or_order_id r = oid) (pg_orders db') = [r']" "core r' = core (row_put oid r (v, e))"
    by blast
  have row: "row_shows (order_apply s (v, e)) r'"
    using row_shows_put [OF r(2) id, of "(v, e)"] row_shows_core [OF r'(2)] assms(4) by simp
  have items: "filter (\<lambda>i. ir_order_id i = oid) (pg_items db') = item_rows oid (os_items (order_apply s (v, e)))"
    unfolding order_items_step proj_items [OF assms(2)]
    by (cases e) (simp_all add: put_items_rows r(3) item_rows_def)
  have "r' \<in> set (pg_orders db')" "or_order_id r' = oid"
    using arg_cong [OF r'(1), of set] by auto
  then have "or_total_amount r' = item_sum db' oid"
    using proj_inv [OF assms(2,3)] by (auto simp: rm_inv_def totals_ok_def)
  then show ?thesis
    using r'(1) row items by (simp add: shows_order_def item_sum_def)
qed

text \<open>The amounts of an order's item events, and the bound on them.\<close>

definition amounts_fit :: "(int \<times> order_event) list \<Rightarrow> bool" where
  "amounts_fit ves \<longleftrightarrow> (\<forall>ve \<in> set ves. fits ve) \<and> sum_list (map line_cents (hist_items ves)) < 10 ^ 10"

lemma amounts_fit_items:
  assumes "amounts_fit ves" and "it \<in> set (hist_items ves)"
  shows "0 \<le> line_cents it"
proof -
  obtain v where "(v, ItemAdded it) \<in> set ves"
    using assms(2) by (auto simp: hist_items_iff)
  then have "fits (v, ItemAdded it)"
    using assms(1) unfolding amounts_fit_def by blast
  then show ?thesis by (simp add: line_cents_nonneg)
qed

lemma shows_order_created:
  assumes "rm_inv db" and "\<not> has_order db oid" and "proj oid now db (v, Created c m) = Inr db'"
  shows "shows_order oid (order_apply order_init (v, Created c m)) db'"
proof -
  have "filter (\<lambda>i. ir_order_id i = oid) (pg_items db) = []"
    using assms(1,2) by (auto simp: rm_inv_def keys_ok_def filter_empty_conv)
  moreover have "filter (\<lambda>r. or_order_id r = oid) (pg_orders db) = []"
    using assms(2) by (auto simp: has_order_def filter_empty_conv)
  ultimately show ?thesis
    unfolding settled_created(2) [OF assms]
    by (simp add: shows_order_def row_shows_def new_row_def order_apply_def order_init_def item_rows_def)
qed

text \<open>A step of a valid history: the creation comes first, everything else later.\<close>

lemma valid_step:
  assumes "valid_history (ves @ [(v, e)])"
  shows "valid_history ves" and "ves = [] \<longleftrightarrow> (\<exists>c m. e = Created c m)"
proof -
  have adm: "valid_history ves" "admits (order_run order_init ves) e"
    using assms by (auto simp: valid_from_snoc)
  then show "valid_history ves" by simp
  have "os_version (order_run order_init ves) = int (length ves)"
    using valid_from_run_version [OF adm(1)] by simp
  then show "ves = [] \<longleftrightarrow> (\<exists>c m. e = Created c m)"
    using adm(2) by (cases e) auto
qed

lemma project_history:
  assumes "rm_inv db0" and "\<not> has_order db0 oid"
    and "amounts_fit all" and "prefix (map snd tves) all" and "valid_history (map snd tves)" and "tves \<noteq> []"
  shows "\<exists>db. project_stream oid db0 tves = Inr db \<and> settled oid (map snd tves) db \<and>
    shows_order oid (order_run order_init (map snd tves)) db \<and> bounded (hist_items all) oid db"
  using assms(4,5,6)
proof (induction tves rule: rev_induct)
  case Nil
  then show ?case by simp
next
  case (snoc tve tves)
  obtain t v e where tve: "tve = (t, v, e)" by (cases tve)
  let ?its = "hist_items all" and ?ves = "map snd tves"
  have pre: "prefix ?ves all" "(v, e) \<in> set all"
    using snoc.prems(1) by (auto simp: tve prefix_def)
  have ok: "fits (v, e)" "\<And>x. x \<in> set ?its \<Longrightarrow> 0 \<le> line_cents x" "sum_list (map line_cents ?its) < 10 ^ 10"
    "\<And>it. e = ItemAdded it \<Longrightarrow> it \<in> set ?its" "set (item_of e) \<subseteq> set ?its"
    using assms(3) pre(2) amounts_fit_items [OF assms(3)] by (auto simp: amounts_fit_def hist_items_iff)
  have val: "valid_history ?ves" "?ves = [] \<longleftrightarrow> (\<exists>c m. e = Created c m)"
    using valid_step [of ?ves v e] snoc.prems(2) by (simp_all add: tve)
  show ?case
  proof (cases "tves = []")
    case True
    then obtain c m where e: "e = Created c m" using val(2) by auto
    obtain db where db: "proj oid t db0 (v, e) = Inr db"
      by (auto simp: e insert_order_Inr)
    have "bounded ?its oid db0"
      using assms(1,2) by (auto simp: bounded_def rm_inv_def keys_ok_def)
    then have "bounded ?its oid db"
      using bounded_proj [OF db] ok by simp
    then show ?thesis
      using settled_created(1) [OF assms(1,2)] shows_order_created [OF assms(1,2)] db
      by (simp add: True tve e project_stream_def)
  next
    case False
    then obtain db where db: "project_stream oid db0 tves = Inr db" "settled oid ?ves db"
      "shows_order oid (order_run order_init ?ves) db" "bounded ?its oid db"
      using snoc.IH pre(1) val(1) by blast
    have "rm_inv db" "has_order db oid" using db(2) by (auto simp: settled_def)
    then obtain db' where db': "proj oid t db (v, e) = Inr db'"
      using proj_succeeds [of db oid e v ?its t] ok db(4) by blast
    have "\<And>c m. e \<noteq> Created c m" using val(2) False by auto
    then show ?thesis
      using db db' settled_proj [OF db(2) db'] shows_order_step [OF db(3) db' \<open>rm_inv db\<close>]
        bounded_proj [OF db' db(4)] ok
      by (simp add: tve project_stream_snoc order_run_append)
  qed
qed

section \<open>Replaying a whole history\<close>

definition replayed :: "string \<Rightarrow> (int \<times> order_event) list \<Rightarrow> pgdb \<Rightarrow> pgdb \<Rightarrow> bool" where
  "replayed oid ves db db' \<longleftrightarrow>
     map core (pg_orders db') = map (\<lambda>r. foldl (row_put oid) (core r) ves) (pg_orders db) \<and>
     pg_items db' = map (\<lambda>i. foldl (item_put oid) i ves) (pg_items db)"

lemma replayed_step:
  assumes "replayed oid ves db db1" and "proj oid now db1 (v, e) = Inr db2" and "has_order db1 oid"
    and "\<And>it. e = ItemAdded it \<Longrightarrow> has_item db oid (it_product_id it)"
  shows "replayed oid (ves @ [(v, e)]) db db2"
proof -
  have before: "map core (pg_orders db1) = map (\<lambda>r. foldl (row_put oid) (core r) ves) (pg_orders db)"
    using assms(1) by (simp add: replayed_def)
  have "map core (pg_orders db2) = map (\<lambda>r. row_put oid r (v, e)) (map core (pg_orders db1))"
    using proj_orders [OF assms(2,3)] by (simp add: core_row_put)
  then have rows: "map core (pg_orders db2) = map (\<lambda>r. foldl (row_put oid) (core r) (ves @ [(v, e)])) (pg_orders db)"
    unfolding before by simp
  have "pg_items db2 = map (\<lambda>i. item_put oid i (v, e)) (pg_items db1)"
  proof (cases "\<exists>it. e = ItemAdded it")
    case True
    then obtain it where e: "e = ItemAdded it" by blast
    then have "has_item db1 oid (it_product_id it)"
      using assms(1,4) by (auto simp: has_item_core replayed_def)
    then show ?thesis
      using proj_items [OF assms(2)] by (simp add: e put_items_def item_put_def)
  next
    case False
    then have "pg_items db2 = pg_items db1" "\<And>i. item_put oid i (v, e) = i"
      using proj_items [OF assms(2)] by (cases e; simp add: item_put_def)+
    then show ?thesis by simp
  qed
  then show ?thesis
    using rows assms(1) by (simp add: replayed_def comp_def)
qed

lemma replay_prefix:
  assumes "settled oid all db" and "bounded (hist_items all) oid db" and "amounts_fit all"
    and "prefix (map snd tves) all"
  shows "\<exists>db'. project_stream oid db tves = Inr db' \<and> rm_inv db' \<and> has_order db' oid \<and>
    bounded (hist_items all) oid db' \<and> replayed oid (map snd tves) db db'"
  using assms(4)
proof (induction tves rule: rev_induct)
  case Nil
  then show ?case using assms by (simp add: settled_def replayed_def)
next
  case (snoc tve tves)
  obtain t v e where tve: "tve = (t, v, e)" by (cases tve)
  let ?its = "hist_items all"
  have pre: "prefix (map snd tves) all" "(v, e) \<in> set all"
    using snoc.prems by (auto simp: tve prefix_def)
  have ok: "fits (v, e)" "\<And>x. x \<in> set ?its \<Longrightarrow> 0 \<le> line_cents x" "sum_list (map line_cents ?its) < 10 ^ 10"
    "\<And>it. e = ItemAdded it \<Longrightarrow> it \<in> set ?its" "set (item_of e) \<subseteq> set ?its"
    using assms(3) pre(2) amounts_fit_items [OF assms(3)] by (auto simp: amounts_fit_def hist_items_iff)
  obtain db1 where db1: "project_stream oid db tves = Inr db1" "rm_inv db1" "has_order db1 oid"
    "bounded ?its oid db1" "replayed oid (map snd tves) db db1"
    using snoc.IH [OF pre(1)] by blast
  then obtain db2 where db2: "proj oid t db1 (v, e) = Inr db2"
    using proj_succeeds [of db1 oid e v ?its t] ok by blast
  have "has_item db oid (it_product_id it)" if "e = ItemAdded it" for it
    using assms(1) ok(4) [OF that] by (auto simp: settled_def)
  then show ?case
    using db1 db2 proj_inv [OF db2] proj_has_order [OF db2] bounded_proj [OF db2] ok
      replayed_step [OF db1(5) db2] by (simp add: tve project_stream_snoc)
qed

lemma rows_by_core:
  assumes "map core xs = map core ys" and "list_all2 (\<lambda>x y. or_total_amount x = or_total_amount y) xs ys"
  shows "map (\<lambda>r. r\<lparr>or_updated_at := None\<rparr>) xs = map (\<lambda>r. r\<lparr>or_updated_at := None\<rparr>) ys"
  using assms(2,1)
proof (induction rule: list_all2_induct)
  case Nil
  then show ?case by simp
next
  case (Cons x xs y ys)
  then have "core x = core y" "or_total_amount x = or_total_amount y" by simp_all
  then have "x\<lparr>or_updated_at := None\<rparr> = y\<lparr>or_updated_at := None\<rparr>"
    by (cases x; cases y) (simp add: core_def)
  then show ?case using Cons by simp
qed

lemma replay_same:
  assumes "settled oid ves db" and "replayed oid ves db db'" and "rm_inv db'"
  shows "strip_time db' = strip_time db"
proof -
  have items: "pg_items db' = pg_items db" and rows: "map core (pg_orders db') = map core (pg_orders db)"
    using assms(1,2) by (auto simp: settled_def replayed_def map_idI)
  have len: "length (pg_orders db') = length (pg_orders db)"
    using arg_cong [OF rows, of length] by simp
  have "list_all2 (\<lambda>x y. or_total_amount x = or_total_amount y) (pg_orders db') (pg_orders db)"
  proof (rule list_all2_all_nthI [OF len])
    fix n assume n: "n < length (pg_orders db')"
    have "or_order_id (map core (pg_orders db') ! n) = or_order_id (map core (pg_orders db) ! n)"
      using rows by simp
    then have "or_order_id (pg_orders db' ! n) = or_order_id (pg_orders db ! n)"
      using n len by simp
    then show "or_total_amount (pg_orders db' ! n) = or_total_amount (pg_orders db ! n)"
      using assms(1,3) n len item_sum_cong [OF items] nth_mem
      by (auto simp: settled_def rm_inv_def totals_ok_def)
  qed
  from rows_by_core [OF rows this] show ?thesis
    using items by (simp add: strip_time_def)
qed

section \<open>Streams of documents\<close>

definition project_docs :: "pg_codec \<Rightarrow> pgdb \<Rightarrow> (rat \<times> pydict) list \<Rightarrow> exn + pgdb" where
  "project_docs A = foldR (\<lambda>db td. project_doc A (snd td) (fst td) db)"

text \<open>The typed events of a list of documents, in the order of the list.\<close>

definition typed_events :: "(rat \<times> pydict) list \<Rightarrow> (int \<times> order_event) list" where
  "typed_events tds = map (\<lambda>td. the (decode (snd td))) tds"

definition stream_of :: "string \<Rightarrow> (rat \<times> pydict) list \<Rightarrow> bool" where
  "stream_of oid tds \<longleftrightarrow> (\<forall>td \<in> set tds. decode (snd td) \<noteq> None \<and>
     map_of (snd td) ''aggregate_id'' = Some (PStr oid))"

context codec_laws
begin

lemma project_docs_typed:
  assumes "stream_of oid tds" and "text_ok oid" and "\<forall>ve \<in> set (typed_events tds). fits ve"
  shows "project_docs A db tds = project_stream oid db (map (\<lambda>td. (fst td, the (decode (snd td)))) tds)"
  using assms
proof (induction tds arbitrary: db)
  case Nil
  then show ?case by (simp add: project_docs_def)
next
  case (Cons td tds)
  have "project_doc A (snd td) (fst td) db = proj oid (fst td) db (the (decode (snd td)))"
    using Cons.prems by (intro project_doc_typed) (auto simp: stream_of_def typed_events_def)
  moreover have "project_docs A db' tds = project_stream oid db' (map (\<lambda>td. (fst td, the (decode (snd td)))) tds)" for db'
    using Cons by (auto simp: stream_of_def typed_events_def)
  ultimately show ?case
    by (simp add: project_docs_def project_stream_def)
qed

lemma project_docs_history:
  assumes "stream_of oid tds" and "text_ok oid" and "tds \<noteq> []" and "rm_inv db0" and "\<not> has_order db0 oid"
    and "valid_history (typed_events tds)" and "amounts_fit (typed_events tds)"
  shows "\<exists>db. project_docs A db0 tds = Inr db \<and> settled oid (typed_events tds) db \<and>
    shows_order oid (order_run order_init (typed_events tds)) db \<and>
    bounded (hist_items (typed_events tds)) oid db"
proof -
  let ?tves = "map (\<lambda>td. (fst td, the (decode (snd td)))) tds"
  have "map snd ?tves = typed_events tds" by (simp add: typed_events_def)
  then show ?thesis
    using project_history [OF assms(4,5,7), of ?tves] assms project_docs_typed [OF assms(1,2)]
    by (simp add: amounts_fit_def)
qed

lemma project_docs_replay:
  assumes "stream_of oid tds" and "text_ok oid" and "amounts_fit (typed_events tds)"
    and "settled oid (typed_events tds) db" and "bounded (hist_items (typed_events tds)) oid db"
  shows "\<exists>db'. project_docs A db tds = Inr db' \<and> strip_time db' = strip_time db"
proof -
  let ?tves = "map (\<lambda>td. (fst td, the (decode (snd td)))) tds"
  have all: "map snd ?tves = typed_events tds" by (simp add: typed_events_def)
  then obtain db' where "project_stream oid db ?tves = Inr db'" "rm_inv db'" "replayed oid (typed_events tds) db db'"
    using replay_prefix [OF assms(4,5,3), of ?tves] by auto
  then show ?thesis
    using project_docs_typed [OF assms(1,2)] replay_same [OF assms(4)] assms(3)
    by (auto simp: amounts_fit_def)
qed

end

section \<open>Properties\<close>

text \<open>
  C11. The read model refines the order: projecting the events of an order, in version order,
  into tables that do not have the order succeeds, keeps the invariant, and yields exactly one
  row for it, whose status, version, customer, payment and tracking number are those of the
  state the history denotes; the item rows are the order's items (a product added again
  overwrites quantity and line total), and the total is their sum.  Required: a valid history,
  values within the columns, and amounts that together stay below 10 to the power 10.
\<close>

theorem read_model_refines_order:
  assumes "codec_laws A" and "stream_of oid tds" and "text_ok oid" and "tds \<noteq> []"
    and "rm_inv db0" and "\<not> has_order db0 oid"
    and "valid_history (typed_events tds)" and "amounts_fit (typed_events tds)"
  shows "\<exists>db. project_docs A db0 tds = Inr db \<and> rm_inv db \<and>
    shows_order oid (order_run order_init (typed_events tds)) db"
  using codec_laws.project_docs_history [OF assms] by (auto simp: settled_def)

text \<open>
  The stream can be replayed: projecting the whole history of an order a second time, at any
  times, from the tables the first pass left, succeeds and restores every row and item of the
  tables, up to \<open>updated_at\<close>; a consumer that starts over from the earliest offset ends in the
  same read model.
\<close>

theorem read_model_survives_replay:
  assumes "codec_laws A" and "stream_of oid tds" and "text_ok oid" and "tds \<noteq> []"
    and "rm_inv db0" and "\<not> has_order db0 oid"
    and "valid_history (typed_events tds)" and "amounts_fit (typed_events tds)"
    and "map snd tds' = map snd tds"
  shows "\<exists>db db'. project_docs A db0 tds = Inr db \<and> project_docs A db tds' = Inr db' \<and>
    strip_time db' = strip_time db"
proof -
  have ty: "typed_events tds' = typed_events tds"
    using arg_cong [OF assms(9), of "map (\<lambda>d. the (decode d))"] by (simp add: typed_events_def comp_def)
  have "stream_of oid xs \<longleftrightarrow> (\<forall>d \<in> set (map snd xs). decode d \<noteq> None \<and>
      map_of d ''aggregate_id'' = Some (PStr oid))" for xs :: "(rat \<times> pydict) list"
    by (auto simp: stream_of_def)
  then have "stream_of oid tds'"
    using assms(2) by (simp only: assms(9))
  then show ?thesis
    using codec_laws.project_docs_history [OF assms(1-8)]
      codec_laws.project_docs_replay [OF assms(1) _ assms(3), of tds'] assms(8) ty by fastforce
qed

text \<open>An order that is created, gets two items, and is confirmed.\<close>

definition sample_stream :: "(rat \<times> pydict) list" where
  "sample_stream = [(1, sample_created), (2, sample_item 2 ''x'' 3 5), (3, sample_item 3 ''y'' 1 7),
     (4, sample_confirmed 4)]"

definition sample_it :: "string \<Rightarrow> int \<Rightarrow> int \<Rightarrow> item" where
  "sample_it p q u = \<lparr>it_product_id = p, it_product_name = ''thing'', it_quantity = q,
     it_unit_price = Fin (of_int u), it_line_total = Fin (of_int (q * u))\<rparr>"

lemma sample_decode [simp]:
  "decode sample_created = Some (1, Created ''cust'' ''a@b'')"
  "decode (sample_item v p q u) = Some (v, ItemAdded (sample_it p q u))"
  "decode (sample_confirmed v) = Some (v, Confirmed)"
  "decode (sample_paid v) = Some (v, Paid ''p'')"
  by (simp_all add: sample_defs decode_model_dump decode_payload_def decode_item_def decode_str_def sample_it_def)

lemma sample_agg_id [simp]:
  "map_of sample_created ''aggregate_id'' = Some (PStr ''o1'')"
  "map_of (sample_item v p q u) ''aggregate_id'' = Some (PStr ''o1'')"
  "map_of (sample_confirmed v) ''aggregate_id'' = Some (PStr ''o1'')"
  "map_of (sample_paid v) ''aggregate_id'' = Some (PStr ''o1'')"
  by (simp_all add: sample_defs dict_simps)

lemma sample_typed:
  "typed_events sample_stream = [(1, Created ''cust'' ''a@b''), (2, ItemAdded (sample_it ''x'' 3 5)),
     (3, ItemAdded (sample_it ''y'' 1 7)), (4, Confirmed)]"
  by (simp add: typed_events_def sample_stream_def)

lemma sample_stream_ok:
  "stream_of ''o1'' sample_stream" "text_ok ''o1''" "sample_stream \<noteq> []"
  "valid_history (typed_events sample_stream)" "amounts_fit (typed_events sample_stream)"
  by (simp_all add: sample_typed) (simp_all add: stream_of_def sample_stream_def text_ok_def
      order_apply_def order_init_def amounts_fit_def fits_item_def int4_def sample_it_def line_cents_def)

abbreviation no_rows :: pgdb where
  "no_rows \<equiv> \<lparr>pg_orders = [], pg_items = []\<rparr>"

lemma no_rows_inv: "rm_inv no_rows" "\<not> has_order no_rows oid"
  by (simp_all add: rm_inv_def keys_ok_def totals_ok_def has_order_def)

theorem read_model_refines_order_witness:
  "\<exists>db. project_docs mem_codec no_rows sample_stream = Inr db \<and>
     shows_order ''o1'' (order_run order_init (typed_events sample_stream)) db"
  using read_model_refines_order [OF mem_codec.codec_laws_axioms sample_stream_ok(1-3) no_rows_inv
      sample_stream_ok(4,5)] by blast

theorem read_model_survives_replay_witness:
  "\<exists>db db'. project_docs mem_codec no_rows sample_stream = Inr db \<and>
     project_docs mem_codec db sample_stream = Inr db' \<and> strip_time db' = strip_time db"
  using read_model_survives_replay [OF mem_codec.codec_laws_axioms sample_stream_ok(1-3) no_rows_inv
      sample_stream_ok(4,5) refl] by blast

definition late_stream :: "(rat \<times> pydict) list" where
  "late_stream = [(1, sample_created), (2, sample_item 2 ''x'' 3 5), (3, sample_confirmed 3), (4, sample_paid 4),
     (5, sample_confirmed 3)]"

text \<open>
  C33. The projection has no version guard: an event that is delivered again after later ones
  (from the dead letter queue, for instance) takes the read model back.  After a payment, the
  redelivered confirmation shows the order as confirmed at version 3, while the order is paid
  at version 4.
\<close>

theorem late_redelivery_regresses:
  "(\<exists>db. project_docs mem_codec no_rows late_stream = Inr db \<and>
     map (\<lambda>r. (or_status r, or_version r)) (pg_orders db) = [(''CONFIRMED'', 3)]) \<and>
   os_status (order_run order_init (typed_events (butlast late_stream))) = PAID \<and>
   os_version (order_run order_init (typed_events (butlast late_stream))) = 4"
proof -
  have "map (\<lambda>td. (fst td, the (decode (snd td)))) late_stream =
      [(1, 1, Created ''cust'' ''a@b''), (2, 2, ItemAdded (sample_it ''x'' 3 5)), (3, 3, Confirmed),
       (4, 4, Paid ''p''), (5, 3, Confirmed)]"
    by (simp add: late_stream_def)
  moreover have "stream_of ''o1'' late_stream" "text_ok ''o1''" "\<forall>ve \<in> set (typed_events late_stream). fits ve"
    by (simp_all add: late_stream_def stream_of_def text_ok_def typed_events_def fits_item_def int4_def sample_it_def)
  ultimately have "project_docs mem_codec no_rows late_stream = project_stream ''o1'' no_rows
      [(1, 1, Created ''cust'' ''a@b''), (2, 2, ItemAdded (sample_it ''x'' 3 5)), (3, 3, Confirmed),
       (4, 4, Paid ''p''), (5, 3, Confirmed)]"
    using mem_codec.project_docs_typed [of "''o1''" late_stream] by simp
  then show ?thesis
    by (simp add: project_stream_def insert_order_def not_null_def numeric_col_def has_order_def
        upsert_item_def has_item_def set_total_def set_status_def update_orders_def item_sum_def
        sample_it_def Let_def typed_events_def late_stream_def order_apply_def)
qed

definition twice_stream :: "(rat \<times> pydict) list" where
  "twice_stream = [(1, sample_created), (2, sample_item 2 ''x'' 3 5), (3, sample_item 3 ''x'' 1 5)]"


end
