(* ===== verification/Consumer.thy ===== *)
theory Consumer
  imports Event_Store Publisher Projection
begin

text \<open>
  The projection consumer (\<open>consumers/main.py\<close>): what it does with each message of the topic
  -- deduplicate, project, invalidate the cache, mark as processed, schedule expiry, commit --
  and where it sends an event whose projection fails.  The libraries it uses are the record
  \<open>consumer_env\<close>: the JSON codec, the text of a value in an f-string and of an exception, and
  the clients of PostgreSQL, Redis, MongoDB, SQS and Kafka.  Messages come from
  any number of partitions; the positions of the consumer are threaded through the loop.
\<close>

section \<open>Messages and clients\<close>

record kafka_msg =
  km_value :: string
  km_partition :: nat
  km_offset :: nat

record 'w consumer_env =
  ce_settings :: settings
  ce_loads :: "string \<Rightarrow> exn + pyval"
  ce_dumps :: "pyval \<Rightarrow> exn + string"
  ce_format :: "pyval \<Rightarrow> string"
  ce_exc_str :: "exn \<Rightarrow> string"
  ce_retry :: "'w tenacity"
  ce_env :: "'w pyenv"
  ce_acquire :: "('w, unit) io"
  ce_pool :: "'w pg_pool"
  ce_redis :: "'w redis_client"
  ce_store :: "'w mongo_collection"
  ce_send_message :: "string \<Rightarrow> string \<Rightarrow> (string \<times> pyval) list \<Rightarrow> ('w, unit) io"
  ce_commit :: "positions \<Rightarrow> ('w, unit) io"

section \<open>Operations\<close>

definition dlq_body :: "pydict \<Rightarrow> string \<Rightarrow> pyval" where
  "dlq_body event error =
     PDict [(''event'', PDict event), (''error'', PStr error),
            (''retry_count'', dict_get event ''retry_count'' (PInt 0))]"

definition send_to_dlq :: "'w consumer_env \<Rightarrow> pydict \<Rightarrow> string \<Rightarrow> ('w, unit) io" where
  "send_to_dlq D event error =
     tryM
       (bindM (liftM (ce_dumps D (dlq_body event error))) (\<lambda>body.
        ce_send_message D (sqs_dlq_url (ce_settings D)) body
          [(''order_id'', dict_get event ''aggregate_id'' (PStr ''unknown'')),
           (''event_type'', dict_get event ''event_type'' (PStr ''unknown''))]))
       (\<lambda>e. returnM ())"

definition invalidate_cache :: "'w consumer_env \<Rightarrow> pyval \<Rightarrow> ('w, unit) io" where
  "invalidate_cache D order_id = redis_delete (ce_redis D) (''order:'' @ ce_format D order_id)"

text \<open>The body of the \<open>try\<close>: everything from the projection to the commit.\<close>

definition process_event :: "'w consumer_env \<Rightarrow> pydict \<Rightarrow> positions \<Rightarrow> ('w, unit) io" where
  "process_event D event pos =
     (let order_id = dict_get event ''aggregate_id'' (PStr ''unknown'');
          event_id = dict_get event ''event_id'' PNone;
          etype = dict_get event ''event_type'' PNone
      in bindM (ce_acquire D) (\<lambda>_.
         bindM (project_to_postgres (ce_retry D) (ce_pool D) event) (\<lambda>_.
         bindM (invalidate_cache D order_id) (\<lambda>_.
         bindM (if truthy event_id
                then redis_setex (ce_redis D) (''processed:'' @ ce_format D event_id) 86400 ''1''
                else returnM ()) (\<lambda>_.
         bindM (if etype \<in> {PStr (event_type_value ORDER_DELIVERED), PStr (event_type_value ORDER_CANCELLED)}
                then set_expiry_for_aggregate (ce_store D) (ce_env D) order_id 2592000
                else returnM ()) (\<lambda>_.
         ce_commit D pos))))))"

text \<open>One iteration of the loop over the messages.\<close>

definition handle_message :: "'w consumer_env \<Rightarrow> kafka_msg \<Rightarrow> positions \<Rightarrow> ('w, unit) io" where
  "handle_message D msg pos =
     bindM (liftM (ce_loads D (km_value msg))) (\<lambda>v.
     case v of
       PDict event \<Rightarrow>
         (let event_id = dict_get event ''event_id'' PNone in
          bindM (if truthy event_id
                 then redis_exists (ce_redis D) (''processed:'' @ ce_format D event_id)
                 else returnM False) (\<lambda>already_processed.
          if already_processed then ce_commit D pos
          else
            tryM (process_event D event pos)
              (\<lambda>e. bindM (send_to_dlq D event (ce_exc_str D e)) (\<lambda>_.
                   ce_commit D pos))))
     | _ \<Rightarrow> raiseM AttributeError)"

text \<open>
  The consumer's positions once a message has been delivered: \<open>commit()\<close> without an argument commits
  the positions of all partitions.  \<open>async for msg in consumer\<close>: an exception outside the \<open>try\<close> ends the loop.
\<close>

definition delivered :: "kafka_msg \<Rightarrow> positions \<Rightarrow> positions" where
  "delivered msg pos = pos(km_partition msg := Suc (km_offset msg))"

fun consume :: "'w consumer_env \<Rightarrow> kafka_msg list \<Rightarrow> positions \<Rightarrow> ('w, unit) io" where
  "consume D [] pos = returnM ()"
| "consume D (msg # msgs) pos =
     bindM (handle_message D msg (delivered msg pos)) (\<lambda>_. consume D msgs (delivered msg pos))"

text \<open>
  What Kafka promises of the order: within a partition the offsets grow.  The positions then lie beyond
  every message that was delivered.
\<close>

definition in_order :: "kafka_msg list \<Rightarrow> bool" where
  "in_order msgs \<longleftrightarrow> sorted_wrt (\<lambda>x y. km_partition x = km_partition y \<longrightarrow> km_offset x < km_offset y) msgs"

lemma in_order_simps [simp]:
  "in_order []" "in_order (x # xs) \<longleftrightarrow>
     (\<forall>y \<in> set xs. km_partition x = km_partition y \<longrightarrow> km_offset x < km_offset y) \<and> in_order xs"
  by (simp_all add: in_order_def)

lemma delivered_le: "pos (km_partition m) \<le> km_offset m \<Longrightarrow>
    (km_partition x = km_partition m \<Longrightarrow> km_offset x < km_offset m) \<Longrightarrow> delivered x pos (km_partition m) \<le> km_offset m"
  by (auto simp: delivered_def)

lemma fold_delivered_other: "p \<notin> km_partition ` set msgs \<Longrightarrow> fold delivered msgs pos p = pos p"
  by (induction msgs arbitrary: pos) (auto simp: delivered_def)

lemma fold_delivered_past:
  assumes "in_order msgs" and "m \<in> set msgs"
  shows "km_offset m < fold delivered msgs pos (km_partition m)"
  using assms
proof (induction msgs arbitrary: pos m)
  case (Cons x xs)
  show ?case
  proof (cases "m = x \<and> km_partition m \<notin> km_partition ` set xs")
    case True
    then have "fold delivered xs (delivered x pos) (km_partition x) = Suc (km_offset x)"
      by (subst fold_delivered_other) (auto simp: delivered_def)
    then show ?thesis using True by simp
  next
    case False
    then obtain y where "y \<in> set xs" "km_partition y = km_partition m" "km_offset m \<le> km_offset y"
      using Cons.prems by (cases "m = x") (auto intro: less_imp_le)
    with Cons.IH [of y "delivered x pos"] Cons.prems(1) show ?thesis by simp
  qed
qed simp

section \<open>The laws of the consumer's services\<close>

abbreviation group_offset :: "'w consumer_env \<Rightarrow> backend \<Rightarrow> positions" where
  "group_offset D b \<equiv> b_offsets b (kafka_consumer_group (ce_settings D))"

locale consumer_laws = mongo_laws "ce_store D" V + redis_laws "ce_redis D" V + pool_laws "ce_pool D" V +
    env_laws "ce_env D" V + tenacity_laws "ce_retry D"
  for D :: "'w consumer_env" and V :: "'w \<Rightarrow> backend" +
  assumes format_str: "ce_format D (PStr s) = s"
    and acquire_view: "ce_acquire D w = (r, w') \<Longrightarrow> V w' = V w"
    and send_message_ok: "ce_send_message D url body attrs w = (Inr u, w') \<Longrightarrow>
      \<exists>m. sm_body m = body \<and> V w' = (V w)\<lparr>b_dlq := b_dlq (V w) @ [m]\<rparr>"
    and send_message_err: "ce_send_message D url body attrs w = (Inl e, w') \<Longrightarrow>
      V w' = V w \<or> (\<exists>m. sm_body m = body \<and> V w' = (V w)\<lparr>b_dlq := b_dlq (V w) @ [m]\<rparr>)"
    and commit_ok: "ce_commit D n w = (Inr u, w') \<Longrightarrow>
      V w' = (V w)\<lparr>b_offsets := (b_offsets (V w))(kafka_consumer_group (ce_settings D) := n)\<rparr>"
    and commit_err: "ce_commit D n w = (Inl e, w') \<Longrightarrow> V w' = V w \<or>
      V w' = (V w)\<lparr>b_offsets := (b_offsets (V w))(kafka_consumer_group (ce_settings D) := n)\<rparr>"
begin

text \<open>The steps after the projection touch neither the tables nor the queue.\<close>

lemma commit_frame:
  assumes "ce_commit D n w = (r, w')"
  shows "b_tables (V w') = b_tables (V w)" "b_dlq (V w') = b_dlq (V w)"
    "b_docs (V w') = b_docs (V w)" "b_kv (V w') = b_kv (V w)" "b_indexes (V w') = b_indexes (V w)"
    "r = Inr () \<Longrightarrow> group_offset D (V w') = n"
  using assms by (cases r; auto dest!: commit_ok commit_err)+

lemma expiry_frame:
  assumes "set_expiry_for_aggregate (ce_store D) (ce_env D) a s w = (r, w')"
  shows "b_tables (V w') = b_tables (V w) \<and> b_dlq (V w') = b_dlq (V w) \<and> b_kv (V w') = b_kv (V w)"
proof -
  have "update_many_set (ce_store D) (''aggregate_id'', a)
      (''expires_at'', PTime (fst (utcnow (ce_env D) w) + of_int s)) (snd (utcnow (ce_env D) w)) = (r, w')"
    using assms by (simp add: set_expiry_for_aggregate_def bindM_def io_simps)
  then show ?thesis
    using utcnow_view [of w] by (cases r) (auto dest!: update_ok update_err)
qed

lemma delete_frame:
  assumes "invalidate_cache D oid w = (r, w')"
  shows "b_tables (V w') = b_tables (V w) \<and> b_dlq (V w') = b_dlq (V w)"
  using assms unfolding invalidate_cache_def by (cases r) (auto dest!: delete_ok delete_err)

lemma setex_frame:
  assumes "redis_setex (ce_redis D) k n v w = (r, w')"
  shows "b_tables (V w') = b_tables (V w) \<and> b_dlq (V w') = b_dlq (V w)"
  using assms by (cases r) (auto dest!: setex_ok setex_err)

lemma project_once:
  assumes "project_to_postgres (ce_retry D) (ce_pool D) ev w = (r, w')"
  shows "b_dlq (V w') = b_dlq (V w) \<and> (projected codec ev (b_tables (V w)) (b_tables (V w')) \<or>
    r \<noteq> Inr () \<and> b_tables (V w') = b_tables (V w))"
  using attempts_once [of 3 ev w r w'] assms by (auto simp: project_to_postgres_def retry_documented)

lemma process_event_effect:
  assumes "process_event D ev off w = (r, w')"
  shows "b_dlq (V w') = b_dlq (V w) \<and> (projected codec ev (b_tables (V w)) (b_tables (V w')) \<or>
    r \<noteq> Inr () \<and> b_tables (V w') = b_tables (V w)) \<and>
    (r = Inr () \<longrightarrow> group_offset D (V w') = off)"
  using assms unfolding process_event_def Let_def
proof (cases rule: bindM_cases)
  case (raised e)
  then show ?thesis by (simp add: acquire_view)
next
  case (continued u w1)
  then have w1: "V w1 = V w" by (simp add: acquire_view)
  from continued(2) show ?thesis
  proof (cases rule: bindM_cases)
    case (raised e)
    then show ?thesis using project_once [OF raised(1)] w1 by simp
  next
    case (continued u w2)
    then have w2: "b_dlq (V w2) = b_dlq (V w)" "projected codec ev (b_tables (V w)) (b_tables (V w2))"
      using project_once [OF continued(1)] w1 by auto
    have "b_tables (V w') = b_tables (V w2) \<and> b_dlq (V w') = b_dlq (V w2) \<and>
        (r = Inr () \<longrightarrow> group_offset D (V w') = off)"
      using continued(2)
      by (auto elim!: bindM_cases dest!: delete_frame setex_frame expiry_frame dest: commit_frame
          simp: io_simps split: if_splits)
    then show ?thesis using w2 by simp
  qed
qed

end

text \<open>The event was put into the dead letter queue, with whatever error it failed with.\<close>

definition parked :: "'w consumer_env \<Rightarrow> pydict \<Rightarrow> backend \<Rightarrow> backend \<Rightarrow> bool" where
  "parked D event b b' \<longleftrightarrow>
     (\<exists>m err. ce_dumps D (dlq_body event err) = Inr (sm_body m) \<and> b_dlq b' = b_dlq b @ [m])"

text \<open>The dead letter queue takes every message, and every body can be serialised.\<close>

definition dlq_up :: "'w consumer_env \<Rightarrow> bool" where
  "dlq_up D \<longleftrightarrow> (\<forall>v. \<exists>s. ce_dumps D v = Inr s) \<and>
     (\<forall>url body attrs w. \<exists>w'. ce_send_message D url body attrs w = (Inr (), w'))"

definition marked :: "'w consumer_env \<Rightarrow> pydict \<Rightarrow> backend \<Rightarrow> bool" where
  "marked D event b \<longleftrightarrow> truthy (dict_get event ''event_id'' PNone) \<and>
     ''processed:'' @ ce_format D (dict_get event ''event_id'' PNone) \<in> dom (b_kv b)"

context consumer_laws
begin

lemma dlq_effect:
  assumes "send_to_dlq D ev err w = (r, w')"
  shows "r = Inr () \<and> b_tables (V w') = b_tables (V w) \<and>
    (b_dlq (V w') = b_dlq (V w) \<or> parked D ev (V w) (V w')) \<and> (dlq_up D \<longrightarrow> parked D ev (V w) (V w'))"
proof (cases "ce_dumps D (dlq_body ev err)")
  case (Inl e)
  then show ?thesis
    using assms by (auto simp: send_to_dlq_def tryM_def bindM_def io_simps dlq_up_def dest: spec [of _ "dlq_body ev err"])
next
  case (Inr body)
  obtain attrs url where run: "tryM (ce_send_message D url body attrs) (\<lambda>e. returnM ()) w = (r, w')"
    using assms Inr by (auto simp: send_to_dlq_def tryM_def bindM_def io_simps)
  have put: "parked D ev (V w) (V x)" if "sm_body m = body" "V x = (V w)\<lparr>b_dlq := b_dlq (V w) @ [m]\<rparr>" for m x
    unfolding parked_def using that Inr by auto
  have up: "\<exists>x. ce_send_message D url body attrs w = (Inr (), x)" if "dlq_up D"
    using that by (simp add: dlq_up_def)
  from run show ?thesis
  proof (cases rule: tryM_cases)
    case (handled e w1)
    then have "w1 = w'" "r = Inr ()" by (auto simp: io_simps)
    then show ?thesis
      using send_message_err [OF handled(1)] put up handled(1) by fastforce
  next
    case (returned x)
    then show ?thesis using send_message_ok [OF returned(1)] put by auto
  qed
qed

lemma failed_event_effect:
  assumes "bindM (send_to_dlq D ev err) (\<lambda>_. ce_commit D n) w = (r, w')"
  shows "b_tables (V w') = b_tables (V w) \<and> (dlq_up D \<longrightarrow> parked D ev (V w) (V w')) \<and>
    (r = Inr () \<longrightarrow> group_offset D (V w') = n)"
  using assms
proof (cases rule: bindM_cases)
  case (raised e)
  then show ?thesis using dlq_effect [OF raised(1)] by simp
next
  case (continued u w1)
  show ?thesis
    using dlq_effect [OF continued(1)] commit_frame [OF continued(2)] by (auto simp: parked_def)
qed

text \<open>The ways through \<open>handle_message\<close>.\<close>

lemma handle_cases [consumes 1, case_names stopped skipped handled failed]:
  assumes "handle_message D msg pos w = (r, w')"
  obtains (stopped) "V w' = V w" "r \<noteq> Inr ()"
  | (skipped) ev w1 where "ce_loads D (km_value msg) = Inr (PDict ev)" "V w1 = V w" "marked D ev (V w)"
      "ce_commit D pos w1 = (r, w')"
  | (handled) ev w1 where "ce_loads D (km_value msg) = Inr (PDict ev)" "V w1 = V w" "\<not> marked D ev (V w)"
      "process_event D ev pos w1 = (Inr (), w')" "r = Inr ()"
  | (failed) ev w1 e w2 where "ce_loads D (km_value msg) = Inr (PDict ev)" "V w1 = V w" "\<not> marked D ev (V w)"
      "process_event D ev pos w1 = (Inl e, w2)"
      "bindM (send_to_dlq D ev (ce_exc_str D e)) (\<lambda>_. ce_commit D pos) w2 = (r, w')"
proof (cases "\<exists>ev. ce_loads D (km_value msg) = Inr (PDict ev)")
  case False
  then have "V w' = V w \<and> r \<noteq> Inr ()"
    using assms unfolding handle_message_def
    by (cases "ce_loads D (km_value msg)") (auto simp: bindM_def io_simps raiseM_def split: pyval.splits)
  then show thesis using stopped by blast
next
  case True
  then obtain ev where ev: "ce_loads D (km_value msg) = Inr (PDict ev)" by blast
  let ?id = "dict_get ev ''event_id'' PNone"
  let ?key = "''processed:'' @ ce_format D ?id"
  have "bindM (if truthy ?id then redis_exists (ce_redis D) ?key else returnM False) (\<lambda>already.
      if already then ce_commit D pos
      else tryM (process_event D ev pos)
        (\<lambda>e. bindM (send_to_dlq D ev (ce_exc_str D e)) (\<lambda>_. ce_commit D pos))) w = (r, w')"
    using assms ev by (simp add: handle_message_def bindM_def io_simps Let_def)
  then show thesis
  proof (cases rule: bindM_cases)
    case (raised e)
    then have "V w' = V w" by (auto simp: io_simps split: if_splits dest!: exists_err)
    then show thesis using stopped raised by simp
  next
    case (continued already w1)
    have w1: "V w1 = V w" and al: "already \<longleftrightarrow> marked D ev (V w)"
      using continued(1) exists_ok [of ?key w already w1] by (auto simp: io_simps marked_def split: if_splits)
    show thesis
      using continued(2) ev w1 al skipped handled failed by (cases already) (auto elim: tryM_cases)
  qed
qed

text \<open>What handling a message does to the tables, the queue and the offset.\<close>

lemma handle_effect:
  assumes "handle_message D msg pos w = (r, w')" and "ce_loads D (km_value msg) = Inr (PDict ev)"
  shows "(b_tables (V w') = b_tables (V w) \<or> projected codec ev (b_tables (V w)) (b_tables (V w'))) \<and>
    (r = Inr () \<longrightarrow> group_offset D (V w') = pos) \<and>
    (r = Inr () \<and> dlq_up D \<longrightarrow> marked D ev (V w) \<or>
       projected codec ev (b_tables (V w)) (b_tables (V w')) \<or> parked D ev (V w) (V w'))"
  using assms(1)
proof (cases rule: handle_cases)
  case stopped
  then show ?thesis by simp
next
  case (skipped ev' w1)
  then show ?thesis using commit_frame [OF skipped(4)] assms(2) by auto
next
  case (handled ev' w1)
  then show ?thesis using process_event_effect [OF handled(4)] assms(2) by auto
next
  case (failed ev' w1 e w2)
  then have "b_dlq (V w2) = b_dlq (V w)"
    "b_tables (V w2) = b_tables (V w) \<or> projected codec ev (b_tables (V w)) (b_tables (V w2))"
    using process_event_effect [OF failed(4)] assms(2) by auto
  then show ?thesis
    using failed_event_effect [OF failed(5)] failed(1) assms(2) by (auto simp: parked_def)
qed

end

text \<open>
  An invariant of the services that each effect of handling an event keeps: the projection, changes
  of Redis keys and offsets, the stamping of the order's documents after a terminal event, and the
  message to the dead letter queue.
\<close>

definition terminal_event :: "pydict \<Rightarrow> bool" where
  "terminal_event ev \<longleftrightarrow> dict_get ev ''event_type'' PNone \<in>
     {PStr (event_type_value ORDER_DELIVERED), PStr (event_type_value ORDER_CANCELLED)}"

definition stamp_docs :: "pyval \<Rightarrow> rat \<Rightarrow> bool list \<Rightarrow> backend \<Rightarrow> backend" where
  "stamp_docs a t hit b = b\<lparr>b_docs := map (\<lambda>(d, h). if h \<and> matches (''aggregate_id'', a) d
     then dict_set d ''expires_at'' (PTime t) else d) (zip (b_docs b) hit)\<rparr>"

definition consumer_keeps :: "'w consumer_env \<Rightarrow> pydict \<Rightarrow> (backend \<Rightarrow> bool) \<Rightarrow> bool" where
  "consumer_keeps D ev I \<longleftrightarrow>
     (\<forall>b now db. I b \<longrightarrow> pg_time now \<longrightarrow> project_doc (pg_codec_of (ce_pool D)) ev now (b_tables b) = Inr db \<longrightarrow>
        I (b\<lparr>b_tables := db\<rparr>)) \<and>
     (\<forall>b kv. I b \<longrightarrow> I (b\<lparr>b_kv := kv\<rparr>)) \<and> (\<forall>b offs. I b \<longrightarrow> I (b\<lparr>b_offsets := offs\<rparr>)) \<and>
     (\<forall>b t hit. I b \<longrightarrow> terminal_event ev \<longrightarrow> length hit = length (b_docs b) \<longrightarrow>
        I (stamp_docs (dict_get ev ''aggregate_id'' (PStr ''unknown'')) t hit b)) \<and>
     (\<forall>b m err. I b \<longrightarrow> ce_dumps D (dlq_body ev err) = Inr (sm_body m) \<longrightarrow> I (b\<lparr>b_dlq := b_dlq b @ [m]\<rparr>))"

lemma stamp_docs_all:
  "b\<lparr>b_docs := map (\<lambda>d. if matches (''aggregate_id'', a) d then dict_set d ''expires_at'' (PTime t) else d) (b_docs b)\<rparr> =
     stamp_docs a t (replicate (length (b_docs b)) True) b"
proof -
  have "map (\<lambda>d. if m d then g d else d) xs =
      map (\<lambda>(d, h). if h \<and> m d then g d else d) (zip xs (replicate (length xs) True))" for m g and xs :: "pydict list"
    by (induction xs) simp_all
  then show ?thesis unfolding stamp_docs_def by (rule arg_cong [where f = "\<lambda>ds. b\<lparr>b_docs := ds\<rparr>"])
qed

context consumer_laws
begin

lemma attempt_keeps: "consumer_keeps D ev I \<Longrightarrow> keepsM (\<lambda>w. I (V w)) (project_attempt (ce_pool D) ev)"
  by (rule keepsMI) (auto dest!: attempt_tx simp: consumer_keeps_def)

lemma delete_keeps: "consumer_keeps D ev I \<Longrightarrow> keepsM (\<lambda>w. I (V w)) (redis_delete (ce_redis D) k)"
  by (rule keepsMI, case_tac r) (auto dest!: delete_ok delete_err simp: consumer_keeps_def)

lemma setex_keeps: "consumer_keeps D ev I \<Longrightarrow> keepsM (\<lambda>w. I (V w)) (redis_setex (ce_redis D) k n v)"
  by (rule keepsMI, case_tac r) (auto dest!: setex_ok setex_err simp: consumer_keeps_def)

lemma exists_keeps: "keepsM (\<lambda>w. I (V w)) (redis_exists (ce_redis D) k)"
  by (rule keepsMI, case_tac r) (auto dest!: exists_ok exists_err)

lemma acquire_keeps: "keepsM (\<lambda>w. I (V w)) (ce_acquire D)"
  by (rule keepsMI) (simp add: acquire_view)

lemma commit_keeps: "consumer_keeps D ev I \<Longrightarrow> keepsM (\<lambda>w. I (V w)) (ce_commit D n)"
  by (rule keepsMI, case_tac r) (auto dest!: commit_ok commit_err simp: consumer_keeps_def)

lemma expiry_keeps:
  assumes "consumer_keeps D ev I" and "terminal_event ev"
  shows "keepsM (\<lambda>w. I (V w)) (set_expiry_for_aggregate (ce_store D) (ce_env D)
    (dict_get ev ''aggregate_id'' (PStr ''unknown'')) s)"
  unfolding set_expiry_for_aggregate_def
proof (intro keepsM_bindM keepsM_effM keepsMI)
  fix x w w' and r :: "exn + unit"
  assume i: "I (V w)" and run: "update_many_set (ce_store D) (''aggregate_id'', dict_get ev ''aggregate_id'' (PStr ''unknown''))
      (''expires_at'', PTime (x + of_int s)) w = (r, w')"
  obtain hit where "length hit = length (b_docs (V w))"
    "V w' = stamp_docs (dict_get ev ''aggregate_id'' (PStr ''unknown'')) (x + of_int s) hit (V w)"
  proof (cases r)
    case (Inl e)
    then show thesis using update_err [OF run [unfolded Inl], unfolded fst_conv snd_conv] that unfolding stamp_docs_def by blast
  next
    case (Inr u)
    then show thesis using update_ok [OF run [unfolded Inr], unfolded fst_conv snd_conv]
        that [of "replicate (length (b_docs (V w))) True"] by (simp only: stamp_docs_all length_replicate)
  qed
  then show "I (V w')"
    using assms i by (simp add: consumer_keeps_def)
qed (simp add: utcnow_view)

lemma process_keeps:
  assumes "consumer_keeps D ev I"
  shows "keepsM (\<lambda>w. I (V w)) (process_event D ev off)"
  unfolding process_event_def Let_def terminal_event_def [symmetric] project_to_postgres_def invalidate_cache_def
    retry_documented [abs_def]
  by (intro keeps_intros acquire_keeps attempt_keeps [OF assms] delete_keeps [OF assms] setex_keeps [OF assms]
      expiry_keeps [OF assms] commit_keeps [OF assms])

lemma dlq_keeps:
  assumes "consumer_keeps D ev I"
  shows "keepsM (\<lambda>w. I (V w)) (send_to_dlq D ev err)"
proof -
  have put: "I (b\<lparr>b_dlq := b_dlq b @ [m]\<rparr>)" if "I b" "ce_dumps D (dlq_body ev err) = Inr (sm_body m)" for b m
    using assms that unfolding consumer_keeps_def by blast
  show ?thesis
    unfolding send_to_dlq_def
    by (intro keepsM_tryM keepsM_liftM_bind keepsM_pure keepsMI, case_tac r)
      (auto dest!: send_message_ok send_message_err intro!: put)
qed

lemma handle_keeps:
  assumes "\<And>ev. ce_loads D (km_value msg) = Inr (PDict ev) \<Longrightarrow> consumer_keeps D ev I"
  shows "keepsM (\<lambda>w. I (V w)) (handle_message D msg pos)"
  unfolding handle_message_def Let_def
  by (intro keepsM_liftM_bind, rename_tac v, case_tac v)
    (auto intro!: keeps_intros exists_keeps process_keeps dlq_keeps commit_keeps assms)

lemma consume_keeps:
  assumes "\<And>msg ev. msg \<in> set msgs \<Longrightarrow> ce_loads D (km_value msg) = Inr (PDict ev) \<Longrightarrow> consumer_keeps D ev I"
  shows "keepsM (\<lambda>w. I (V w)) (consume D msgs pos)"
  using assms by (induction msgs arbitrary: pos) (auto intro!: keeps_intros handle_keeps)

text \<open>What every projection keeps of the tables, the consumer keeps.\<close>

lemma consume_tables:
  assumes "consume D msgs pos w = (r, w')" and "P (b_tables (V w))"
    and "\<And>ev now db db'. pg_time now \<Longrightarrow> project_doc codec ev now db = Inr db' \<Longrightarrow> P db \<Longrightarrow> P db'"
  shows "P (b_tables (V w'))"
proof (rule keepsMD [OF consume_keeps assms(1), of "\<lambda>b. P (b_tables b)"])
  show "consumer_keeps D ev (\<lambda>b. P (b_tables b))" for ev
    using assms(3) by (auto simp: consumer_keeps_def stamp_docs_def)
qed (rule assms(2))

lemma consume_inv:
  assumes "consume D msgs pos w = (r, w')" and "rm_inv (b_tables (V w))"
  shows "rm_inv (b_tables (V w'))"
  using consume_tables [of msgs pos w r w' rm_inv] assms project_doc_inv by blast

lemma consume_columns:
  assumes "consume D msgs pos w = (r, w')" and "columns_ok (b_tables (V w))"
  shows "columns_ok (b_tables (V w'))"
  using consume_tables [of msgs pos w r w' columns_ok] assms project_doc_columns by blast

end

context consumer_laws
begin

lemma handle_marked:
  assumes "handle_message D msg pos w = (r, w')" and "ce_loads D (km_value msg) = Inr (PDict ev)"
    and "marked D ev (V w)"
  shows "V w' = (V w)\<lparr>b_offsets := b_offsets (V w')\<rparr>"
  using assms(1)
proof (cases rule: handle_cases)
  case stopped
  then show ?thesis by simp
next
  case (skipped ev' w1)
  then show ?thesis by (cases r) (auto dest!: commit_ok commit_err)
qed (use assms(2,3) in simp_all)

end

section \<open>The consumer in memory\<close>

text \<open>A dead letter queue that never fails, or one that fails by the script.\<close>

definition mem_send :: "bool \<Rightarrow> string \<Rightarrow> string \<Rightarrow> (string \<times> pyval) list \<Rightarrow> (mem, unit) io" where
  "mem_send reliable url body attrs =
     (let f = (\<lambda>b. (Inr (), b\<lparr>b_dlq := b_dlq b @ [\<lparr>sm_body = body, sm_attributes = [], sm_receipt = body\<rparr>]\<rparr>))
      in if reliable then (\<lambda>w. (Inr (), w\<lparr>mem_state := snd (f (mem_state w))\<rparr>)) else mem_op f)"

definition mem_consumer :: "bool \<Rightarrow> (string \<Rightarrow> exn + pyval) \<Rightarrow> mem consumer_env" where
  "mem_consumer reliable loads =
     \<lparr>ce_settings = default_settings, ce_loads = loads, ce_dumps = (\<lambda>_. Inr ''{}''),
      ce_format = (\<lambda>v. case v of PStr s \<Rightarrow> s | _ \<Rightarrow> ''?''), ce_exc_str = exn_text,
      ce_retry = retry_attempts, ce_env = mem_env, ce_acquire = returnM (), ce_pool = mem_pool,
      ce_redis = mem_redis, ce_store = mem_mongo, ce_send_message = mem_send reliable,
      ce_commit = (\<lambda>n. mem_op (\<lambda>b. (Inr (), b\<lparr>b_offsets :=
         (b_offsets b)(kafka_consumer_group default_settings := n)\<rparr>)))\<rparr>"

interpretation mem_consumer: consumer_laws "mem_consumer reliable loads" mem_state for reliable loads
proof (intro consumer_laws.intro consumer_laws_axioms.intro)
  show "mongo_laws (ce_store (mem_consumer reliable loads)) mem_state"
    "redis_laws (ce_redis (mem_consumer reliable loads)) mem_state"
    "pool_laws (ce_pool (mem_consumer reliable loads)) mem_state"
    "env_laws (ce_env (mem_consumer reliable loads)) mem_state"
    "tenacity_laws (ce_retry (mem_consumer reliable loads))"
    by (simp_all add: mem_consumer_def mem_mongo.mongo_laws_axioms mem_redis.redis_laws_axioms
        mem_pool.pool_laws_axioms mem_env.env_laws_axioms mem_tenacity.tenacity_laws_axioms)
  show "ce_format (mem_consumer reliable loads) (PStr s) = s" for s
    by (simp add: mem_consumer_def)
  show "mem_state w' = mem_state w" if "ce_acquire (mem_consumer reliable loads) w = (r, w')" for w r w'
    using that by (simp add: mem_consumer_def io_simps)
  show "\<exists>m. sm_body m = body \<and> mem_state w' = (mem_state w)\<lparr>b_dlq := b_dlq (mem_state w) @ [m]\<rparr>"
    if "ce_send_message (mem_consumer reliable loads) url body attrs w = (Inr u, w')" for url body attrs w u w'
    using that by (intro exI [of _ "\<lparr>sm_body = body, sm_attributes = [], sm_receipt = body\<rparr>"])
      (auto simp: mem_consumer_def mem_send_def Let_def dest!: mem_op_Inr split: if_splits)
  show "mem_state w' = mem_state w \<or>
      (\<exists>m. sm_body m = body \<and> mem_state w' = (mem_state w)\<lparr>b_dlq := b_dlq (mem_state w) @ [m]\<rparr>)"
    if "ce_send_message (mem_consumer reliable loads) url body attrs w = (Inl e, w')" for url body attrs w e w'
  proof -
    have "mem_state w' = mem_state w \<or> mem_state w' = (mem_state w)\<lparr>b_dlq := b_dlq (mem_state w) @
        [\<lparr>sm_body = body, sm_attributes = [], sm_receipt = body\<rparr>]\<rparr>"
      using that by (auto simp: mem_consumer_def mem_send_def Let_def dest!: mem_op_Inl split: if_splits)
    then show ?thesis by (metis sqs_message.select_convs(1))
  qed
qed (auto simp: mem_consumer_def dest!: mem_op_Inr mem_op_Inl)

lemma mem_consumer_dlq_up: "dlq_up (mem_consumer True loads)"
  by (simp add: dlq_up_def mem_consumer_def mem_send_def)

section \<open>Properties\<close>

definition sample_msg :: kafka_msg where
  "sample_msg = \<lparr>km_value = ''m'', km_partition = 0, km_offset = 0\<rparr>"

abbreviation sample_pos :: positions where
  "sample_pos \<equiv> (\<lambda>_. 0)(0 := 1)"

text \<open>
  No event is lost as long as the dead letter queue takes it: when the consumer has handled a
  message without raising, its offset is committed, and the event was projected (its effect is
  in the tables exactly once), or was marked as processed before, or is in the dead letter
  queue with its payload.
\<close>

theorem consumed_event_accounted:
  assumes "consumer_laws D V" and "dlq_up D" and "ce_loads D (km_value msg) = Inr (PDict event)"
    and "handle_message D msg pos w = (Inr (), w')"
  shows "group_offset D (V w') = pos \<and>
    (marked D event (V w) \<or> projected (pg_codec_of (ce_pool D)) event (b_tables (V w)) (b_tables (V w')) \<or>
     parked D event (V w) (V w'))"
  using consumer_laws.handle_effect [OF assms(1,4,3)] assms(2) by blast

theorem consumed_event_accounted_witness:
  "\<exists>w'. handle_message (mem_consumer True (\<lambda>_. Inr (PDict sample_created))) sample_msg sample_pos
      (mem_init\<lparr>mem_faults := [Up, Lost, Lost, Lost]\<rparr>) = (Inr (), w') \<and>
    group_offset (mem_consumer True (\<lambda>_. Inr (PDict sample_created))) (mem_state w') 0 = 1"
proof -
  let ?D = "mem_consumer True (\<lambda>_. Inr (PDict sample_created))"
  obtain w' where run: "handle_message ?D sample_msg sample_pos (mem_init\<lparr>mem_faults := [Up, Lost, Lost, Lost]\<rparr>) = (Inr (), w')"
    by (auto simp: handle_message_def mem_consumer_def process_event_def project_to_postgres_def
        project_attempt_def sample_defs dict_simps dict_get_def mem_pool_def mem_redis_def mem_op_def
        mem_init_def bindM_def tryM_def io_simps numeral_3_eq_3 send_to_dlq_def mem_send_def Let_def
        model_dump_def)
  have "ce_loads ?D (km_value sample_msg) = Inr (PDict sample_created)"
    by (simp add: mem_consumer_def)
  from consumed_event_accounted [OF mem_consumer.consumer_laws_axioms mem_consumer_dlq_up this run] run
  show ?thesis by (auto simp: sample_msg_def)
qed

text \<open>
  The read model stays consistent whatever the topic contains: however many messages the
  consumer handles, in whatever order, repeated or malformed, and however the services fail,
  keys stay keys, items belong to orders, every total is the sum of its line totals, and every
  column holds a value that the queries can return.
\<close>

theorem consumer_keeps_read_model_invariant:
  assumes "consumer_laws D V" and "rm_inv (b_tables (V w))" and "columns_ok (b_tables (V w))"
    and "consume D msgs pos w = (r, w')"
  shows "rm_inv (b_tables (V w')) \<and> columns_ok (b_tables (V w'))"
  using consumer_laws.consume_inv [OF assms(1,4,2)] consumer_laws.consume_columns [OF assms(1,4,3)] by simp

theorem consumer_keeps_read_model_invariant_witness:
  "\<exists>r w'. consume (mem_consumer False (\<lambda>_. Inr (PDict (sample_item 2 ''x'' 3 5)))) [sample_msg, sample_msg] (\<lambda>_. 0)
      (mem_row\<lparr>mem_faults := [Up, Late, Lost]\<rparr>) = (r, w') \<and> rm_inv (b_tables (mem_state w')) \<and> columns_ok (b_tables (mem_state w'))"
proof -
  let ?D = "mem_consumer False (\<lambda>_. Inr (PDict (sample_item 2 ''x'' 3 5)))"
  obtain r w' where run: "consume ?D [sample_msg, sample_msg] (\<lambda>_. 0) (mem_row\<lparr>mem_faults := [Up, Late, Lost]\<rparr>) = (r, w')"
    by (metis surj_pair)
  have "rm_inv (b_tables (mem_state (mem_row\<lparr>mem_faults := [Up, Late, Lost]\<rparr>)))"
    "columns_ok (b_tables (mem_state (mem_row\<lparr>mem_faults := [Up, Late, Lost]\<rparr>)))"
    using mem_row_inv mem_row_columns by simp_all
  from consumer_keeps_read_model_invariant [OF mem_consumer.consumer_laws_axioms this run] run
  show ?thesis by blast
qed

text \<open>
  A message whose event is marked as processed is skipped: handling it changes nothing but
  the committed offset.
\<close>

theorem processed_event_skipped:
  assumes "consumer_laws D V" and "ce_loads D (km_value msg) = Inr (PDict event)" and "marked D event (V w)"
    and "handle_message D msg pos w = (r, w')"
  shows "V w' = (V w)\<lparr>b_offsets := b_offsets (V w')\<rparr>"
  by (rule consumer_laws.handle_marked [OF assms(1,4,2,3)])

theorem processed_event_skipped_witness:
  "\<exists>r w'. handle_message (mem_consumer False (\<lambda>_. Inr (PDict sample_created))) sample_msg sample_pos
      (mem_init\<lparr>mem_state := (mem_state mem_init)\<lparr>b_kv := [''processed:e'' \<mapsto> ''1'']\<rparr>\<rparr>) = (r, w') \<and>
    b_tables (mem_state w') = b_tables (mem_state mem_init)"
proof -
  let ?D = "mem_consumer False (\<lambda>_. Inr (PDict sample_created))"
  let ?w = "mem_init\<lparr>mem_state := (mem_state mem_init)\<lparr>b_kv := [''processed:e'' \<mapsto> ''1'']\<rparr>\<rparr>"
  obtain r w' where run: "handle_message ?D sample_msg sample_pos ?w = (r, w')"
    by (metis surj_pair)
  have l: "ce_loads ?D (km_value sample_msg) = Inr (PDict sample_created)"
    by (simp add: mem_consumer_def)
  have "marked ?D sample_created (mem_state ?w)"
    by (simp add: marked_def mem_consumer_def sample_defs dict_get_def dict_simps)
  from processed_event_skipped [OF mem_consumer.consumer_laws_axioms l this run]
  have eq: "mem_state w' = (mem_state ?w)\<lparr>b_offsets := b_offsets (mem_state w')\<rparr>" .
  have "b_tables (mem_state w') = b_tables (mem_state mem_init)"
    by (subst eq) simp
  with run show ?thesis by blast
qed


end
