(* ===== verification/Retry_Handler.thy ===== *)
theory Retry_Handler
  imports Consumer
begin

text \<open>
  The retry Lambda (\<open>lambda_handlers/retry_handler.py\<close>): it polls the dead letter queue,
  republishes each event through the REST proxy with its retry count incremented, moves an
  event that was retried three times to S3, and deletes what it has moved on.  The clients and
  the environment of the function are the record \<open>lambda_env\<close>.
\<close>

section \<open>Operations\<close>

record 'w lambda_env =
  le_loads :: "string \<Rightarrow> exn + pyval"
  le_dumps :: "pyval \<Rightarrow> exn + string"
  le_format :: "pyval \<Rightarrow> string"
  le_env :: "'w pyenv"
  le_proxy_url :: string
  le_kafka_topic :: string
  le_receive :: "nat \<Rightarrow> ('w, sqs_message list) io"
  le_delete :: "string \<Rightarrow> ('w, unit) io"
  le_put_object :: "string \<Rightarrow> string \<Rightarrow> ('w, unit) io"
  le_urlopen :: "string \<Rightarrow> string \<Rightarrow> ('w, nat) io"

definition MAX_RETRIES :: int where
  "MAX_RETRIES = 3"

text \<open>\<open>x >= n\<close> and \<open>x + 1\<close> for a value of any type.\<close>

fun py_ge :: "pyval \<Rightarrow> int \<Rightarrow> exn + bool" where
  "py_ge (PInt i) n = Inr (n \<le> i)"
| "py_ge (PBool b) n = Inr (n \<le> (if b then 1 else 0))"
| "py_ge (PFloat (Fin q)) n = Inr (of_int n \<le> q)"
| "py_ge (PFloat PInf) n = Inr True"
| "py_ge (PFloat _) n = Inr False"
| "py_ge (PDecimal q) n = Inr (of_int n \<le> q)"
| "py_ge _ n = Inl TypeError"

fun py_succ :: "pyval \<Rightarrow> exn + pyval" where
  "py_succ (PInt i) = Inr (PInt (i + 1))"
| "py_succ (PBool b) = Inr (PInt (if b then 2 else 1))"
| "py_succ (PFloat x) = Inr (PFloat (fl_add x (Fin 1)))"
| "py_succ (PDecimal q) = Inr (PDecimal (q + 1))"
| "py_succ _ = Inl TypeError"

definition proxy_body :: "pyval \<Rightarrow> pyval \<Rightarrow> pyval" where
  "proxy_body key v = PDict [(''records'', PList [PDict [(''key'', key), (''value'', v)]])]"

definition publish_to_kafka_via_proxy ::
    "'w lambda_env \<Rightarrow> string \<Rightarrow> pyval \<Rightarrow> pyval \<Rightarrow> ('w, unit) io" where
  "publish_to_kafka_via_proxy L topic key v =
     bindM (liftM (le_dumps L (proxy_body key v))) (\<lambda>req_data.
     bindM (le_urlopen L (le_proxy_url L @ ''/topics/'' @ topic) req_data) (\<lambda>status.
     if status \<notin> {200, 201, 202}
     then raiseM (RuntimeError ''Unexpected status from REST proxy'')
     else returnM ()))"

definition dead_key :: "'w lambda_env \<Rightarrow> pydict \<Rightarrow> string" where
  "dead_key L domain_event =
     ''dead-letters/'' @ le_format L (dict_get domain_event ''aggregate_id'' (PStr ''unknown'')) @ ''/'' @
     le_format L (dict_get domain_event ''event_id'' (PStr ''unknown'')) @ ''.json''"

text \<open>What becomes of one message: \<open>None\<close> when publishing failed and the message stays.\<close>

datatype outcome = Retried | DeadLettered

definition dispose ::
    "'w lambda_env \<Rightarrow> pydict \<Rightarrow> pyval \<Rightarrow> pyval \<Rightarrow> ('w, outcome option) io" where
  "dispose L domain_event retry_count original_error =
     (let order_id = dict_get domain_event ''aggregate_id'' (PStr ''unknown'') in
      bindM (liftM (py_ge retry_count MAX_RETRIES)) (\<lambda>exhausted.
      if exhausted then
        bindM (effM (time_time (le_env L))) (\<lambda>t.
        bindM (liftM (le_dumps L (PDict
          [(''event'', PDict domain_event), (''error'', original_error),
           (''retry_count'', retry_count), (''dead_at'', PFloat t)]))) (\<lambda>body.
        bindM (le_put_object L (dead_key L domain_event) body) (\<lambda>_.
        returnM (Some DeadLettered))))
      else
        tryM
          (bindM (liftM (py_succ retry_count)) (\<lambda>n.
           bindM (publish_to_kafka_via_proxy L (le_kafka_topic L) order_id
                    (PDict (dict_set domain_event ''retry_count'' n))) (\<lambda>_.
           returnM (Some Retried))))
          (\<lambda>e. returnM None)))"

definition retry_message :: "'w lambda_env \<Rightarrow> sqs_message \<Rightarrow> ('w, outcome option) io" where
  "retry_message L msg =
     bindM (liftM (le_loads L (sm_body msg))) (\<lambda>body.
     bindM (liftM (py_item body ''event'')) (\<lambda>domain_event.
     case (body, domain_event) of
       (PDict b, PDict ev) \<Rightarrow>
         bindM (dispose L ev (dict_get b ''retry_count'' (PInt 0)) (dict_get b ''error'' (PStr ''unknown''))) (\<lambda>out.
         case out of
           None \<Rightarrow> returnM None
         | Some x \<Rightarrow> bindM (le_delete L (sm_receipt msg)) (\<lambda>_. returnM (Some x)))
     | _ \<Rightarrow> raiseM AttributeError))"

fun retry_messages :: "'w lambda_env \<Rightarrow> sqs_message list \<Rightarrow> int \<Rightarrow> int \<Rightarrow> ('w, pydict) io" where
  "retry_messages L [] retried dead_lettered =
     returnM [(''retried'', PInt retried), (''dead_lettered'', PInt dead_lettered)]"
| "retry_messages L (msg # msgs) retried dead_lettered =
     bindM (retry_message L msg) (\<lambda>out.
     retry_messages L msgs (retried + (if out = Some Retried then 1 else 0))
       (dead_lettered + (if out = Some DeadLettered then 1 else 0)))"

definition handler :: "'w lambda_env \<Rightarrow> ('w, pydict) io" where
  "handler L =
     bindM (le_receive L 10) (\<lambda>messages.
     if messages = [] then returnM [(''retried'', PInt 0)]
     else retry_messages L messages 0 0)"

section \<open>The laws of the Lambda's services\<close>

text \<open>The record the proxy appends to the topic for a request is \<open>rec\<close> of its URL and body.\<close>

locale lambda_laws = env_laws "le_env L" V
  for L :: "'w lambda_env" and V :: "'w \<Rightarrow> backend" +
  fixes rec :: "string \<Rightarrow> string \<Rightarrow> kafka_record"
  assumes receive_ok: "le_receive L n w = (Inr ms, w') \<Longrightarrow>
      V w' = V w \<and> set ms \<subseteq> set (b_dlq (V w)) \<and> length ms \<le> n"
    and receive_err: "le_receive L n w = (Inl e, w') \<Longrightarrow> V w' = V w"
    and delete_any: "le_delete L rh w = (r, w') \<Longrightarrow> V w' = V w \<and> r \<noteq> Inr () \<or>
      V w' = (V w)\<lparr>b_dlq := filter (\<lambda>m. sm_receipt m \<noteq> rh) (b_dlq (V w))\<rparr>"
    and put_any: "le_put_object L key body w = (r, w') \<Longrightarrow> V w' = V w \<and> r \<noteq> Inr () \<or>
      V w' = (V w)\<lparr>b_objects := (b_objects (V w))(key \<mapsto> body)\<rparr>"
    and urlopen_ok: "le_urlopen L url data w = (Inr status, w') \<Longrightarrow>
      V w' = (V w)\<lparr>b_topic := b_topic (V w) @ [rec url data]\<rparr> \<or> V w' = V w \<and> status \<notin> {200, 201, 202}"
    and urlopen_err: "le_urlopen L url data w = (Inl e, w') \<Longrightarrow>
      V w' = V w \<or> V w' = (V w)\<lparr>b_topic := b_topic (V w) @ [rec url data]\<rparr>"

section \<open>What becomes of a message\<close>

definition proxy_url :: "'w lambda_env \<Rightarrow> string" where
  "proxy_url L = le_proxy_url L @ ''/topics/'' @ le_kafka_topic L"

text \<open>
  The event of a message has moved on: to its dead letter object when its retries are used up,
  otherwise to the topic with the retry count incremented.
\<close>

definition event_moved :: "'w lambda_env \<Rightarrow> (string \<Rightarrow> string \<Rightarrow> kafka_record) \<Rightarrow> pydict \<Rightarrow> pyval \<Rightarrow> backend \<Rightarrow> bool" where
  "event_moved L rec ev n b \<longleftrightarrow>
     (py_ge n MAX_RETRIES = Inr True \<and> dead_key L ev \<in> dom (b_objects b)) \<or>
     (py_ge n MAX_RETRIES = Inr False \<and> (\<exists>n' data. py_succ n = Inr n' \<and>
        le_dumps L (proxy_body (dict_get ev ''aggregate_id'' (PStr ''unknown''))
          (PDict (dict_set ev ''retry_count'' n'))) = Inr data \<and>
        rec (proxy_url L) data \<in> set (b_topic b)))"

definition moved_on :: "'w lambda_env \<Rightarrow> (string \<Rightarrow> string \<Rightarrow> kafka_record) \<Rightarrow> backend \<Rightarrow> sqs_message \<Rightarrow> bool" where
  "moved_on L rec b msg \<longleftrightarrow> (\<exists>body ev. le_loads L (sm_body msg) = Inr (PDict body) \<and>
     map_of body ''event'' = Some (PDict ev) \<and>
     event_moved L rec ev (dict_get body ''retry_count'' (PInt 0)) b)"

definition grows :: "backend \<Rightarrow> backend \<Rightarrow> bool" where
  "grows b b' \<longleftrightarrow> dom (b_objects b) \<subseteq> dom (b_objects b') \<and> set (b_topic b) \<subseteq> set (b_topic b') \<and>
     b_tables b' = b_tables b \<and> b_docs b' = b_docs b"

lemma grows_refl [simp]: "grows b b"
  by (simp add: grows_def)

lemma grows_trans: "grows a b \<Longrightarrow> grows b c \<Longrightarrow> grows a c"
  by (auto simp: grows_def)

lemma moved_on_grows: "moved_on L rec b msg \<Longrightarrow> grows b b' \<Longrightarrow> moved_on L rec b' msg"
  unfolding moved_on_def event_moved_def grows_def by blast

context lambda_laws
begin

lemma proxy_effect:
  assumes "publish_to_kafka_via_proxy L (le_kafka_topic L) key v w = (r, w')"
  shows "b_dlq (V w') = b_dlq (V w) \<and> grows (V w) (V w') \<and>
    (r = Inr () \<longrightarrow> (\<exists>data. le_dumps L (proxy_body key v) = Inr data \<and> rec (proxy_url L) data \<in> set (b_topic (V w'))))"
proof (cases "le_dumps L (proxy_body key v)")
  case (Inl e)
  then show ?thesis
    using assms by (auto simp: publish_to_kafka_via_proxy_def bindM_def io_simps)
next
  case (Inr data)
  then have "bindM (le_urlopen L (proxy_url L) data) (\<lambda>status. if status \<notin> {200, 201, 202}
      then raiseM (RuntimeError ''Unexpected status from REST proxy'') else returnM ()) w = (r, w')"
    using assms by (simp add: publish_to_kafka_via_proxy_def bindM_def io_simps proxy_url_def)
  then show ?thesis
  proof (cases rule: bindM_cases)
    case (raised e)
    then show ?thesis using urlopen_err [OF raised(1)] by (auto simp: grows_def)
  next
    case (continued status w1)
    then show ?thesis
      using urlopen_ok [OF continued(1)] Inr by (auto simp: grows_def io_simps split: if_splits)
  qed
qed

lemma dispose_effect:
  assumes "dispose L ev n err w = (r, w')"
  shows "b_dlq (V w') = b_dlq (V w) \<and> grows (V w) (V w') \<and>
    (\<forall>x. r = Inr (Some x) \<longrightarrow> event_moved L rec ev n (V w'))"
proof (cases "py_ge n MAX_RETRIES")
  case (Inl e)
  then show ?thesis
    using assms by (auto simp: dispose_def bindM_def io_simps Let_def)
next
  case (Inr exhausted)
  show ?thesis
  proof (cases exhausted)
    case True
    let ?w1 = "snd (time_time (le_env L) w)"
    have "bindM (liftM (le_dumps L (PDict [(''event'', PDict ev), (''error'', err), (''retry_count'', n),
        (''dead_at'', PFloat (fst (time_time (le_env L) w)))]))) (\<lambda>body.
        bindM (le_put_object L (dead_key L ev) body) (\<lambda>_. returnM (Some DeadLettered))) ?w1 = (r, w')"
      using assms Inr True by (simp add: dispose_def bindM_def io_simps Let_def)
    then show ?thesis
      using time_view [of w] Inr True
      by (auto elim!: bindM_cases dest!: put_any simp: io_simps grows_def event_moved_def)
  next
    case False
    then have "tryM (bindM (liftM (py_succ n)) (\<lambda>n. bindM (publish_to_kafka_via_proxy L (le_kafka_topic L)
        (dict_get ev ''aggregate_id'' (PStr ''unknown'')) (PDict (dict_set ev ''retry_count'' n)))
        (\<lambda>_. returnM (Some Retried)))) (\<lambda>e. returnM None) w = (r, w')"
      using assms Inr by (simp add: dispose_def bindM_def io_simps Let_def)
    then show ?thesis
      using Inr False
      by (auto elim!: tryM_cases bindM_cases dest!: proxy_effect simp: io_simps event_moved_def)
  qed
qed

lemma retry_message_effect:
  assumes "retry_message L msg w = (r, w')"
  shows "grows (V w) (V w') \<and> (b_dlq (V w') = b_dlq (V w) \<or>
    b_dlq (V w') = filter (\<lambda>m. sm_receipt m \<noteq> sm_receipt msg) (b_dlq (V w)) \<and> moved_on L rec (V w') msg)"
proof (cases "\<exists>body ev. le_loads L (sm_body msg) = Inr (PDict body) \<and> map_of body ''event'' = Some (PDict ev)")
  case True
  then obtain body ev where b: "le_loads L (sm_body msg) = Inr (PDict body)" "map_of body ''event'' = Some (PDict ev)"
    by blast
  then have "bindM (dispose L ev (dict_get body ''retry_count'' (PInt 0)) (dict_get body ''error'' (PStr ''unknown'')))
      (\<lambda>out. case out of None \<Rightarrow> returnM None
         | Some x \<Rightarrow> bindM (le_delete L (sm_receipt msg)) (\<lambda>_. returnM (Some x))) w = (r, w')"
    using assms by (simp add: retry_message_def bindM_def io_simps dict_simps)
  then show ?thesis
  proof (cases rule: bindM_cases)
    case (raised e)
    then show ?thesis using dispose_effect [OF raised(1)] by simp
  next
    case (continued out w1)
    note eff = dispose_effect [OF continued(1)]
    show ?thesis
    proof (cases out)
      case None
      then show ?thesis using eff continued(2) by (simp add: io_simps)
    next
      case (Some x)
      have mv: "moved_on L rec (V w1) msg"
        using eff b Some by (auto simp: moved_on_def)
      have "V w' = V w1 \<or> V w' = (V w1)\<lparr>b_dlq := filter (\<lambda>m. sm_receipt m \<noteq> sm_receipt msg) (b_dlq (V w1))\<rparr>"
        using continued(2) Some by (auto elim!: bindM_cases dest!: delete_any simp: io_simps)
      then show ?thesis
        using eff moved_on_grows [OF mv, of "V w'"] by (auto simp: grows_def)
    qed
  qed
next
  case False
  then have "V w' = V w"
    using assms
    by (auto simp: retry_message_def bindM_def io_simps py_item_def dict_item_def
        split: pyval.splits sum.splits option.splits prod.splits)
  then show ?thesis by simp
qed

lemma retry_messages_effect:
  assumes "retry_messages L ms i j w = (r, w')"
  shows "grows (V w) (V w') \<and> set (b_dlq (V w')) \<subseteq> set (b_dlq (V w)) \<and>
    (\<forall>m \<in> set (b_dlq (V w)). m \<in> set (b_dlq (V w')) \<or>
       (\<exists>msg \<in> set ms. sm_receipt msg = sm_receipt m \<and> moved_on L rec (V w') msg))"
  using assms
proof (induction ms arbitrary: i j w)
  case Nil
  then show ?case by (simp add: io_simps)
next
  case (Cons msg ms)
  from Cons.prems show ?case
    unfolding retry_messages.simps
  proof (cases rule: bindM_cases)
    case (raised e)
    then show ?thesis using retry_message_effect [OF raised(1)] by auto
  next
    case (continued out w1)
    from Cons.IH [OF continued(2)] retry_message_effect [OF continued(1)] show ?thesis
      using moved_on_grows [of L rec "V w1" msg "V w'"] by (auto intro: grows_trans)
  qed
qed

lemma handler_effect:
  assumes "handler L w = (r, w')" and "inj_on sm_receipt (set (b_dlq (V w)))" and "m \<in> set (b_dlq (V w))"
  shows "set (b_dlq (V w')) \<subseteq> set (b_dlq (V w)) \<and> grows (V w) (V w') \<and>
    (m \<in> set (b_dlq (V w')) \<or> moved_on L rec (V w') m)"
  using assms(1) unfolding handler_def
proof (cases rule: bindM_cases)
  case (raised e)
  then show ?thesis using receive_err [OF raised(1)] assms(3) by simp
next
  case (continued ms w1)
  note rcv = receive_ok [OF continued(1)]
  show ?thesis
  proof (cases "ms = []")
    case True
    then show ?thesis using continued(2) rcv assms(3) by (simp add: io_simps)
  next
    case False
    then have "retry_messages L ms 0 0 w1 = (r, w')" using continued(2) by simp
    from retry_messages_effect [OF this] show ?thesis
      using rcv assms(2,3) unfolding inj_on_def by (simp) (metis subsetD)
  qed
qed

end

section \<open>The Lambda in memory\<close>

definition mem_rec :: "string \<Rightarrow> string \<Rightarrow> kafka_record" where
  "mem_rec url data = \<lparr>kr_topic = url, kr_key = [], kr_value = data, kr_headers = []\<rparr>"

definition mem_lambda :: "(string \<Rightarrow> exn + pyval) \<Rightarrow> mem lambda_env" where
  "mem_lambda loads =
     \<lparr>le_loads = loads, le_dumps = (\<lambda>_. Inr ''{}''),
      le_format = (\<lambda>v. case v of PStr s \<Rightarrow> s | _ \<Rightarrow> ''?''), le_env = mem_env,
      le_proxy_url = ''http://redpanda:8082'', le_kafka_topic = ''order-events'',
      le_receive = (\<lambda>n. mem_op (\<lambda>b. (Inr (take n (b_dlq b)), b))),
      le_delete = (\<lambda>rh. mem_op (\<lambda>b. (Inr (), b\<lparr>b_dlq := filter (\<lambda>m. sm_receipt m \<noteq> rh) (b_dlq b)\<rparr>))),
      le_put_object = (\<lambda>key body. mem_op (\<lambda>b. (Inr (), b\<lparr>b_objects := (b_objects b)(key \<mapsto> body)\<rparr>))),
      le_urlopen = (\<lambda>url data. mem_op (\<lambda>b. (Inr 200, b\<lparr>b_topic := b_topic b @ [mem_rec url data]\<rparr>)))\<rparr>"

interpretation mem_lambda: lambda_laws "mem_lambda loads" mem_state mem_rec for loads
proof (intro lambda_laws.intro lambda_laws_axioms.intro)
  show "env_laws (le_env (mem_lambda loads)) mem_state"
    by (simp add: mem_lambda_def mem_env.env_laws_axioms)
  show "mem_state w' = mem_state w \<and> r \<noteq> Inr () \<or>
      mem_state w' = (mem_state w)\<lparr>b_dlq := filter (\<lambda>m. sm_receipt m \<noteq> rh) (b_dlq (mem_state w))\<rparr>"
    if "le_delete (mem_lambda loads) rh w = (r, w')" for rh w r w'
    using that by (cases r) (auto simp: mem_lambda_def dest!: mem_op_Inr mem_op_Inl)
  show "mem_state w' = mem_state w \<and> r \<noteq> Inr () \<or>
      mem_state w' = (mem_state w)\<lparr>b_objects := (b_objects (mem_state w))(key \<mapsto> body)\<rparr>"
    if "le_put_object (mem_lambda loads) key body w = (r, w')" for key body w r w'
    using that by (cases r) (auto simp: mem_lambda_def dest!: mem_op_Inr mem_op_Inl)
qed (auto simp: mem_lambda_def dest!: mem_op_Inr mem_op_Inl dest: in_set_takeD)

section \<open>Properties\<close>

text \<open>A queue with one message, whose event was retried as often as given.\<close>

definition sample_dlq :: mem where
  "sample_dlq = mem_init\<lparr>mem_state := (mem_state mem_init)\<lparr>b_dlq :=
     [\<lparr>sm_body = ''m'', sm_attributes = [], sm_receipt = ''r''\<rparr>]\<rparr>\<rparr>"

definition sample_parked :: "int \<Rightarrow> pyval" where
  "sample_parked n = PDict [(''event'', PDict sample_created), (''error'', PStr ''x''), (''retry_count'', PInt n)]"



text \<open>The event as the handler republishes it after the consumer has parked it.\<close>

definition next_attempt :: "pydict \<Rightarrow> pydict" where
  "next_attempt ev = (case py_succ (dict_get ev ''retry_count'' (PInt 0)) of
     Inl _ \<Rightarrow> ev | Inr n \<Rightarrow> dict_set ev ''retry_count'' n)"

lemma next_attempt_iter:
  assumes "map_of ev ''retry_count'' = None"
  shows "dict_get ((next_attempt ^^ k) ev) ''retry_count'' (PInt 0) = PInt (int k) \<and>
    (\<forall>key. key \<noteq> ''retry_count'' \<longrightarrow> map_of ((next_attempt ^^ k) ev) key = map_of ev key)"
  using assms
  by (induction k) (simp_all add: dict_get_def next_attempt_def dict_simps)



end
