(* ===== verification/Provisioning.thy ===== *)
theory Provisioning
  imports Retry_Handler
begin

text \<open>
  The set-up of the deployment (\<open>scripts/setup_localstack.py\<close>): the bucket, the dead letter queue, the
  role and the function of the retry Lambda, the rule that triggers it, and the topics.  The state of
  the cloud services is the record \<open>infra\<close>; boto3, urllib, the file system and the rpk command are the
  record \<open>aws\<close>.  The configuration that the deployed function reads from its environment
  (\<open>lambda_handlers/retry_handler.py\<close>) is modelled beside it.
\<close>

section \<open>The cloud services and their clients\<close>

record lambda_function =
  fn_runtime :: string
  fn_role :: string
  fn_handler :: string
  fn_code :: string
  fn_env :: "(string \<times> string) list"
  fn_timeout :: nat

record infra =
  in_buckets :: "string list"
  in_queues :: "string \<rightharpoonup> (string \<times> string) list"
  in_roles :: "string \<rightharpoonup> string"
  in_functions :: "string \<rightharpoonup> lambda_function"
  in_permissions :: "string \<Rightarrow> string \<rightharpoonup> string \<times> string \<times> string"
  in_rules :: "string \<rightharpoonup> string \<times> string \<times> string"
  in_targets :: "string \<Rightarrow> string \<rightharpoonup> string"
  in_topics :: "string \<rightharpoonup> string \<times> string"

record 'w aws =
  aw_endpoint :: string
  aw_script_dir :: string
  aw_dumps :: "pyval \<Rightarrow> exn + string"
  aw_exc_str :: "exn \<Rightarrow> string"
  aw_zip :: "(string \<times> string) list \<Rightarrow> string"
  aw_client :: "string \<Rightarrow> ('w, unit) io"
  aw_urlopen :: "string \<Rightarrow> ('w, unit) io"
  aw_read_file :: "string \<Rightarrow> ('w, string) io"
  aw_list_buckets :: "('w, string list) io"
  aw_create_bucket :: "string \<Rightarrow> ('w, unit) io"
  aw_create_queue :: "string \<Rightarrow> (string \<times> string) list \<Rightarrow> ('w, string) io"
  aw_queue_exists :: "exn \<Rightarrow> exn + bool"
  aw_get_queue_url :: "string \<Rightarrow> ('w, string) io"
  aw_create_role :: "string \<Rightarrow> string \<Rightarrow> ('w, string) io"
  aw_get_role :: "string \<Rightarrow> ('w, string) io"
  aw_delete_function :: "string \<Rightarrow> ('w, unit) io"
  aw_create_function :: "string \<Rightarrow> lambda_function \<Rightarrow> ('w, string) io"
  aw_add_permission :: "string \<Rightarrow> string \<Rightarrow> string \<times> string \<times> string \<Rightarrow> ('w, unit) io"
  aw_put_rule :: "string \<Rightarrow> string \<times> string \<times> string \<Rightarrow> ('w, string) io"
  aw_put_targets :: "string \<Rightarrow> (string \<times> string) list \<Rightarrow> ('w, unit) io"
  aw_run :: "string list \<Rightarrow> ('w, int \<times> string) io"

section \<open>Operations\<close>

text \<open>Thirty attempts, after which the set-up goes on anyway.\<close>

fun wait_attempts :: "'w aws \<Rightarrow> nat \<Rightarrow> ('w, unit) io" where
  "wait_attempts A 0 = returnM ()"
| "wait_attempts A (Suc n) =
     tryM (aw_urlopen A (aw_endpoint A @ ''/_localstack/health'')) (\<lambda>e. wait_attempts A n)"

definition wait_for_localstack :: "'w aws \<Rightarrow> ('w, unit) io" where
  "wait_for_localstack A = wait_attempts A 30"

definition setup_s3 :: "'w aws \<Rightarrow> ('w, unit) io" where
  "setup_s3 A =
     bindM (aw_client A ''s3'') (\<lambda>_.
     tryM
       (bindM (aw_list_buckets A) (\<lambda>existing.
        if ''event-snapshots'' \<notin> set existing then aw_create_bucket A ''event-snapshots'' else returnM ()))
       (\<lambda>e. returnM ()))"

text \<open>The class in the first \<open>except\<close> clause is looked up on the client, which may itself raise.\<close>

definition setup_sqs :: "'w aws \<Rightarrow> ('w, string option) io" where
  "setup_sqs A =
     bindM (aw_client A ''sqs'') (\<lambda>_.
     tryM
       (bindM (aw_create_queue A ''event-dlq'' [(''MessageRetentionPeriod'', ''86400'')]) (\<lambda>url.
        returnM (Some url)))
       (\<lambda>e. bindM (liftM (aw_queue_exists A e)) (\<lambda>already.
        if already then bindM (aw_get_queue_url A ''event-dlq'') (\<lambda>url. returnM (Some url))
        else returnM None)))"

definition trust_policy :: pyval where
  "trust_policy = PDict
     [(''Version'', PStr ''2012-10-17''),
      (''Statement'', PList [PDict
         [(''Effect'', PStr ''Allow''),
          (''Principal'', PDict [(''Service'', PStr ''lambda.amazonaws.com'')]),
          (''Action'', PStr ''sts:AssumeRole'')]])]"

definition setup_iam :: "'w aws \<Rightarrow> ('w, string) io" where
  "setup_iam A =
     bindM (aw_client A ''iam'') (\<lambda>_.
     bindM (liftM (aw_dumps A trust_policy)) (\<lambda>policy.
     tryM (aw_create_role A ''lambda-retry-role'' policy)
       (\<lambda>e. if str_in ''already exists'' (str_lower (aw_exc_str A e))
             then aw_get_role A ''lambda-retry-role''
             else returnM ''arn:aws:iam::000000000000:role/lambda-retry-role'')))"

definition package_lambda :: "'w aws \<Rightarrow> ('w, string) io" where
  "package_lambda A =
     bindM (aw_read_file A (aw_script_dir A @ ''/../lambda_handlers/retry_handler.py'')) (\<lambda>code.
     returnM (aw_zip A [(''retry_handler.py'', code)]))"

definition retry_function :: "string \<Rightarrow> string option \<Rightarrow> string \<Rightarrow> lambda_function" where
  "retry_function role_arn dlq_url zip_bytes =
     \<lparr>fn_runtime = ''python3.12'', fn_role = role_arn, fn_handler = ''retry_handler.handler'',
      fn_code = zip_bytes,
      fn_env =
        [(''KAFKA_BROKERS'', ''redpanda:29092''), (''PANDAPROXY_URL'', ''http://redpanda:8082''),
         (''KAFKA_TOPIC'', ''order-events''), (''S3_BUCKET'', ''event-snapshots''),
         (''SQS_DLQ_URL'', case dlq_url of None \<Rightarrow> [] | Some url \<Rightarrow> url),
         (''AWS_ENDPOINT_URL'', ''http://localstack:4566''), (''AWS_DEFAU LT_REGION'', ''us-east-1''),
         (''AWS_ACCESS_KEY_ID'', ''test''), (''AWS_SECRET_ACCESS_KEY'', ''test'')],
      fn_timeout = 30\<rparr>"

definition setup_lambda :: "'w aws \<Rightarrow> string \<Rightarrow> string option \<Rightarrow> ('w, string option) io" where
  "setup_lambda A role_arn dlq_url =
     bindM (aw_client A ''lambda'') (\<lambda>_.
     bindM (tryM (aw_delete_function A ''event-retry-handler'') (\<lambda>e. returnM ())) (\<lambda>_.
     tryM
       (bindM (package_lambda A) (\<lambda>zip_bytes.
        bindM (aw_create_function A ''event-retry-handler'' (retry_function role_arn dlq_url zip_bytes)) (\<lambda>fn_arn.
        returnM (Some fn_arn))))
       (\<lambda>e. returnM None)))"

definition setup_eventbridge :: "'w aws \<Rightarrow> string option \<Rightarrow> ('w, unit) io" where
  "setup_eventbridge A lambda_arn =
     bindM (aw_client A ''events'') (\<lambda>_.
     bindM (aw_client A ''lambda'') (\<lambda>_.
     tryM
       (bindM (aw_put_rule A ''dlq-retry-rule''
          (''rate(1 minute)'', ''ENABLED'', ''Trigger Lambda to retry failed events from DLQ'')) (\<lambda>rule_arn.
        case lambda_arn of
          None \<Rightarrow> returnM ()
        | Some arn \<Rightarrow>
            if arn = [] then returnM ()
            else
              bindM (aw_put_targets A ''dlq-retry-rule'' [(''RetryLambda'', arn)]) (\<lambda>_.
              tryM (aw_add_permission A ''event-retry-handler'' ''eventbridge-invoke''
                 (''lambda:InvokeFunction'', ''events.amazonaws.com'', rule_arn)) (\<lambda>e. returnM ()))))
       (\<lambda>e. returnM ())))"

definition topic_create :: "string \<Rightarrow> string \<Rightarrow> string \<Rightarrow> string list" where
  "topic_create t partitions replicas =
     [''docker'', ''exec'', ''redpanda'', ''rpk'', ''topic'', ''create'', t,
      ''--partitions'', partitions, ''--replicas'', replicas]"

definition setup_kafka_topic :: "'w aws \<Rightarrow> ('w, unit) io" where
  "setup_kafka_topic A =
     tryM
       (bindM (aw_run A (topic_create ''order-events'' ''6'' ''1'')) (\<lambda>_.
        bindM (aw_run A (topic_create ''order-events-dlq'' ''1'' ''1'')) (\<lambda>_.
        returnM ())))
       (\<lambda>e. returnM ())"

text \<open>The script.\<close>

definition provision :: "'w aws \<Rightarrow> ('w, unit) io" where
  "provision A =
     bindM (wait_for_localstack A) (\<lambda>_.
     bindM (setup_s3 A) (\<lambda>_.
     bindM (setup_sqs A) (\<lambda>dlq_url.
     bindM (setup_iam A) (\<lambda>role_arn.
     bindM (setup_lambda A role_arn dlq_url) (\<lambda>lambda_arn.
     bindM (setup_eventbridge A lambda_arn) (\<lambda>_.
     setup_kafka_topic A))))))"

section \<open>The configuration of the deployed function\<close>

definition environ_get :: "(string \<times> string) list \<Rightarrow> string \<Rightarrow> string \<Rightarrow> string" where
  "environ_get env k dflt = (case map_of env k of None \<Rightarrow> dflt | Some s \<Rightarrow> s)"

definition PANDAPROXY_URL :: "(string \<times> string) list \<Rightarrow> string" where
  "PANDAPROXY_URL env = environ_get env ''PANDAPROXY_URL'' ''http://redpanda:8082''"

definition KAFKA_TOPIC :: "(string \<times> string) list \<Rightarrow> string" where
  "KAFKA_TOPIC env = environ_get env ''KAFKA_TOPIC'' ''order-events''"

definition S3_BUCKET :: "(string \<times> string) list \<Rightarrow> string" where
  "S3_BUCKET env = environ_get env ''S3_BUCKET'' ''event-snapshots''"

definition handler_dlq_url :: "(string \<times> string) list \<Rightarrow> string" where
  "handler_dlq_url env = environ_get env ''SQS_DLQ_URL'' ''http://localstack:4566/000000000000/event-dlq''"

definition handler_region :: "(string \<times> string) list \<Rightarrow> string" where
  "handler_region env = environ_get env ''AWS_DEFAULT_REGION'' ''us-east-1''"

section \<open>The laws of the cloud services\<close>

definition add_bucket :: "string \<Rightarrow> string list \<Rightarrow> string list" where
  "add_bucket n bs = (if n \<in> set bs then bs else bs @ [n])"

definition add_topic :: "string \<Rightarrow> string \<times> string \<Rightarrow> (string \<rightharpoonup> string \<times> string) \<Rightarrow> (string \<rightharpoonup> string \<times> string)" where
  "add_topic t pr ts = (if t \<in> dom ts then ts else ts(t \<mapsto> pr))"

abbreviation dlq_attributes :: "(string \<times> string) list" where
  "dlq_attributes \<equiv> [(''MessageRetentionPeriod'', ''86400'')]"

text \<open>The state that the script is meant to establish.\<close>

definition provisioned ::
    "(string \<Rightarrow> string) \<Rightarrow> (string \<Rightarrow> string) \<Rightarrow> (string \<Rightarrow> string) \<Rightarrow> (string \<Rightarrow> string) \<Rightarrow>
     string \<Rightarrow> string \<Rightarrow> infra \<Rightarrow> infra" where
  "provisioned url_of role_arn fn_arn rule_arn policy zip_bytes b = b\<lparr>in_buckets := add_bucket ''event-snapshots'' (in_buckets b),
     in_queues := (in_queues b)(''event-dlq'' \<mapsto> dlq_attributes),
     in_roles := (if ''lambda-retry-role'' \<in> dom (in_roles b) then in_roles b
       else (in_roles b)(''lambda-retry-role'' \<mapsto> policy)),
     in_functions := (in_functions b)(''event-retry-handler'' \<mapsto>
       retry_function (role_arn ''lambda-retry-role'') (Some (url_of ''event-dlq'')) zip_bytes),
     in_permissions := (in_permissions b)(''event-retry-handler'' := [''eventbridge-invoke'' \<mapsto>
       (''lambda:InvokeFunction'', ''events.amazonaws.com'', rule_arn ''dlq-retry-rule'')]),
     in_rules := (in_rules b)(''dlq-retry-rule'' \<mapsto>
       (''rate(1 minute)'', ''ENABLED'', ''Trigger Lambda to retry failed events from DLQ'')),
     in_targets := (in_targets b)(''dlq-retry-rule'' := (in_targets b ''dlq-retry-rule'')
       (''RetryLambda'' \<mapsto> fn_arn ''event-retry-handler'')),
     in_topics := add_topic ''order-events-dlq'' (''1'', ''1'') (add_topic ''order-events'' (''6'', ''1'') (in_topics b))\<rparr>"

lemma provisioned_again:
  "provisioned u r f l p z (provisioned u r f l p z b) = provisioned u r f l p z b"
  by (auto simp: provisioned_def add_topic_def add_bucket_def)

text \<open>
  What AWS documents, for services that answer: names are keys, URLs and ARNs are functions of names;
  creating a queue again with the same attributes returns it, creating a role again is an error whose
  text says so; a rule is replaced and a target is replaced within its rule.
\<close>

locale aws_up =
  fixes A :: "'w aws" and U :: "'w \<Rightarrow> infra" and url_of role_arn fn_arn rule_arn :: "string \<Rightarrow> string"
    and policy code :: string
  assumes dumps_up: "aw_dumps A trust_policy = Inr policy"
    and fn_arn_nonempty: "fn_arn n \<noteq> []"
    and client_up: "\<exists>w'. aw_client A s w = (Inr (), w') \<and> U w' = U w"
    and urlopen_view: "aw_urlopen A url w = (q1, w') \<Longrightarrow> U w' = U w"
    and read_file_up: "\<exists>w'. aw_read_file A (aw_script_dir A @ ''/../lambda_handlers/retry_handler.py'') w = (Inr code, w') \<and>
      U w' = U w"
    and list_buckets_up: "\<exists>bs w'. aw_list_buckets A w = (Inr bs, w') \<and> set bs = set (in_buckets (U w)) \<and> U w' = U w"
    and create_bucket_up: "b \<notin> set (in_buckets (U w)) \<Longrightarrow>
      \<exists>w'. aw_create_bucket A b w = (Inr (), w') \<and> U w' = (U w)\<lparr>in_buckets := in_buckets (U w) @ [b]\<rparr>"
    and create_queue_up: "in_queues (U w) qn \<in> {None, Some atts} \<Longrightarrow>
      \<exists>w'. aw_create_queue A qn atts w = (Inr (url_of qn), w') \<and> U w' = (U w)\<lparr>in_queues := (in_queues (U w))(qn \<mapsto> atts)\<rparr>"
    and create_role_up: "in_roles (U w) rn = None \<Longrightarrow>
      \<exists>w'. aw_create_role A rn pol w = (Inr (role_arn rn), w') \<and> U w' = (U w)\<lparr>in_roles := (in_roles (U w))(rn \<mapsto> pol)\<rparr>"
    and create_role_exists: "in_roles (U w) rn \<noteq> None \<Longrightarrow>
      \<exists>e w'. aw_create_role A rn pol w = (Inl e, w') \<and> str_in ''already exists'' (str_lower (aw_exc_str A e)) \<and> U w' = U w"
    and get_role_up: "in_roles (U w) rn \<noteq> None \<Longrightarrow> \<exists>w'. aw_get_role A rn w = (Inr (role_arn rn), w') \<and> U w' = U w"
    and delete_function_any: "aw_delete_function A n w = (q2, w') \<Longrightarrow>
      U w' = (U w)\<lparr>in_functions := (in_functions (U w))(n := None)\<rparr>"
    and create_function_up: "in_functions (U w) n = None \<Longrightarrow>
      \<exists>w'. aw_create_function A n f w = (Inr (fn_arn n), w') \<and>
        U w' = (U w)\<lparr>in_functions := (in_functions (U w))(n \<mapsto> f),
          in_permissions := (in_permissions (U w))(n := Map.empty)\<rparr>"
    and add_permission_up: "in_functions (U w) n \<noteq> None \<Longrightarrow> in_permissions (U w) n sid = None \<Longrightarrow>
      \<exists>w'. aw_add_permission A n sid pm w = (Inr (), w') \<and>
        U w' = (U w)\<lparr>in_permissions := (in_permissions (U w))(n := (in_permissions (U w) n)(sid \<mapsto> pm))\<rparr>"
    and put_rule_up: "\<exists>w'. aw_put_rule A n rl w = (Inr (rule_arn n), w') \<and>
      U w' = (U w)\<lparr>in_rules := (in_rules (U w))(n \<mapsto> rl)\<rparr>"
    and put_targets_up: "in_rules (U w) n \<noteq> None \<Longrightarrow> \<exists>w'. aw_put_targets A n [(i, arn)] w = (Inr (), w') \<and>
      U w' = (U w)\<lparr>in_targets := (in_targets (U w))(n := (in_targets (U w) n)(i \<mapsto> arn))\<rparr>"
    and run_up: "\<exists>x w'. aw_run A (topic_create t np nr) w = (Inr x, w') \<and>
      U w' = (U w)\<lparr>in_topics := add_topic t (np, nr) (in_topics (U w))\<rparr>"
begin

lemma wait_up: "\<exists>w'. wait_attempts A n w = (Inr (), w') \<and> U w' = U w"
proof (induction n arbitrary: w)
  case 0
  then show ?case by (simp add: io_simps)
next
  case (Suc n)
  obtain r w1 where w1: "aw_urlopen A (aw_endpoint A @ ''/_localstack/health'') w = (r, w1)" by fastforce
  then show ?case
    using urlopen_view [OF w1] Suc.IH [of w1] by (cases r) (auto simp: tryM_def)
qed

lemma setup_s3_up:
  "\<exists>w'. setup_s3 A w = (Inr (), w') \<and> U w' = (U w)\<lparr>in_buckets := add_bucket ''event-snapshots'' (in_buckets (U w))\<rparr>"
proof -
  obtain w1 where w1: "aw_client A ''s3'' w = (Inr (), w1)" "U w1 = U w" using client_up by blast
  obtain bs w2 where w2: "aw_list_buckets A w1 = (Inr bs, w2)" "set bs = set (in_buckets (U w))" "U w2 = U w"
    using list_buckets_up [of w1] w1(2) by auto
  show ?thesis
  proof (cases "''event-snapshots'' \<in> set (in_buckets (U w))")
    case True
    then show ?thesis using w1(1) w2 by (auto simp: setup_s3_def bindM_def tryM_def io_simps add_bucket_def)
  next
    case False
    then show ?thesis
      using create_bucket_up [of "''event-snapshots''" w2] w1(1) w2 by (auto simp: setup_s3_def bindM_def tryM_def io_simps add_bucket_def)
  qed
qed

lemma setup_sqs_up:
  assumes "in_queues (U w) ''event-dlq'' \<in> {None, Some dlq_attributes}"
  shows "\<exists>w'. setup_sqs A w = (Inr (Some (url_of ''event-dlq'')), w') \<and>
    U w' = (U w)\<lparr>in_queues := (in_queues (U w))(''event-dlq'' \<mapsto> dlq_attributes)\<rparr>"
proof -
  obtain w1 where w1: "aw_client A ''sqs'' w = (Inr (), w1)" "U w1 = U w" using client_up by blast
  then show ?thesis
    using create_queue_up [of w1 "''event-dlq''" dlq_attributes] assms
    by (auto simp: setup_sqs_def bindM_def tryM_def io_simps)
qed

lemma setup_iam_up:
  "\<exists>w'. setup_iam A w = (Inr (role_arn ''lambda-retry-role''), w') \<and>
     U w' = (U w)\<lparr>in_roles := (if ''lambda-retry-role'' \<in> dom (in_roles (U w)) then in_roles (U w)
       else (in_roles (U w))(''lambda-retry-role'' \<mapsto> policy))\<rparr>"
proof -
  obtain w1 where w1: "aw_client A ''iam'' w = (Inr (), w1)" "U w1 = U w" using client_up by blast
  show ?thesis
  proof (cases "''lambda-retry-role'' \<in> dom (in_roles (U w))")
    case True
    then obtain e w2 where w2: "aw_create_role A ''lambda-retry-role'' policy w1 = (Inl e, w2)" "U w2 = U w"
      "str_in ''already exists'' (str_lower (aw_exc_str A e))"
      using create_role_exists [of w1 _ policy] w1(2) by fastforce
    then show ?thesis
      using True get_role_up [of w2 "''lambda-retry-role''"] w1(1) dumps_up
      by (auto simp: setup_iam_def bindM_def tryM_def io_simps)
  next
    case False
    then show ?thesis
      using create_role_up [of w1 "''lambda-retry-role''" policy] w1 dumps_up
      by (auto simp: setup_iam_def bindM_def tryM_def io_simps domIff)
  qed
qed

lemma setup_lambda_up:
  "\<exists>w'. setup_lambda A role dlq w = (Inr (Some (fn_arn ''event-retry-handler'')), w') \<and>
     U w' = (U w)\<lparr>in_functions := (in_functions (U w))(''event-retry-handler'' \<mapsto>
         retry_function role dlq (aw_zip A [(''retry_handler.py'', code)])),
       in_permissions := (in_permissions (U w))(''event-retry-handler'' := Map.empty)\<rparr>"
proof -
  let ?n = "''event-retry-handler''"
  obtain w1 where w1: "aw_client A ''lambda'' w = (Inr (), w1)" "U w1 = U w" using client_up by blast
  obtain r w2 where d: "aw_delete_function A ?n w1 = (r, w2)" by fastforce
  then have w2: "tryM (aw_delete_function A ?n) (\<lambda>e. returnM ()) w1 = (Inr (), w2)"
    "U w2 = (U w)\<lparr>in_functions := (in_functions (U w))(?n := None)\<rparr>"
    using delete_function_any [OF d] w1(2) by (cases r; simp add: tryM_def io_simps)+
  obtain w3 where w3: "package_lambda A w2 = (Inr (aw_zip A [(''retry_handler.py'', code)]), w3)" "U w3 = U w2"
    using read_file_up [of w2] by (auto simp: package_lambda_def bindM_def io_simps)
  obtain w4 where "aw_create_function A ?n (retry_function role dlq (aw_zip A [(''retry_handler.py'', code)])) w3 =
      (Inr (fn_arn ?n), w4)"
    "U w4 = (U w3)\<lparr>in_functions := (in_functions (U w3))(?n \<mapsto> retry_function role dlq (aw_zip A [(''retry_handler.py'', code)])),
      in_permissions := (in_permissions (U w3))(?n := Map.empty)\<rparr>"
    using create_function_up [of w3 ?n] w3(2) w2(2) by auto
  then show ?thesis
    using w1(1) w2 w3 by (auto simp: setup_lambda_def bindM_def tryM_def [of "bindM _ _"] io_simps)
qed

lemma setup_eventbridge_up:
  assumes "in_functions (U w) ''event-retry-handler'' \<noteq> None"
    and "in_permissions (U w) ''event-retry-handler'' = Map.empty"
  shows "\<exists>w'. setup_eventbridge A (Some (fn_arn ''event-retry-handler'')) w = (Inr (), w') \<and>
    U w' = (U w)\<lparr>in_permissions := (in_permissions (U w))(''event-retry-handler'' := [''eventbridge-invoke'' \<mapsto>
        (''lambda:InvokeFunction'', ''events.amazonaws.com'', rule_arn ''dlq-retry-rule'')]),
      in_rules := (in_rules (U w))(''dlq-retry-rule'' \<mapsto>
        (''rate(1 minute)'', ''ENABLED'', ''Trigger Lambda to retry failed events from DLQ'')),
      in_targets := (in_targets (U w))(''dlq-retry-rule'' := (in_targets (U w) ''dlq-retry-rule'')
        (''RetryLambda'' \<mapsto> fn_arn ''event-retry-handler''))\<rparr>"
proof -
  let ?n = "''event-retry-handler''" and ?rl = "''dlq-retry-rule''"
  let ?rule = "(''rate(1 minute)'', ''ENABLED'', ''Trigger Lambda to retry failed events from DLQ'')"
  let ?perm = "(''lambda:InvokeFunction'', ''events.amazonaws.com'', rule_arn ?rl)"
  obtain w1 where w1: "aw_client A ''events'' w = (Inr (), w1)" "U w1 = U w" using client_up by blast
  obtain w2 where w2: "aw_client A ''lambda'' w1 = (Inr (), w2)" "U w2 = U w" using client_up w1(2) by metis
  obtain w3 where w3: "aw_put_rule A ?rl ?rule w2 = (Inr (rule_arn ?rl), w3)"
    "U w3 = (U w)\<lparr>in_rules := (in_rules (U w))(?rl \<mapsto> ?rule)\<rparr>"
    using put_rule_up [of ?rl ?rule w2] w2(2) by auto
  obtain w4 where w4: "aw_put_targets A ?rl [(''RetryLambda'', fn_arn ?n)] w3 = (Inr (), w4)"
    "U w4 = (U w3)\<lparr>in_targets := (in_targets (U w3))(?rl := (in_targets (U w3) ?rl)(''RetryLambda'' \<mapsto> fn_arn ?n))\<rparr>"
    using put_targets_up [of w3 ?rl "''RetryLambda''" "fn_arn ?n"] w3(2) by auto
  obtain w5 where "aw_add_permission A ?n ''eventbridge-invoke'' ?perm w4 = (Inr (), w5)"
    "U w5 = (U w4)\<lparr>in_permissions := (in_permissions (U w4))(?n := (in_permissions (U w4) ?n)(''eventbridge-invoke'' \<mapsto> ?perm))\<rparr>"
    using add_permission_up [of w4 ?n "''eventbridge-invoke''" ?perm] assms w4(2) w3(2) by auto
  then show ?thesis
    using w1(1) w2(1) w3 w4 fn_arn_nonempty assms(2) by (auto simp: setup_eventbridge_def bindM_def tryM_def io_simps)
qed

lemma setup_kafka_topic_up:
  "\<exists>w'. setup_kafka_topic A w = (Inr (), w') \<and> U w' = (U w)\<lparr>in_topics :=
     add_topic ''order-events-dlq'' (''1'', ''1'') (add_topic ''order-events'' (''6'', ''1'') (in_topics (U w)))\<rparr>"
proof -
  obtain x w1 where w1: "aw_run A (topic_create ''order-events'' ''6'' ''1'') w = (Inr x, w1)"
    "U w1 = (U w)\<lparr>in_topics := add_topic ''order-events'' (''6'', ''1'') (in_topics (U w))\<rparr>"
    using run_up by blast
  obtain y w2 where "aw_run A (topic_create ''order-events-dlq'' ''1'' ''1'') w1 = (Inr y, w2)"
    "U w2 = (U w1)\<lparr>in_topics := add_topic ''order-events-dlq'' (''1'', ''1'') (in_topics (U w1))\<rparr>"
    using run_up by blast
  then show ?thesis using w1 by (auto simp: setup_kafka_topic_def bindM_def tryM_def io_simps)
qed

lemma provision_up:
  assumes "in_queues (U w) ''event-dlq'' \<in> {None, Some dlq_attributes}"
  shows "\<exists>w'. provision A w = (Inr (), w') \<and>
    U w' = provisioned url_of role_arn fn_arn rule_arn policy (aw_zip A [(''retry_handler.py'', code)]) (U w)"
proof -
  obtain w1 where w1: "wait_for_localstack A w = (Inr (), w1)" "U w1 = U w"
    using wait_up unfolding wait_for_localstack_def by blast
  obtain w2 where w2: "setup_s3 A w1 = (Inr (), w2)"
    "U w2 = (U w)\<lparr>in_buckets := add_bucket ''event-snapshots'' (in_buckets (U w))\<rparr>"
    using setup_s3_up [of w1] w1(2) by auto
  obtain w3 where w3: "setup_sqs A w2 = (Inr (Some (url_of ''event-dlq'')), w3)"
    "U w3 = (U w2)\<lparr>in_queues := (in_queues (U w2))(''event-dlq'' \<mapsto> dlq_attributes)\<rparr>"
    using setup_sqs_up [of w2] assms w2(2) by auto
  obtain w4 where w4: "setup_iam A w3 = (Inr (role_arn ''lambda-retry-role''), w4)"
    "U w4 = (U w3)\<lparr>in_roles := (if ''lambda-retry-role'' \<in> dom (in_roles (U w3)) then in_roles (U w3)
       else (in_roles (U w3))(''lambda-retry-role'' \<mapsto> policy))\<rparr>"
    using setup_iam_up by blast
  obtain w5 where w5: "setup_lambda A (role_arn ''lambda-retry-role'') (Some (url_of ''event-dlq'')) w4 =
      (Inr (Some (fn_arn ''event-retry-handler'')), w5)"
    "U w5 = (U w4)\<lparr>in_functions := (in_functions (U w4))(''event-retry-handler'' \<mapsto>
         retry_function (role_arn ''lambda-retry-role'') (Some (url_of ''event-dlq'')) (aw_zip A [(''retry_handler.py'', code)])),
       in_permissions := (in_permissions (U w4))(''event-retry-handler'' := Map.empty)\<rparr>"
    using setup_lambda_up by blast
  obtain w6 where w6: "setup_eventbridge A (Some (fn_arn ''event-retry-handler'')) w5 = (Inr (), w6)"
    "U w6 = (U w5)\<lparr>in_permissions := (in_permissions (U w5))(''event-retry-handler'' := [''eventbridge-invoke'' \<mapsto>
        (''lambda:InvokeFunction'', ''events.amazonaws.com'', rule_arn ''dlq-retry-rule'')]),
      in_rules := (in_rules (U w5))(''dlq-retry-rule'' \<mapsto>
        (''rate(1 minute)'', ''ENABLED'', ''Trigger Lambda to retry failed events from DLQ'')),
      in_targets := (in_targets (U w5))(''dlq-retry-rule'' := (in_targets (U w5) ''dlq-retry-rule'')
        (''RetryLambda'' \<mapsto> fn_arn ''event-retry-handler''))\<rparr>"
    using setup_eventbridge_up [of w5] w5(2) by auto
  obtain w7 where w7: "setup_kafka_topic A w6 = (Inr (), w7)" "U w7 = (U w6)\<lparr>in_topics :=
     add_topic ''order-events-dlq'' (''1'', ''1'') (add_topic ''order-events'' (''6'', ''1'') (in_topics (U w6)))\<rparr>"
    using setup_kafka_topic_up by blast
  have "provision A w = (Inr (), w7)"
    using w1(1) w2(1) w3(1) w4(1) w5(1) w6(1) w7(1) by (simp add: provision_def bindM_def)
  moreover have "U w7 = provisioned url_of role_arn fn_arn rule_arn policy (aw_zip A [(''retry_handler.py'', code)]) (U w)"
    unfolding provisioned_def w7(2) w6(2) w5(2) w4(2) w3(2) w2(2) by simp
  ultimately show ?thesis by blast
qed

end

section \<open>Cloud services in memory\<close>

definition empty_infra :: infra where
  "empty_infra =
     \<lparr>in_buckets = [], in_queues = Map.empty, in_roles = Map.empty, in_functions = Map.empty,
      in_permissions = (\<lambda>_. Map.empty), in_rules = Map.empty, in_targets = (\<lambda>_. Map.empty), in_topics = Map.empty\<rparr>"

text \<open>The queue service answers or not, as given.\<close>

definition mem_aws :: "bool \<Rightarrow> infra aws" where
  "mem_aws sqs_up =
     \<lparr>aw_endpoint = ''http://localhost:4566'', aw_script_dir = ''scripts'', aw_dumps = (\<lambda>_. Inr ''{}''),
      aw_exc_str = exn_text, aw_zip = (\<lambda>files. concat (map snd files)),
      aw_client = (\<lambda>s b. (Inr (), b)), aw_urlopen = (\<lambda>url b. (Inr (), b)),
      aw_read_file = (\<lambda>path b. (Inr ''import json'', b)),
      aw_list_buckets = (\<lambda>b. (Inr (in_buckets b), b)),
      aw_create_bucket = (\<lambda>n b. (Inr (), b\<lparr>in_buckets := in_buckets b @ [n]\<rparr>)),
      aw_create_queue = (\<lambda>q atts b.
        if sqs_up \<and> in_queues b q \<in> {None, Some atts} then (Inr (''queue/'' @ q), b\<lparr>in_queues := (in_queues b)(q \<mapsto> atts)\<rparr>)
        else (Inl (DriverError ''service unavailable''), b)),
      aw_queue_exists = (\<lambda>e. Inr False),
      aw_get_queue_url = (\<lambda>q b. (Inr (''queue/'' @ q), b)),
      aw_create_role = (\<lambda>r p b. case in_roles b r of
          None \<Rightarrow> (Inr (''role/'' @ r), b\<lparr>in_roles := (in_roles b)(r \<mapsto> p)\<rparr>)
        | Some _ \<Rightarrow> (Inl (DriverError ''Role already exists''), b)),
      aw_get_role = (\<lambda>r b. (Inr (''role/'' @ r), b)),
      aw_delete_function = (\<lambda>n b. case in_functions b n of
          None \<Rightarrow> (Inl (DriverError ''Function not found''), b)
        | Some _ \<Rightarrow> (Inr (), b\<lparr>in_functions := (in_functions b)(n := None)\<rparr>)),
      aw_create_function = (\<lambda>n f b.
        (Inr (''function/'' @ n), b\<lparr>in_functions := (in_functions b)(n \<mapsto> f),
           in_permissions := (in_permissions b)(n := Map.empty)\<rparr>)),
      aw_add_permission = (\<lambda>n sid p b.
        (Inr (), b\<lparr>in_permissions := (in_permissions b)(n := (in_permissions b n)(sid \<mapsto> p))\<rparr>)),
      aw_put_rule = (\<lambda>n rl b. (Inr (''rule/'' @ n), b\<lparr>in_rules := (in_rules b)(n \<mapsto> rl)\<rparr>)),
      aw_put_targets = (\<lambda>n ts b.
        (Inr (), b\<lparr>in_targets := (in_targets b)(n := (in_targets b n)(map fst ts [\<mapsto>] map snd ts))\<rparr>)),
      aw_run = (\<lambda>args b. (Inr (0, []), b\<lparr>in_topics := add_topic (args ! 6) (args ! 8, args ! 10) (in_topics b)\<rparr>))\<rparr>"

abbreviation mem_provisioned :: "infra \<Rightarrow> infra" where
  "mem_provisioned \<equiv> provisioned (\<lambda>q. ''queue/'' @ q) (\<lambda>r. ''role/'' @ r) (\<lambda>n. ''function/'' @ n) (\<lambda>n. ''rule/'' @ n)
     ''{}'' ''import json''"

interpretation mem_aws: aws_up "mem_aws True" id "\<lambda>q. ''queue/'' @ q" "\<lambda>r. ''role/'' @ r" "\<lambda>n. ''function/'' @ n"
    "\<lambda>n. ''rule/'' @ n" "''{}''" "''import json''"
proof unfold_locales
  have "str_in ''already exists'' (str_lower ''Role already exists'')"
    by code_simp
  then show "\<exists>e w'. aw_create_role (mem_aws True) rn pol w = (Inl e, w') \<and>
      str_in ''already exists'' (str_lower (aw_exc_str (mem_aws True) e)) \<and> id w' = id w"
    if "in_roles (id w) rn \<noteq> None" for w rn pol
    using that by (auto simp: mem_aws_def)
qed (auto simp: mem_aws_def topic_create_def fun_upd_idem split: option.splits)

section \<open>Properties\<close>

text \<open>
  What the handler reads from the environment of the deployed function.  The region is its default,
  since the variable that the script sets is misspelt.
\<close>

lemma retry_function_config:
  "handler_dlq_url (fn_env (retry_function r q z)) = (case q of None \<Rightarrow> [] | Some url \<Rightarrow> url)"
  "S3_BUCKET (fn_env (retry_function r q z)) = ''event-snapshots''"
  "KAFKA_TOPIC (fn_env (retry_function r q z)) = ''order-events''"
  "PANDAPROXY_URL (fn_env (retry_function r q z)) = ''http://redpanda:8082''"
  "handler_region (fn_env (retry_function r q z)) = handler_region []"
  by (simp_all add: handler_region_def handler_dlq_url_def S3_BUCKET_def KAFKA_TOPIC_def PANDAPROXY_URL_def environ_get_def retry_function_def)

text \<open>
  C25. Provisioning converges: on services that answer, unless the dead letter queue exists with other
  attributes, the script ends without an exception, the deployed function polls the queue that was
  set up, writes to a bucket and publishes to a topic that exist and that the service's settings
  name, and the rule triggers it; running the script again leaves everything as it is.
\<close>

theorem provisioning_converges:
  assumes "aws_up A U url_of role_arn fn_arn rule_arn policy code"
    and "in_queues (U w) ''event-dlq'' \<in> {None, Some dlq_attributes}"
  shows "\<exists>w1 w2 f. provision A w = (Inr (), w1) \<and> provision A w1 = (Inr (), w2) \<and> U w2 = U w1 \<and>
    U w1 = provisioned url_of role_arn fn_arn rule_arn policy (aw_zip A [(''retry_handler.py'', code)]) (U w) \<and>
    in_functions (U w1) ''event-retry-handler'' = Some f \<and>
    handler_dlq_url (fn_env f) = url_of ''event-dlq'' \<and> in_queues (U w1) ''event-dlq'' = Some dlq_attributes \<and>
    S3_BUCKET (fn_env f) = s3_bucket default_settings \<and> s3_bucket default_settings \<in> set (in_buckets (U w1)) \<and>
    KAFKA_TOPIC (fn_env f) = kafka_topic_orders default_settings \<and> kafka_topic_orders default_settings \<in> dom (in_topics (U w1)) \<and>
    in_targets (U w1) ''dlq-retry-rule'' ''RetryLambda'' = Some (fn_arn ''event-retry-handler'')"
proof -
  let ?P = "provisioned url_of role_arn fn_arn rule_arn policy (aw_zip A [(''retry_handler.py'', code)])"
  obtain w1 where w1: "provision A w = (Inr (), w1)" "U w1 = ?P (U w)"
    using aws_up.provision_up [OF assms] by blast
  have q: "in_queues (U w1) ''event-dlq'' = Some dlq_attributes"
    by (simp add: w1(2) provisioned_def)
  obtain w2 where w2: "provision A w1 = (Inr (), w2)" "U w2 = ?P (U w1)"
    using aws_up.provision_up [OF assms(1), of w1] q by auto
  then have "U w2 = U w1"
    by (simp add: w1(2) provisioned_again)
  with w1 w2(1) q show ?thesis
    by (auto simp: provisioned_def retry_function_config add_bucket_def add_topic_def default_settings_def)
qed

theorem provisioning_converges_witness:
  "\<exists>w1 w2. provision (mem_aws True) empty_infra = (Inr (), w1) \<and> provision (mem_aws True) w1 = (Inr (), w2) \<and> w2 = w1 \<and>
     in_targets w1 ''dlq-retry-rule'' ''RetryLambda'' = Some ''function/event-retry-handler''"
proof -
  have "in_queues (id empty_infra) ''event-dlq'' \<in> {None, Some dlq_attributes}"
    by (simp add: empty_infra_def)
  from provisioning_converges [OF mem_aws.aws_up_axioms this] show ?thesis by auto
qed

text \<open>
  When the queue cannot be created, the script reports it and goes on: the function is deployed
  and triggered with an empty queue URL, which hides the handler's own default, so every run of it
  polls a queue that does not exist.
\<close>

theorem failed_queue_misconfigures_lambda:
  "\<exists>w f. provision (mem_aws False) empty_infra = (Inr (), w) \<and>
     in_functions w ''event-retry-handler'' = Some f \<and> handler_dlq_url (fn_env f) = [] \<and>
     handler_dlq_url [] = ''http://localstack:4566/000000000000/event-dlq'' \<and>
     in_targets w ''dlq-retry-rule'' ''RetryLambda'' = Some ''function/event-retry-handler''"
  by (simp add: provision_def wait_for_localstack_def setup_s3_def setup_sqs_def setup_iam_def setup_lambda_def
      setup_eventbridge_def setup_kafka_topic_def package_lambda_def mem_aws_def empty_infra_def bindM_def tryM_def io_simps
      retry_function_config topic_create_def numeral_eq_Suc)
    (simp add: handler_dlq_url_def environ_get_def)

end
