(* ===== verification/Payment_Gateway.thy ===== *)
theory Payment_Gateway
  imports Prelude
begin

text \<open>
  The mock payment gateway (\<open>api/services/payment_gateway.py\<close>).  Its \<open>asyncio.sleep\<close> has no
  effect on any state.
\<close>

definition charge :: "string \<Rightarrow> pyfloat \<Rightarrow> string \<Rightarrow> pydict" where
  "charge payment_id amount method =
     (if startswith payment_id ''fail_''
      then [(''success'', PBool False), (''error'', PStr ''Payment declined by bank'')]
      else [(''success'', PBool True), (''transaction_ref'', PStr (''TXN_'' @ payment_id))])"

lemma charge_success: "dict_item (charge p a m) ''success'' = Inr (PBool (\<not> startswith p ''fail_''))"
  by (simp add: charge_def dict_item_def)

lemma charge_error:
  "startswith p ''fail_'' \<Longrightarrow> dict_item (charge p a m) ''error'' = Inr (PStr ''Payment declined by bank'')"
  by (simp add: charge_def dict_item_def)

end
