(* ===== verification/Command_Router.thy ===== *)
theory Command_Router
  imports Event_Store Publisher Payment_Gateway
begin

text \<open>
  The write side of the API (\<open>api/routers/command_router.py\<close>): the six command handlers, each
  as the source composes it -- load the aggregate, check the rule, make the event, append it
  to the store, publish it, answer.  The libraries and settings a handler uses besides its
  injected dependencies are the record \<open>platform\<close>.
\<close>

record 'w platform =
  pf_settings :: settings
  pf_env :: "'w pyenv"
  pf_retry :: "'w tenacity"
  pf_dumps :: "pyval \<Rightarrow> exn + string"

abbreviation publish_via :: "'w platform \<Rightarrow> 'w event_publisher \<Rightarrow> base_event \<Rightarrow> ('w, unit) io" where
  "publish_via P publisher event \<equiv> publish (pf_settings P) (pf_dumps P) (pf_retry P) publisher event"

definition not_found :: "string \<Rightarrow> exn" where
  "not_found order_id =
     HTTPException 404 [Lit ''Order '', Fmt (PStr order_id), Lit '' not found'']"

definition load_aggregate :: "'w mongo_collection \<Rightarrow> string \<Rightarrow> ('w, order_aggregate) io" where
  "load_aggregate event_store order_id =
     bindM (get_events event_store order_id) (\<lambda>events.
     if events = [] then raiseM (not_found order_id)
     else liftM (rebuild_from_events events))"

definition create_order ::
    "'w platform \<Rightarrow> 'w mongo_collection \<Rightarrow> 'w event_publisher \<Rightarrow> 'w redis_client \<Rightarrow>
     create_order_request \<Rightarrow> ('w, command_response) io" where
  "create_order P event_store publisher redis req =
     (let idem_cache_key = ''idem:create:'' @ co_idempotency_key req in
      bindM (redis_get redis idem_cache_key) (\<lambda>cached_order_id.
      case cached_order_id of
        Some (c # cs) \<Rightarrow>
          bindM (get_latest_version event_store (c # cs)) (\<lambda>version.
          returnM \<lparr>cr_event_id = ''cached'', cr_aggregate_id = c # cs,
                   cr_aggregate_version = version,
                   cr_message = ''Order already created (idempotent)''\<rparr>)
      | _ \<Rightarrow>
          bindM (effM (uuid4 (pf_env P))) (\<lambda>order_id.
          bindM (order_created_event (pf_env P) order_id (co_customer_id req)
                   (co_customer_email req)) (\<lambda>event.
          bindM (append_es event_store (model_dump event)) (\<lambda>_.
          bindM (publish_via P publisher event) (\<lambda>_.
          bindM (redis_setex redis idem_cache_key 86400 order_id) (\<lambda>_.
          returnM \<lparr>cr_event_id = ev_event_id event, cr_aggregate_id = order_id,
                   cr_aggregate_version = ev_aggregate_version event,
                   cr_message = ''Order created''\<rparr>)))))))"

definition add_item ::
    "'w platform \<Rightarrow> 'w mongo_collection \<Rightarrow> 'w event_publisher \<Rightarrow> string \<Rightarrow>
     add_item_request \<Rightarrow> ('w, command_response) io" where
  "add_item P event_store publisher order_id req =
     bindM (load_aggregate event_store order_id) (\<lambda>agg.
     bindM (liftM (assert_can_add_item agg)) (\<lambda>_.
     bindM (order_item_added_event (pf_env P) order_id (agg_version agg + 1)
              (ai_product_id req) (ai_product_name req) (ai_quantity req)
              (ai_unit_price req)) (\<lambda>event.
     bindM (append_es event_store (model_dump event)) (\<lambda>_.
     bindM (publish_via P publisher event) (\<lambda>_.
     returnM \<lparr>cr_event_id = ev_event_id event, cr_aggregate_id = order_id,
              cr_aggregate_version = ev_aggregate_version event,
              cr_message = ''Item '' @ ai_product_name req @ '' added''\<rparr>)))))"

definition confirm_order ::
    "'w platform \<Rightarrow> 'w mongo_collection \<Rightarrow> 'w event_publisher \<Rightarrow> string \<Rightarrow>
     ('w, command_response) io" where
  "confirm_order P event_store publisher order_id =
     bindM (load_aggregate event_store order_id) (\<lambda>agg.
     bindM (liftM (assert_can_confirm agg)) (\<lambda>_.
     bindM (order_confirmed_event (pf_env P) order_id (agg_version agg + 1)) (\<lambda>event.
     bindM (append_es event_store (model_dump event)) (\<lambda>_.
     bindM (publish_via P publisher event) (\<lambda>_.
     returnM \<lparr>cr_event_id = ev_event_id event, cr_aggregate_id = order_id,
              cr_aggregate_version = ev_aggregate_version event,
              cr_message = ''Order confirmed''\<rparr>)))))"

definition process_payment ::
    "'w platform \<Rightarrow> 'w mongo_collection \<Rightarrow> 'w event_publisher \<Rightarrow> string \<Rightarrow>
     process_payment_request \<Rightarrow> ('w, command_response) io" where
  "process_payment P event_store publisher order_id req =
     bindM (load_aggregate event_store order_id) (\<lambda>agg.
     bindM (liftM (assert_can_pay agg)) (\<lambda>_.
     let result = charge (pp_payment_id req) (pp_amount req) (pp_method req) in
     bindM (liftM (dict_item result ''success'')) (\<lambda>success.
     if \<not> truthy success
     then bindM (liftM (dict_item result ''error'')) (\<lambda>err.
          raiseM (HTTPException 402 [Lit ''Payment failed: '', Fmt err]))
     else
       bindM (order_payment_processed_event (pf_env P) order_id (agg_version agg + 1)
                (pp_payment_id req) (pp_amount req) (pp_method req)) (\<lambda>event.
       bindM (append_es event_store (model_dump event)) (\<lambda>_.
       bindM (publish_via P publisher event) (\<lambda>_.
       returnM \<lparr>cr_event_id = ev_event_id event, cr_aggregate_id = order_id,
                cr_aggregate_version = ev_aggregate_version event,
                cr_message = ''Payment processed''\<rparr>))))))"

definition ship_order ::
    "'w platform \<Rightarrow> 'w mongo_collection \<Rightarrow> 'w event_publisher \<Rightarrow> string \<Rightarrow>
     ship_order_request \<Rightarrow> ('w, command_response) io" where
  "ship_order P event_store publisher order_id req =
     bindM (load_aggregate event_store order_id) (\<lambda>agg.
     bindM (liftM (assert_can_ship agg)) (\<lambda>_.
     bindM (order_shipped_event (pf_env P) order_id (agg_version agg + 1)
              (so_tracking_id req) (so_carrier req)) (\<lambda>event.
     bindM (append_es event_store (model_dump event)) (\<lambda>_.
     bindM (publish_via P publisher event) (\<lambda>_.
     returnM \<lparr>cr_event_id = ev_event_id event, cr_aggregate_id = order_id,
              cr_aggregate_version = ev_aggregate_version event,
              cr_message = ''Order shipped via '' @ so_carrier req\<rparr>)))))"

definition cancel_order ::
    "'w platform \<Rightarrow> 'w mongo_collection \<Rightarrow> 'w event_publisher \<Rightarrow> string \<Rightarrow>
     cancel_order_request \<Rightarrow> ('w, command_response) io" where
  "cancel_order P event_store publisher order_id req =
     bindM (load_aggregate event_store order_id) (\<lambda>agg.
     bindM (liftM (assert_can_cancel agg)) (\<lambda>_.
     bindM (order_cancelled_event (pf_env P) order_id (agg_version agg + 1) (ca_reason req)) (\<lambda>event.
     bindM (append_es event_store (model_dump event)) (\<lambda>_.
     bindM (publish_via P publisher event) (\<lambda>_.
     returnM \<lparr>cr_event_id = ev_event_id event, cr_aggregate_id = order_id,
              cr_aggregate_version = ev_aggregate_version event,
              cr_message = ''Order cancelled''\<rparr>)))))"

text \<open>The six routes, as one dispatcher.\<close>

datatype command =
    CreateOrder create_order_request
  | AddItem string add_item_request
  | ConfirmOrder string
  | ProcessPayment string process_payment_request
  | ShipOrder string ship_order_request
  | CancelOrder string cancel_order_request

fun exec_command ::
    "'w platform \<Rightarrow> 'w mongo_collection \<Rightarrow> 'w event_publisher \<Rightarrow> 'w redis_client \<Rightarrow>
     command \<Rightarrow> ('w, command_response) io" where
  "exec_command P es pb rd (CreateOrder req) = create_order P es pb rd req"
| "exec_command P es pb rd (AddItem oid req) = add_item P es pb oid req"
| "exec_command P es pb rd (ConfirmOrder oid) = confirm_order P es pb oid"
| "exec_command P es pb rd (ProcessPayment oid req) = process_payment P es pb oid req"
| "exec_command P es pb rd (ShipOrder oid req) = ship_order P es pb oid req"
| "exec_command P es pb rd (CancelOrder oid req) = cancel_order P es pb oid req"

section \<open>The common shape of the handlers\<close>

text \<open>What the five handlers of an existing order have in common.\<close>

definition run_command ::
    "'w platform \<Rightarrow> 'w mongo_collection \<Rightarrow> 'w event_publisher \<Rightarrow> string \<Rightarrow>
     (order_aggregate \<Rightarrow> exn + unit) \<Rightarrow> (int \<Rightarrow> ('w, base_event) io) \<Rightarrow> string \<Rightarrow>
     ('w, command_response) io" where
  "run_command P es pb order_id guard mk message =
     bindM (load_aggregate es order_id) (\<lambda>agg.
     bindM (liftM (guard agg)) (\<lambda>_.
     bindM (mk (agg_version agg + 1)) (\<lambda>event.
     bindM (append_es es (model_dump event)) (\<lambda>_.
     bindM (publish_via P pb event) (\<lambda>_.
     returnM \<lparr>cr_event_id = ev_event_id event, cr_aggregate_id = order_id,
              cr_aggregate_version = ev_aggregate_version event, cr_message = message\<rparr>)))))"

definition pay_guard :: "process_payment_request \<Rightarrow> order_aggregate \<Rightarrow> exn + unit" where
  "pay_guard req agg =
     bindR (assert_can_pay agg) (\<lambda>_.
     if startswith (pp_payment_id req) ''fail_''
     then Inl (HTTPException 402 [Lit ''Payment failed: '', Fmt (PStr ''Payment declined by bank'')])
     else Inr ())"

lemma handler_runs:
  "add_item P es pb oid ai = run_command P es pb oid assert_can_add_item
     (\<lambda>v. order_item_added_event (pf_env P) oid v (ai_product_id ai) (ai_product_name ai)
        (ai_quantity ai) (ai_unit_price ai)) (''Item '' @ ai_product_name ai @ '' added'')"
  "confirm_order P es pb oid = run_command P es pb oid assert_can_confirm
     (order_confirmed_event (pf_env P) oid) ''Order confirmed''"
  "ship_order P es pb oid so = run_command P es pb oid assert_can_ship
     (\<lambda>v. order_shipped_event (pf_env P) oid v (so_tracking_id so) (so_carrier so))
     (''Order shipped via '' @ so_carrier so)"
  "cancel_order P es pb oid ca = run_command P es pb oid assert_can_cancel
     (\<lambda>v. order_cancelled_event (pf_env P) oid v (ca_reason ca)) ''Order cancelled''"
  by (simp_all add: add_item_def confirm_order_def ship_order_def cancel_order_def run_command_def)

lemma process_payment_run:
  "process_payment P es pb oid pp = run_command P es pb oid (pay_guard pp)
     (\<lambda>v. order_payment_processed_event (pf_env P) oid v (pp_payment_id pp) (pp_amount pp)
        (pp_method pp)) ''Payment processed''"
  unfolding process_payment_def run_command_def
proof (intro arg_cong [where f = "bindM (load_aggregate es oid)"] ext)
  fix agg w
  show "bindM (liftM (assert_can_pay agg)) (\<lambda>_.
       let result = charge (pp_payment_id pp) (pp_amount pp) (pp_method pp) in
       bindM (liftM (dict_item result ''success'')) (\<lambda>success.
       if \<not> truthy success
       then bindM (liftM (dict_item result ''error'')) (\<lambda>err.
            raiseM (HTTPException 402 [Lit ''Payment failed: '', Fmt err]))
       else
         bindM (order_payment_processed_event (pf_env P) oid (agg_version agg + 1)
                  (pp_payment_id pp) (pp_amount pp) (pp_method pp)) (\<lambda>event.
         bindM (append_es es (model_dump event)) (\<lambda>_.
         bindM (publish_via P pb event) (\<lambda>_.
         returnM \<lparr>cr_event_id = ev_event_id event, cr_aggregate_id = oid,
                  cr_aggregate_version = ev_aggregate_version event,
                  cr_message = ''Payment processed''\<rparr>))))) w =
     bindM (liftM (pay_guard pp agg)) (\<lambda>_.
     bindM (order_payment_processed_event (pf_env P) oid (agg_version agg + 1)
              (pp_payment_id pp) (pp_amount pp) (pp_method pp)) (\<lambda>event.
     bindM (append_es es (model_dump event)) (\<lambda>_.
     bindM (publish_via P pb event) (\<lambda>_.
     returnM \<lparr>cr_event_id = ev_event_id event, cr_aggregate_id = oid,
              cr_aggregate_version = ev_aggregate_version event,
              cr_message = ''Payment processed''\<rparr>)))) w"
    by (cases "assert_can_pay agg")
      (simp_all add: pay_guard_def bindM_def liftM_def charge_success charge_error raiseM_def Let_def)
qed

section \<open>Loading an aggregate\<close>

context mongo_laws
begin

lemma get_events_rebuild:
  assumes "get_events M a w = (Inr ds, w')" and "store_ok (V w)"
  shows "V w' = V w \<and>
    (if order_history (V w) a = [] then ds = []
     else ds \<noteq> [] \<and> rebuild_from_events ds = Inr (agg_of (PStr a) (order_state_of (V w) a)))"
proof -
  let ?S = "sort_key doc_version (agg_docs (V w) a)"
  have ds: "V w' = V w" "ds = map strip_id ?S"
    using get_events_history [OF assms] by auto
  show ?thesis
  proof (cases "agg_docs (V w) a = []")
    case True
    then show ?thesis
      using ds by (simp add: order_history_def history_def)
  next
    case False
    have dec: "decode d \<noteq> None" "matches (''aggregate_id'', PStr a) d" if "d \<in> set ?S" for d
      using that assms(2) agg_docs_decode [of "V w" d a] by (auto simp: store_ok_def agg_docs_def)
    have "ds \<noteq> []" "order_history (V w) a \<noteq> []"
      using False ds(2) by (metis length_0_conv length_map length_sort length_order_history)+
    moreover have "hd ds \<in> strip_id ` set ?S"
      using \<open>ds \<noteq> []\<close> ds(2) by (metis hd_in_set list.set_map)
    then have "dict_item (hd ds) ''aggregate_id'' = Inr (PStr a)"
      using dec(2) by (auto simp: matches_def dict_simps)
    moreover have "history ds = order_history (V w) a"
      by (simp add: history_def ds(2) order_history_def sort_key_map comp_def sort_key_id_if_sorted)
    moreover have "\<forall>d \<in> set ds. decode d \<noteq> None"
      using dec(1) ds(2) by auto
    ultimately show ?thesis
      using rebuild_run [of ds "PStr a"] ds(1) by simp
  qed
qed

lemma load_cases:
  assumes "load_aggregate M a w = (r, w')" and "store_ok (V w)"
  shows "V w' = V w \<and>
    (if \<exists>s. r = Inl (DriverError s) then True
     else if order_history (V w) a = [] then r = Inl (not_found a)
     else r = Inr (agg_of (PStr a) (order_state_of (V w) a)))"
  using assms(1) unfolding load_aggregate_def
proof (cases rule: bindM_cases)
  case (raised e)
  then show ?thesis
    using find_err [of _ _ _ _ w e w'] unfolding get_events_def by auto
next
  case (continued ds w1)
  then show ?thesis
    using get_events_rebuild [OF continued(1) assms(2)] by (auto simp: io_simps split: if_splits)
qed

end

section \<open>The contract of a command\<close>

context env_laws
begin

text \<open>A factory leaves the services alone and makes the event it is named after.\<close>

definition makes :: "exn + base_event \<Rightarrow> 'w \<Rightarrow> 'w \<Rightarrow> string \<Rightarrow> int \<Rightarrow> order_event \<Rightarrow> bool" where
  "makes r w w' a v kind \<longleftrightarrow> V w' = V w \<and>
     (\<exists>ev. r = Inr ev \<and> ev_aggregate_id ev = a \<and> decode (model_dump ev) = Some (v, kind))"

lemma BaseEvent_makes:
  assumes "BaseEvent E t a v p w = (r, w')" and "decode_payload (event_type_value t) p = Some kind"
  shows "makes r w w' a v kind"
  using assms by (auto simp: makes_def BaseEvent_def bindM_def io_simps uuid4_view time_view decode_model_dump)

lemma timed_makes:
  assumes "bindM (effM (time_time E)) (\<lambda>t. BaseEvent E k a v (p t)) w = (r, w')"
    and "\<And>t. decode_payload (event_type_value k) (p t) = Some kind"
  shows "makes r w w' a v kind"
proof -
  have "makes r (snd (time_time E w)) w' a v kind"
    using assms by (intro BaseEvent_makes [where t = k and p = "p (fst (time_time E w))"])
      (simp_all add: bindM_def io_simps)
  then show ?thesis by (simp add: makes_def time_view)
qed

lemma factories_make:
  "order_created_event E a c m w = (r, w') \<Longrightarrow> makes r w w' a 1 (Created c m)"
  "order_confirmed_event E a v w = (r, w') \<Longrightarrow> makes r w w' a v Confirmed"
  "order_payment_processed_event E a v p x y w = (r, w') \<Longrightarrow> makes r w w' a v (Paid p)"
  "order_shipped_event E a v t y w = (r, w') \<Longrightarrow> makes r w w' a v (Shipped t)"
  "order_cancelled_event E a v y w = (r, w') \<Longrightarrow> makes r w w' a v Cancelled"
  unfolding order_created_event_def order_confirmed_event_def order_payment_processed_event_def
    order_shipped_event_def order_cancelled_event_def
  by (erule BaseEvent_makes timed_makes; simp add: decode_payload_def decode_str_def)+

end

text \<open>The item an \<open>add_item\<close> request denotes, when its quantity has a float value.\<close>

definition request_item :: "add_item_request \<Rightarrow> item" where
  "request_item req =
     \<lparr>it_product_id = ai_product_id req, it_product_name = ai_product_name req,
      it_quantity = ai_quantity req, it_unit_price = ai_unit_price req,
      it_line_total = fl_mul (projr (float_of_int (ai_quantity req))) (ai_unit_price req)\<rparr>"

context env_laws
begin

lemma item_added_makes:
  assumes "order_item_added_event E a v (ai_product_id req) (ai_product_name req) (ai_quantity req)
    (ai_unit_price req) w = (r, w')"
  shows "makes r w w' a v (ItemAdded (request_item req)) \<or> r = Inl OverflowError \<and> w' = w"
  using assms unfolding order_item_added_event_def
proof (cases rule: bindM_cases)
  case (raised e)
  then show ?thesis
    by (auto simp: io_simps float_of_int_def split: pyfloat.splits)
next
  case (continued q w1)
  then show ?thesis
    by (auto simp: io_simps decode_payload_def decode_item_def request_item_def elim!: BaseEvent_makes)
qed

end

text \<open>
  What a handler of an existing order relies on: its guard passes only where the specification
  admits the event its factory makes, and the factory touches no service.
\<close>

locale order_command =
  fixes V :: "'w \<Rightarrow> backend" and oid :: string
    and guard :: "order_aggregate \<Rightarrow> exn + unit"
    and mk :: "int \<Rightarrow> ('w, base_event) io"
    and kind :: order_event
  assumes guard_admits: "os_version s \<noteq> 0 \<Longrightarrow> guard (agg_of (PStr oid) s) = Inr () \<Longrightarrow> admits s kind"
    and make_ok: "mk v w = (Inr ev, w') \<Longrightarrow>
      V w' = V w \<and> ev_aggregate_id ev = oid \<and> decode (model_dump ev) = Some (v, kind)"
    and make_err: "mk v w = (Inl e, w') \<Longrightarrow> V w' = V w"

locale write_side = mongo_laws M V + publisher_laws R K V + env_laws "pf_env P" V +
    tenacity_laws "pf_retry P"
  for M :: "'w mongo_collection" and R :: "'w redis_client" and K :: "'w kafka_producer"
    and V :: "'w \<Rightarrow> backend" and P :: "'w platform"
begin

lemma publish_via_effect:
  assumes "publish_via P pub ev w = (r, w')"
  obtains rec k m where "k \<le> 3" "V w' = sent rec (published_key ev) k m (V w)"
  using assms publish_effect [of 3 "pf_settings P" "pf_dumps P" ev w r w']
  by (auto simp: publish_def retry_documented)

end

text \<open>The event a handler stores next in the history of \<open>oid\<close>.\<close>

definition next_event :: "backend \<Rightarrow> string \<Rightarrow> order_event \<Rightarrow> base_event \<Rightarrow> bool" where
  "next_event b oid kind ev \<longleftrightarrow>
     order_history b oid \<noteq> [] \<and> ev_aggregate_id ev = oid \<and>
     decode (model_dump ev) = Some (os_version (order_state_of b oid) + 1, kind) \<and>
     admits (order_state_of b oid) kind \<and>
     \<not> dup_key (b_indexes b) (b_docs b) (stored ev)"

locale running_command = write_side M R K V P + order_command V oid guard mk kind
  for M :: "'w mongo_collection" and R K V P oid guard mk kind
begin

lemma run_cases [consumes 2, case_names refused late published]:
  assumes "run_command P M pub oid guard mk msg w = (r, w')" and "store_ok (V w)"
  obtains (refused) e where "r = Inl e" "V w' = V w"
    | (late) s ev where "r = Inl (DriverError s)" "next_event (V w) oid kind ev"
        "V w' = (V w)\<lparr>b_docs := b_docs (V w) @ [stored ev]\<rparr>"
    | (published) ev w1 p where "next_event (V w) oid kind ev"
        "guard (agg_of (PStr oid) (order_state_of (V w) oid)) = Inr ()"
        "V w1 = (V w)\<lparr>b_docs := b_docs (V w) @ [stored ev]\<rparr>"
        "publish_via P pub ev w1 = (p, w')"
        "r = map_sum id (\<lambda>_. \<lparr>cr_event_id = ev_event_id ev, cr_aggregate_id = oid,
           cr_aggregate_version = ev_aggregate_version ev, cr_message = msg\<rparr>) p"
  using assms(1) unfolding run_command_def
proof (cases rule: bindM_cases)
  case (raised e)
  then show ?thesis using refused load_cases [OF raised(1) assms(2)] by blast
next
  case (continued agg w1)
  let ?s = "order_state_of (V w) oid"
  have agg: "V w1 = V w" "order_history (V w) oid \<noteq> []" "agg = agg_of (PStr oid) ?s"
    using load_cases [OF continued(1) assms(2)] by (auto split: if_splits)
  have ver: "os_version ?s \<noteq> 0"
    using agg(2) history_version [OF assms(2), of oid] by (metis length_0_conv length_order_history of_nat_eq_0_iff)
  from continued(2) show ?thesis
  proof (cases rule: bindM_cases)
    case (raised e)
    then show ?thesis using refused agg(1) by (simp add: io_simps)
  next
    case (continued u w2)
    then have g: "guard (agg_of (PStr oid) ?s) = Inr ()" and w2: "w2 = w1"
      using agg(3) by (auto simp: io_simps)
    from continued(2) show ?thesis
    proof (cases rule: bindM_cases)
      case (raised e)
      then show ?thesis using refused make_err agg(1) w2 by metis
    next
      case (continued ev w3)
      then have ev: "V w3 = V w" "ev_aggregate_id ev = oid"
        "decode (model_dump ev) = Some (os_version ?s + 1, kind)"
        using make_ok [of "agg_version agg + 1" w2 ev w3] agg(1,3) w2 by auto
      have nxt: "next_event (V w) oid kind ev" if "\<not> dup_key (b_indexes (V w)) (b_docs (V w)) (stored ev)"
        using that ev agg(2) guard_admits [OF ver g] by (simp add: next_event_def)
      from continued(2) show ?thesis
      proof (cases rule: bindM_cases)
        case (raised e)
        from raised(1) show ?thesis
          by (cases rule: append_cases) (use raised(2) ev(1) nxt refused late in auto)
      next
        case (continued v w4)
        from continued(1) have w4: "\<not> dup_key (b_indexes (V w)) (b_docs (V w)) (stored ev)"
          "V w4 = (V w)\<lparr>b_docs := b_docs (V w) @ [stored ev]\<rparr>"
          using ev(1) by (auto elim: append_cases)
        from continued(2) show ?thesis
          by (cases rule: bindM_cases)
            (use published [OF nxt [OF w4(1)] g w4(2)] in \<open>fastforce simp: io_simps\<close>)+
      qed
    qed
  qed
qed

end

lemmas guard_defs =
  assert_can_add_item_def assert_can_confirm_def assert_can_pay_def assert_can_ship_def
  assert_can_cancel_def pay_guard_def

sublocale write_side \<subseteq> add: running_command M R K V P oid assert_can_add_item
    "\<lambda>v. order_item_added_event (pf_env P) oid v (ai_product_id req) (ai_product_name req)
       (ai_quantity req) (ai_unit_price req)" "ItemAdded (request_item req)" for oid req
  by unfold_locales
    (auto simp: guard_defs makes_def split: if_splits dest!: item_added_makes)

sublocale write_side \<subseteq> confirm: running_command M R K V P oid assert_can_confirm
    "order_confirmed_event (pf_env P) oid" Confirmed for oid
  by unfold_locales
    (auto simp: guard_defs makes_def split: if_splits dest!: factories_make)

sublocale write_side \<subseteq> pay: running_command M R K V P oid "pay_guard req"
    "\<lambda>v. order_payment_processed_event (pf_env P) oid v (pp_payment_id req) (pp_amount req)
       (pp_method req)" "Paid (pp_payment_id req)" for oid req
  by unfold_locales
    (auto simp: guard_defs makes_def split: if_splits dest!: factories_make)

sublocale write_side \<subseteq> ship: running_command M R K V P oid assert_can_ship
    "\<lambda>v. order_shipped_event (pf_env P) oid v (so_tracking_id req) (so_carrier req)"
    "Shipped (so_tracking_id req)" for oid req
  by unfold_locales
    (auto simp: guard_defs makes_def split: if_splits dest!: factories_make)

sublocale write_side \<subseteq> cancel: running_command M R K V P oid assert_can_cancel
    "\<lambda>v. order_cancelled_event (pf_env P) oid v (ca_reason req)" Cancelled for oid req
  by unfold_locales
    (auto simp: guard_defs makes_def split: if_splits dest!: factories_make)

section \<open>Every command keeps the store valid\<close>

text \<open>One step of the store: nothing, or one admitted event appended.\<close>

definition store_step :: "backend \<Rightarrow> backend \<Rightarrow> bool" where
  "store_step b b' \<longleftrightarrow> b_indexes b' = b_indexes b \<and>
     (b_docs b' = b_docs b \<or>
      (\<exists>ev e. decode (model_dump ev) = Some (os_version (order_state_of b (ev_aggregate_id ev)) + 1, e) \<and>
         admits (order_state_of b (ev_aggregate_id ev)) e \<and>
         \<not> dup_key (b_indexes b) (b_docs b) (stored ev) \<and>
         b_docs b' = b_docs b @ [stored ev]))"

lemma store_step_ok:
  assumes "store_step b b'" and "store_ok b"
  shows "store_ok b'"
proof (cases "b_docs b' = b_docs b")
  case True
  then show ?thesis using assms by (metis store_ok_cong store_step_def)
next
  case False
  then obtain ev e where ev: "b_docs b' = b_docs b @ [stored ev]" "b_indexes b' = b_indexes b"
    "decode (model_dump ev) = Some (os_version (order_state_of b (ev_aggregate_id ev)) + 1, e)"
    "admits (order_state_of b (ev_aggregate_id ev)) e" "\<not> dup_key (b_indexes b) (b_docs b) (stored ev)"
    using assms(1) by (auto simp: store_step_def)
  have "store_ok (b\<lparr>b_docs := b_docs b @ [stored ev]\<rparr>)"
    using store_ok_snoc [OF assms(2) ev(3) refl ev(4,5)] .
  then show ?thesis
    using ev(1,2) store_ok_cong [of b' "b\<lparr>b_docs := b_docs b @ [stored ev]\<rparr>"] by simp
qed

lemma next_event_step:
  assumes "next_event b oid kind ev" and "b_docs b' = b_docs b @ [stored ev]" and "b_indexes b' = b_indexes b"
  shows "store_step b b'"
  using assms unfolding store_step_def next_event_def by blast

text \<open>A version that an order already has cannot be stored again.\<close>

lemma version_taken:
  assumes "store_ok b" and "1 \<le> ev_aggregate_version ev"
    and "ev_aggregate_version ev \<le> int (length (order_history b (ev_aggregate_id ev)))"
  shows "dup_key (b_indexes b) (b_docs b) (stored ev)"
proof -
  let ?A = "agg_docs b (ev_aggregate_id ev)"
  have "ev_aggregate_version ev \<in> set (map doc_version ?A)"
    using assms unfolding agg_docs_versions [OF assms(1)] by (simp add: length_order_history)
  then obtain d where d: "d \<in> set ?A" "doc_version d = ev_aggregate_version ev" by auto
  then have "version_key d = version_key (stored ev)"
    using assms(1) agg_docs_decode [of b d] decoded_version [of d]
    by (simp add: store_ok_def version_key_def agg_docs_def matches_def dict_simps)
  then have "version_key (stored ev) \<in> set (map version_key (b_docs b))"
    using d(1) by (auto simp: agg_docs_def intro: rev_image_eqI)
  then show ?thesis
    using assms(1) by (intro dup_key_version) (auto simp: store_ok_def store_keys_def)
qed

text \<open>An event with version 1 that meets no key conflict is the first of its order.\<close>

lemma fresh_order:
  assumes "store_ok b" and "\<not> dup_key (b_indexes b) (b_docs b) (stored ev)" and "ev_aggregate_version ev = 1"
  shows "order_history b (ev_aggregate_id ev) = []"
proof (rule ccontr)
  assume "order_history b (ev_aggregate_id ev) \<noteq> []"
  then show False
    using version_taken [OF assms(1), of ev] assms(2,3) by (simp add: Suc_le_eq)
qed

context running_command
begin

lemma run_step:
  assumes "run_command P M pub oid guard mk msg w = (r, w')" and "store_ok (V w)"
  shows "store_step (V w) (V w')"
  using assms
proof (cases rule: run_cases)
  case (refused e)
  then show ?thesis by (simp add: store_step_def)
next
  case (late s ev)
  then show ?thesis by (intro next_event_step) auto
next
  case (published ev w1 p)
  then obtain rec k m where "V w' = sent rec (published_key ev) k m (V w1)"
    by (auto elim: publish_via_effect)
  with published show ?thesis by (intro next_event_step [OF published(1)]) auto
qed

text \<open>A refusal names its reason and leaves every service as it was.\<close>

lemma run_refused:
  assumes "run_command P M pub oid guard mk msg w = (r, w')" and "store_ok (V w)"
    and "order_history (V w) oid = [] \<or> guard (agg_of (PStr oid) (order_state_of (V w) oid)) = Inl e"
  shows "V w' = V w \<and> ((\<exists>s. r = Inl (DriverError s)) \<or>
    r = Inl (if order_history (V w) oid = [] then not_found oid else e))"
  using assms(1) unfolding run_command_def
proof (cases rule: bindM_cases)
  case (raised x)
  then show ?thesis using load_cases [OF raised(1) assms(2)] by (auto split: if_splits)
next
  case (continued agg w1)
  then have "V w1 = V w" "order_history (V w) oid \<noteq> []"
    "agg = agg_of (PStr oid) (order_state_of (V w) oid)"
    using load_cases [OF continued(1) assms(2)] by (auto split: if_splits)
  with continued(2) assms(3) show ?thesis by (simp add: bindM_def liftM_def)
qed

end

text \<open>The part of \<open>create_order\<close> after the idempotency check, and the event it stores.\<close>

definition create_fresh ::
    "'w platform \<Rightarrow> 'w mongo_collection \<Rightarrow> 'w event_publisher \<Rightarrow> 'w redis_client \<Rightarrow>
     create_order_request \<Rightarrow> string \<Rightarrow> ('w, command_response) io" where
  "create_fresh P es pb rd req order_id =
     bindM (order_created_event (pf_env P) order_id (co_customer_id req) (co_customer_email req)) (\<lambda>event.
     bindM (append_es es (model_dump event)) (\<lambda>_.
     bindM (publish_via P pb event) (\<lambda>_.
     bindM (redis_setex rd (''idem:create:'' @ co_idempotency_key req) 86400 order_id) (\<lambda>_.
     returnM \<lparr>cr_event_id = ev_event_id event, cr_aggregate_id = order_id,
              cr_aggregate_version = ev_aggregate_version event, cr_message = ''Order created''\<rparr>))))"

lemma create_order_eq:
  "create_order P es pb rd req =
     bindM (redis_get rd (''idem:create:'' @ co_idempotency_key req)) (\<lambda>c.
     if c = None \<or> c = Some [] then bindM (effM (uuid4 (pf_env P))) (create_fresh P es pb rd req)
     else bindM (get_latest_version es (the c)) (\<lambda>version.
          returnM \<lparr>cr_event_id = ''cached'', cr_aggregate_id = the c, cr_aggregate_version = version,
                   cr_message = ''Order already created (idempotent)''\<rparr>))"
  unfolding create_order_def Let_def create_fresh_def [abs_def]
  by (intro arg_cong [where f = "bindM _"] ext) (simp split: option.split list.split)

definition first_event :: "backend \<Rightarrow> string \<Rightarrow> create_order_request \<Rightarrow> base_event \<Rightarrow> bool" where
  "first_event b oid req ev \<longleftrightarrow>
     order_history b oid = [] \<and> ev_aggregate_id ev = oid \<and>
     decode (model_dump ev) = Some (1, Created (co_customer_id req) (co_customer_email req)) \<and>
     \<not> dup_key (b_indexes b) (b_docs b) (stored ev)"

lemma first_event_step:
  assumes "first_event b oid req ev" and "b_docs b' = b_docs b @ [stored ev]" and "b_indexes b' = b_indexes b"
  shows "store_step b b'"
proof -
  have "order_state_of b (ev_aggregate_id ev) = order_init"
    using assms(1) by (auto simp: first_event_def)
  then have "decode (model_dump ev) = Some (os_version (order_state_of b (ev_aggregate_id ev)) + 1,
      Created (co_customer_id req) (co_customer_email req))"
    "admits (order_state_of b (ev_aggregate_id ev)) (Created (co_customer_id req) (co_customer_email req))"
    using assms(1) by (simp_all add: first_event_def)
  then show ?thesis
    using assms unfolding store_step_def first_event_def by blast
qed

context write_side
begin

lemma create_fresh_cases [consumes 2, case_names refused late published]:
  assumes "create_fresh P M pub R req oid w = (r, w')" and "store_ok (V w)"
  obtains (refused) e where "r = Inl e" "V w' = V w"
    | (late) s ev where "r = Inl (DriverError s)" "first_event (V w) oid req ev"
        "V w' = (V w)\<lparr>b_docs := b_docs (V w) @ [stored ev]\<rparr>"
    | (published) ev w1 where "first_event (V w) oid req ev"
        "V w1 = (V w)\<lparr>b_docs := b_docs (V w) @ [stored ev]\<rparr>"
        "bindM (publish_via P pub ev) (\<lambda>_.
         bindM (redis_setex R (''idem:create:'' @ co_idempotency_key req) 86400 oid) (\<lambda>_.
         returnM \<lparr>cr_event_id = ev_event_id ev, cr_aggregate_id = oid,
           cr_aggregate_version = ev_aggregate_version ev, cr_message = ''Order created''\<rparr>)) w1 = (r, w')"
  using assms(1) unfolding create_fresh_def
proof (cases rule: bindM_cases)
  case (raised e)
  then show ?thesis using refused by (auto dest!: factories_make(1) simp: makes_def)
next
  case (continued ev w1)
  then have ev: "V w1 = V w" "ev_aggregate_id ev = oid"
    "decode (model_dump ev) = Some (1, Created (co_customer_id req) (co_customer_email req))"
    by (auto dest!: factories_make(1) simp: makes_def)
  have first: "first_event (V w) oid req ev" if "\<not> dup_key (b_indexes (V w)) (b_docs (V w)) (stored ev)"
    using that ev fresh_order [OF assms(2) that] by (auto simp: first_event_def decode_model_dump)
  from continued(2) show ?thesis
  proof (cases rule: bindM_cases)
    case (raised e)
    from raised(1) show ?thesis
      by (cases rule: append_cases) (use raised(2) ev(1) first refused late in auto)
  next
    case (continued u w2)
    from continued(1) have "\<not> dup_key (b_indexes (V w)) (b_docs (V w)) (stored ev)"
      "V w2 = (V w)\<lparr>b_docs := b_docs (V w) @ [stored ev]\<rparr>"
      using ev(1) by (auto elim: append_cases)
    then show ?thesis using published first continued(2) by blast
  qed
qed

lemma create_tail_docs:
  assumes "bindM (publish_via P pub ev) (\<lambda>_. bindM (redis_setex R k n oid) (\<lambda>_. returnM x)) w = (r, w')"
  shows "b_docs (V w') = b_docs (V w) \<and> b_indexes (V w') = b_indexes (V w)"
  using assms
proof (cases rule: bindM_cases)
  case (raised e)
  then show ?thesis by (auto elim!: publish_via_effect)
next
  case (continued u w1)
  have "b_docs (V w') = b_docs (V w1) \<and> b_indexes (V w') = b_indexes (V w1)"
    using continued(2) by (cases rule: bindM_cases) (auto simp: io_simps dest!: setex_ok setex_err)
  then show ?thesis using continued(1) by (auto elim!: publish_via_effect)
qed

lemma create_fresh_step:
  assumes "create_fresh P M pub R req oid w = (r, w')" and "store_ok (V w)"
  shows "store_step (V w) (V w')"
  using assms
proof (cases rule: create_fresh_cases)
  case (refused e)
  then show ?thesis by (simp add: store_step_def)
next
  case (late s ev)
  then show ?thesis by (intro first_event_step) auto
next
  case (published ev w1)
  then show ?thesis
    using create_tail_docs [OF published(3)] by (intro first_event_step [OF published(1)]) auto
qed

lemma create_step:
  assumes "create_order P M pub R req w = (r, w')" and "store_ok (V w)"
  shows "store_step (V w) (V w')"
  using assms(1) unfolding create_order_eq
proof (cases rule: bindM_cases)
  case (raised e)
  then show ?thesis by (auto dest!: get_err simp: store_step_def)
next
  case (continued c w1)
  then have w1: "V w1 = V w" by (auto dest: get_ok)
  show ?thesis
  proof (cases "c = None \<or> c = Some []")
    case True
    then have run: "create_fresh P M pub R req (fst (uuid4 (pf_env P) w1)) (snd (uuid4 (pf_env P) w1)) = (r, w')"
      using continued(2) by (simp add: bindM_def effM_def)
    show ?thesis
      using create_fresh_step [OF run] assms(2) w1 by (simp add: uuid4_view)
  next
    case False
    then have "bindM (get_latest_version M (the c)) (\<lambda>version. returnM
        \<lparr>cr_event_id = ''cached'', cr_aggregate_id = the c, cr_aggregate_version = version,
         cr_message = ''Order already created (idempotent)''\<rparr>) w1 = (r, w')"
      using continued(2) by auto
    then have "V w' = V w1"
      using get_latest_view by (cases rule: bindM_cases) (auto simp: io_simps)
    then show ?thesis using w1 by (simp add: store_step_def)
  qed
qed

lemma command_step:
  assumes "exec_command P M pub R cmd w = (r, w')" and "store_ok (V w)"
  shows "store_step (V w) (V w')"
  using assms
  by (cases cmd)
    (simp_all only: exec_command.simps handler_runs process_payment_run, simp_all add: create_step
      add.run_step confirm.run_step pay.run_step ship.run_step cancel.run_step)

end

section \<open>What a command adds\<close>

text \<open>The order a command addresses and the event it asks for; creating addresses no order.\<close>

fun target :: "command \<Rightarrow> (string \<times> order_event) option" where
  "target (CreateOrder req) = None"
| "target (AddItem oid req) = Some (oid, ItemAdded (request_item req))"
| "target (ConfirmOrder oid) = Some (oid, Confirmed)"
| "target (ProcessPayment oid req) = Some (oid, Paid (pp_payment_id req))"
| "target (ShipOrder oid req) = Some (oid, Shipped (so_tracking_id req))"
| "target (CancelOrder oid req) = Some (oid, Cancelled)"

text \<open>What an accepted command leaves behind.\<close>

definition recorded :: "'w platform \<Rightarrow> backend \<Rightarrow> backend \<Rightarrow> string \<Rightarrow> order_event \<Rightarrow> command_response \<Rightarrow> bool" where
  "recorded P b b' oid kind resp \<longleftrightarrow>
     order_history b oid \<noteq> [] \<and> admits (order_state_of b oid) kind \<and>
     order_history b' = (order_history b)(oid := order_history b oid @ [(cr_aggregate_version resp, kind)]) \<and>
     cr_aggregate_version resp = int (length (order_history b oid)) + 1 \<and>
     cr_aggregate_id resp = oid \<and>
     (\<exists>ev. b_docs b' = b_docs b @ [stored ev] \<and> cr_event_id resp = ev_event_id ev \<and>
        (\<forall>bytes. published_key ev \<notin> dom (b_kv b) \<and> to_kafka_bytes (pf_dumps P) ev = Inr bytes \<longrightarrow>
           (\<exists>k. 1 \<le> k \<and> k \<le> 3 \<and>
              b_topic b' = b_topic b @ replicate k (event_record (pf_settings P) ev bytes))))"

context running_command
begin

lemma run_recorded:
  assumes "run_command P M pub oid guard mk msg w = (Inr resp, w')" and "store_ok (V w)"
  shows "recorded P (V w) (V w') oid kind resp"
  using assms
proof (cases rule: run_cases)
  case (published ev w1 p)
  let ?b = "V w" and ?b1 = "(V w)\<lparr>b_docs := b_docs (V w) @ [stored ev]\<rparr>"
  have p: "p = Inr ()" and resp: "resp = \<lparr>cr_event_id = ev_event_id ev, cr_aggregate_id = oid,
      cr_aggregate_version = ev_aggregate_version ev, cr_message = msg\<rparr>"
    using published(5) by (cases p; simp)+
  have ev: "order_history ?b oid \<noteq> []" "ev_aggregate_id ev = oid" "admits (order_state_of ?b oid) kind"
    "decode (model_dump ev) = Some (os_version (order_state_of ?b oid) + 1, kind)"
    using published(1) by (auto simp: next_event_def)
  have v: "ev_aggregate_version ev = os_version (order_state_of ?b oid) + 1"
    using ev(4) by (auto simp: decode_model_dump)
  obtain rec k m where eff: "V w' = sent rec (published_key ev) k m ?b1"
    using published(3,4) by (metis publish_via_effect)
  have hist: "order_history (V w') =
      (order_history ?b)(oid := order_history ?b oid @ [(ev_aggregate_version ev, kind)])"
    using order_history_snoc [OF assms(2) ev(4)] ev(2) v
      order_history_cong [of "V w'" ?b1] eff by (auto simp: fun_eq_iff)
  have pubd: "\<exists>k. 1 \<le> k \<and> k \<le> 3 \<and>
      b_topic (V w') = b_topic ?b @ replicate k (event_record (pf_settings P) ev bytes)"
    if "published_key ev \<notin> dom (b_kv ?b)" "to_kafka_bytes (pf_dumps P) ev = Inr bytes" for bytes
  proof -
    have "retry_attempts 3 (publish_attempt (pf_settings P) (pf_dumps P) pub ev) w1 = (Inr (), w')"
      using published(4) p by (simp add: publish_def retry_documented)
    from publish_attempts [OF this _ that(2)] show ?thesis
      using that(1) published(3) by (auto simp: sent_def)
  qed
  show ?thesis
    unfolding recorded_def resp
    using ev hist v pubd eff history_version [OF assms(2), of oid]
    by (auto simp: length_order_history intro!: exI [of _ ev])
qed simp_all

end

context write_side
begin

lemma command_recorded:
  assumes "exec_command P M pub R cmd w = (Inr resp, w')" and "store_ok (V w)"
    and "target cmd = Some (oid, kind)"
  shows "recorded P (V w) (V w') oid kind resp"
  using assms
  by (cases cmd)
    (auto simp: handler_runs process_payment_run intro: add.run_recorded confirm.run_recorded
      pay.run_recorded ship.run_recorded cancel.run_recorded)

end

section \<open>What a refused command leaves\<close>

lemma guards_refuse:
  assumes "os_version s \<noteq> 0"
  shows "\<not> admits s (ItemAdded i) \<Longrightarrow> \<exists>m. assert_can_add_item (agg_of oid s) = Inl (ValueError m)"
    and "\<not> admits s Confirmed \<Longrightarrow> \<exists>m. assert_can_confirm (agg_of oid s) = Inl (ValueError m)"
    and "\<not> admits s (Paid p) \<Longrightarrow> \<exists>m. pay_guard req (agg_of oid s) = Inl (ValueError m)"
    and "\<not> admits s (Shipped t) \<Longrightarrow> \<exists>m. assert_can_ship (agg_of oid s) = Inl (ValueError m)"
    and "\<not> admits s Cancelled \<Longrightarrow> \<exists>m. assert_can_cancel (agg_of oid s) = Inl (ValueError m)"
  using assms by (auto simp: guard_defs)

definition refusal :: "backend \<Rightarrow> string \<Rightarrow> exn \<Rightarrow> bool" where
  "refusal b oid e \<longleftrightarrow> (\<exists>s. e = DriverError s) \<or>
     (if order_history b oid = [] then e = not_found oid else \<exists>m. e = ValueError m)"

context running_command
begin

lemma run_refusal:
  assumes "run_command P M pub oid guard mk msg w = (r, w')" and "store_ok (V w)"
    and "order_history (V w) oid = [] \<or>
      (\<exists>m. guard (agg_of (PStr oid) (order_state_of (V w) oid)) = Inl (ValueError m))"
  shows "V w' = V w \<and> (\<exists>e. r = Inl e \<and> refusal (V w) oid e)"
proof (cases "order_history (V w) oid = []")
  case True
  then show ?thesis using run_refused [OF assms(1,2)] by (auto simp: refusal_def)
next
  case False
  then obtain m where "guard (agg_of (PStr oid) (order_state_of (V w) oid)) = Inl (ValueError m)"
    using assms(3) by auto
  then show ?thesis using run_refused [OF assms(1,2)] False by (auto simp: refusal_def)
qed

end

context write_side
begin

lemma command_refused:
  assumes "exec_command P M pub R cmd w = (r, w')" and "store_ok (V w)"
    and "target cmd = Some (oid, kind)"
    and "order_history (V w) oid = [] \<or> \<not> admits (order_state_of (V w) oid) kind"
  shows "V w' = V w \<and> (\<exists>e. r = Inl e \<and> refusal (V w) oid e)"
proof -
  let ?s = "order_state_of (V w) oid"
  have ver: "os_version ?s \<noteq> 0" if "order_history (V w) oid \<noteq> []"
    using that history_version [OF assms(2), of oid]
    by (metis length_0_conv length_order_history of_nat_eq_0_iff)
  note refuse = guards_refuse [where oid = "PStr oid" and s = ?s, OF ver]
  show ?thesis
  proof (cases cmd)
    case (AddItem x req)
    then show ?thesis
      using assms refuse(1) by (intro add.run_refusal [of _ req]) (auto simp: handler_runs simp del: admits.simps)
  next
    case (ConfirmOrder x)
    then show ?thesis
      using assms refuse(2) by (intro confirm.run_refusal) (auto simp: handler_runs simp del: admits.simps)
  next
    case (ProcessPayment x req)
    then show ?thesis
      using assms refuse(3) by (intro pay.run_refusal [of _ req]) (auto simp: process_payment_run simp del: admits.simps)
  next
    case (ShipOrder x req)
    then show ?thesis
      using assms refuse(4) by (intro ship.run_refusal [of _ req]) (auto simp: handler_runs simp del: admits.simps)
  next
    case (CancelOrder x req)
    then show ?thesis
      using assms refuse(5) by (intro cancel.run_refusal [of _ req]) (auto simp: handler_runs simp del: admits.simps)
  qed (use assms in simp)
qed

lemma payment_declined:
  assumes "process_payment P M pub oid req w = (r, w')" and "store_ok (V w)"
    and "startswith (pp_payment_id req) ''fail_''"
  shows "V w' = V w \<and> (\<exists>e. r = Inl e) \<and>
    (os_status (order_state_of (V w) oid) = CONFIRMED \<longrightarrow> (\<exists>s. r = Inl (DriverError s)) \<or>
      r = Inl (HTTPException 402 [Lit ''Payment failed: '', Fmt (PStr ''Payment declined by bank'')]))"
proof -
  let ?s = "order_state_of (V w) oid"
  obtain e where e: "pay_guard req (agg_of (PStr oid) ?s) = Inl e"
    "os_status ?s = CONFIRMED \<longrightarrow>
       e = HTTPException 402 [Lit ''Payment failed: '', Fmt (PStr ''Payment declined by bank'')]"
    using assms(3) by (cases "os_status ?s = CONFIRMED") (simp_all add: guard_defs)
  have "V w' = V w \<and> ((\<exists>s. r = Inl (DriverError s)) \<or>
      r = Inl (if order_history (V w) oid = [] then not_found oid else e))"
    using pay.run_refused [OF assms(1) [unfolded process_payment_run] assms(2), of e] e(1) by blast
  moreover have "os_status ?s \<noteq> CONFIRMED" if "order_history (V w) oid = []"
    using that by simp
  ultimately show ?thesis
    using e(2) by (auto split: if_splits)
qed

lemma create_tail_ok:
  assumes "bindM (publish_via P pub ev) (\<lambda>_. bindM (redis_setex R k n oid) (\<lambda>_. returnM x)) w = (Inr y, w')"
  shows "b_kv (V w') k = Some oid \<and> y = x"
  using assms
proof (cases rule: bindM_cases)
  case (continued u w1)
  from continued(2) show ?thesis
    by (cases rule: bindM_cases) (auto simp: io_simps dest!: setex_ok)
qed simp

text \<open>Creating twice with one idempotency key.\<close>

lemma create_marks_key:
  assumes "create_order P M pub R req w = (Inr resp, w')" and "store_ok (V w)"
  shows "b_kv (V w') (''idem:create:'' @ co_idempotency_key req) = Some (cr_aggregate_id resp) \<and>
    cr_aggregate_id resp \<noteq> []"
  using assms(1) unfolding create_order_eq
proof (cases rule: bindM_cases)
  case (continued c w1)
  let ?key = "''idem:create:'' @ co_idempotency_key req"
  have w1: "V w1 = V w" "c = b_kv (V w) ?key"
    using get_ok [OF continued(1)] by auto
  show ?thesis
  proof (cases "c = None \<or> c = Some []")
    case True
    let ?oid = "fst (uuid4 (pf_env P) w1)" and ?w2 = "snd (uuid4 (pf_env P) w1)"
    have run: "create_fresh P M pub R req ?oid ?w2 = (Inr resp, w')"
      using continued(2) True by (simp add: bindM_def effM_def)
    have ok: "store_ok (V ?w2)"
      using assms(2) w1 by (simp add: uuid4_view)
    from run ok show ?thesis
    proof (cases rule: create_fresh_cases)
      case (published ev w3)
      then show ?thesis using create_tail_ok [OF published(3)] uuid4_nonempty by simp
    qed simp_all
  next
    case False
    then have "bindM (get_latest_version M (the c)) (\<lambda>version. returnM
        \<lparr>cr_event_id = ''cached'', cr_aggregate_id = the c, cr_aggregate_version = version,
         cr_message = ''Order already created (idempotent)''\<rparr>) w1 = (Inr resp, w')"
      using continued(2) by auto
    then have "V w' = V w1 \<and> cr_aggregate_id resp = the c"
      using get_latest_view by (cases rule: bindM_cases) (auto simp: io_simps)
    then show ?thesis using w1 False by (cases c) auto
  qed
qed simp

lemma create_cached:
  assumes "create_order P M pub R req w = (r, w')"
    and "b_kv (V w) (''idem:create:'' @ co_idempotency_key req) = Some oid" and "oid \<noteq> []"
  shows "V w' = V w \<and> (\<forall>resp. r = Inr resp \<longrightarrow> cr_aggregate_id resp = oid \<and> cr_event_id resp = ''cached'')"
  using assms(1) unfolding create_order_eq
proof (cases rule: bindM_cases)
  case (raised e)
  then show ?thesis by (auto dest: get_err)
next
  case (continued c w1)
  have w1: "V w1 = V w" "c = Some oid"
    using get_ok [OF continued(1)] assms(2) by auto
  then have "bindM (get_latest_version M oid) (\<lambda>version. returnM
        \<lparr>cr_event_id = ''cached'', cr_aggregate_id = oid, cr_aggregate_version = version,
         cr_message = ''Order already created (idempotent)''\<rparr>) w1 = (r, w')"
    using continued(2) assms(3) by auto
  then show ?thesis
    using get_latest_view w1(1) by (cases rule: bindM_cases) (auto simp: io_simps)
qed

end

end
