(* ===== verification/Query_Router.thy ===== *)
theory Query_Router
  imports Command_Router Consumer
begin

text \<open>
  The read side of the API (\<open>api/routers/query_router.py\<close>): an order by id through the cache, its
  event history, a filtered page of orders, and statistics.  A SELECT is a function of the tables
  to the rows it fetches; the server may read the tables in any order, so a fetch applies it to
  some permutation of them.  The libraries are the record \<open>query_env\<close>.
\<close>

section \<open>Response models\<close>

text \<open>
  What \<open>OrderItemView\<close>, \<open>OrderView\<close> and \<open>EventHistoryItem\<close> make of the fields of a result.  No field
  that the handlers pass holds a number as a string, so strings are not parsed as numbers.
\<close>

fun as_str :: "pyval \<Rightarrow> exn + pyval" where
  "as_str (PStr s) = Inr (PStr s)"
| "as_str _ = Inl (ValidationError ''string_type'')"

fun as_opt :: "(pyval \<Rightarrow> exn + pyval) \<Rightarrow> pyval \<Rightarrow> exn + pyval" where
  "as_opt f PNone = Inr PNone"
| "as_opt f v = f v"

fun as_int :: "pyval \<Rightarrow> exn + pyval" where
  "as_int (PInt i) = Inr (PInt i)"
| "as_int (PBool b) = Inr (PInt (if b then 1 else 0))"
| "as_int (PFloat (Fin q)) =
     (if q = of_int \<lfloor>q\<rfloor> then Inr (PInt \<lfloor>q\<rfloor>) else Inl (ValidationError ''int_from_float''))"
| "as_int _ = Inl (ValidationError ''int_type'')"

fun as_float :: "pyval \<Rightarrow> exn + pyval" where
  "as_float (PFloat x) = Inr (PFloat x)"
| "as_float (PDecimal q) = Inr (PFloat (fl_round q))"
| "as_float (PInt i) = bindR (float_of_int i) (\<lambda>x. Inr (PFloat x))"
| "as_float (PBool b) = Inr (PFloat (Fin (if b then 1 else 0)))"
| "as_float _ = Inl (ValidationError ''float_type'')"

fun as_dict :: "pyval \<Rightarrow> exn + pyval" where
  "as_dict (PDict d) = Inr (PDict d)"
| "as_dict _ = Inl (ValidationError ''dict_type'')"

text \<open>A required field, and one with the default \<open>None\<close>.\<close>

definition field :: "pydict \<Rightarrow> string \<Rightarrow> (pyval \<Rightarrow> exn + pyval) \<Rightarrow> exn + (string \<times> pyval)" where
  "field d k f =
     (case map_of d k of
        None \<Rightarrow> Inl (ValidationError ''missing'')
      | Some v \<Rightarrow> bindR (f v) (\<lambda>x. Inr (k, x)))"

definition field_or_none :: "pydict \<Rightarrow> string \<Rightarrow> (pyval \<Rightarrow> exn + pyval) \<Rightarrow> exn + (string \<times> pyval)" where
  "field_or_none d k f = (if map_of d k = None then Inr (k, PNone) else field d k f)"

fun OrderItemView :: "pyval \<Rightarrow> exn + pyval" where
  "OrderItemView (PDict d) =
     bindR (mapR (\<lambda>(k, f). field d k f)
       [(''product_id'', as_str), (''product_name'', as_str), (''quantity'', as_int),
        (''unit_price'', as_float), (''line_total'', as_float)]) (\<lambda>kvs. Inr (PDict kvs))"
| "OrderItemView _ = Inl (ValidationError ''model_type'')"

fun as_items :: "pyval \<Rightarrow> exn + pyval" where
  "as_items (PList vs) = bindR (mapR OrderItemView vs) (\<lambda>ws. Inr (PList ws))"
| "as_items _ = Inl (ValidationError ''list_type'')"

definition OrderView :: "pydict \<Rightarrow> exn + pydict" where
  "OrderView d =
     bindR (mapR (\<lambda>(k, f). field d k f)
       [(''order_id'', as_str), (''customer_id'', as_str), (''customer_email'', as_str),
        (''status'', as_str), (''items'', as_items), (''total_amount'', as_float),
        (''version'', as_int), (''created_at'', as_opt as_float), (''updated_at'', as_opt as_float)]) (\<lambda>kvs.
     bindR (mapR (\<lambda>k. field_or_none d k (as_opt as_str)) [''payment_id'', ''tracking_id'']) (\<lambda>opts.
     Inr (kvs @ opts)))"

definition EventHistoryItem :: "pydict \<Rightarrow> exn + pydict" where
  "EventHistoryItem d =
     mapR (\<lambda>(k, f). field d k f)
       [(''event_id'', as_str), (''event_type'', as_str), (''aggregate_version'', as_int),
        (''occurred_at'', as_float), (''payload'', as_dict), (''correlation_id'', as_str)]"

section \<open>The statements\<close>

text \<open>
  One row of the SELECT that \<open>get_order\<close> and \<open>list_orders\<close> share; \<open>pg_json\<close> is the text that
  PostgreSQL prints for a JSON value.
\<close>

definition item_object :: "item_row \<Rightarrow> pyval" where
  "item_object i =
     PDict [(''product_id'', PStr (ir_product_id i)), (''product_name'', PStr (ir_product_name i)),
            (''quantity'', PInt (ir_quantity i)), (''unit_price'', PDecimal (ir_unit_price i)),
            (''line_total'', PDecimal (ir_line_total i))]"

definition items_of :: "pgdb \<Rightarrow> string \<Rightarrow> item_row list" where
  "items_of db oid = filter (\<lambda>i. ir_order_id i = oid) (pg_items db)"

definition items_column :: "(pyval \<Rightarrow> string) \<Rightarrow> item_row list \<Rightarrow> pyval" where
  "items_column pg_json its =
     PStr (if its = [] then ''[]'' else pg_json (PList (map item_object its)))"

definition time_column :: "rat option \<Rightarrow> pyval" where
  "time_column t = (case t of None \<Rightarrow> PNone | Some x \<Rightarrow> PTime x)"

definition order_columns :: "(pyval \<Rightarrow> string) \<Rightarrow> pgdb \<Rightarrow> order_row \<Rightarrow> pydict" where
  "order_columns pg_json db r =
     [(''order_id'', PStr (or_order_id r)), (''customer_id'', PStr (or_customer_id r)),
      (''customer_email'', PStr (or_customer_email r)), (''status'', PStr (or_status r)),
      (''total_amount'', PDecimal (or_total_amount r)), (''version'', PInt (or_version r)),
      (''payment_id'', opt_str (or_payment_id r)), (''tracking_id'', opt_str (or_tracking_id r)),
      (''created_at'', time_column (or_created_at r)), (''updated_at'', time_column (or_updated_at r)),
      (''items'', items_column pg_json (items_of db (or_order_id r)))]"

definition select_order :: "(pyval \<Rightarrow> string) \<Rightarrow> pg_codec \<Rightarrow> string \<Rightarrow> pgdb \<Rightarrow> exn + pydict list" where
  "select_order pg_json A order_id db =
     bindR (enc_text A (PStr order_id)) (\<lambda>oid.
     Inr (map (order_columns pg_json db) (filter (\<lambda>r. oid = Some (or_order_id r)) (pg_orders db))))"

text \<open>The conditions that \<open>list_orders\<close> puts into its WHERE clause, with their placeholders.\<close>

datatype condition = StatusIs nat | CustomerIs nat

definition param :: "pyval list \<Rightarrow> nat \<Rightarrow> exn + pyval" where
  "param ps n =
     (if 1 \<le> n \<and> n \<le> length ps then Inr (ps ! (n - 1))
      else Inl (DriverError ''there is no such parameter''))"

fun condition_fun :: "pg_codec \<Rightarrow> pyval list \<Rightarrow> condition \<Rightarrow> exn + (order_row \<Rightarrow> bool)" where
  "condition_fun A ps (StatusIs n) =
     bindR (bindR (param ps n) (enc_text A)) (\<lambda>s. Inr (\<lambda>r. s = Some (or_status r)))"
| "condition_fun A ps (CustomerIs n) =
     bindR (bindR (param ps n) (enc_text A)) (\<lambda>s. Inr (\<lambda>r. s = Some (or_customer_id r)))"

text \<open>\<open>ORDER BY o.created_at DESC\<close> puts NULL first; LIMIT and OFFSET must not be negative.\<close>

definition newest_first :: "order_row list \<Rightarrow> order_row list" where
  "newest_first rs =
     filter (\<lambda>r. or_created_at r = None) rs @
     sort_key (\<lambda>r. - the (or_created_at r)) (filter (\<lambda>r. or_created_at r \<noteq> None) rs)"

definition page :: "int option \<Rightarrow> int option \<Rightarrow> 'a list \<Rightarrow> exn + 'a list" where
  "page lmt off xs =
     (if \<exists>m. off = Some m \<and> m < 0 then Inl (DriverError ''OFFSET must not be negative'')
      else if \<exists>n. lmt = Some n \<and> n < 0 then Inl (DriverError ''LIMIT must not be negative'')
      else
        (let ys = (case off of None \<Rightarrow> xs | Some m \<Rightarrow> drop (nat m) xs)
         in Inr (case lmt of None \<Rightarrow> ys | Some n \<Rightarrow> take (nat n) ys)))"

definition select_orders ::
    "(pyval \<Rightarrow> string) \<Rightarrow> pg_codec \<Rightarrow> (pyval \<Rightarrow> exn + int option) \<Rightarrow> condition list \<Rightarrow> nat \<Rightarrow> pyval list \<Rightarrow>
     pgdb \<Rightarrow> exn + pydict list" where
  "select_orders pg_json A enc_int8 conditions idx params db =
     bindR (mapR (condition_fun A params) conditions) (\<lambda>conds.
     bindR (bindR (param params idx) enc_int8) (\<lambda>lmt.
     bindR (bindR (param params (idx + 1)) enc_int8) (\<lambda>off.
     bindR (page lmt off (newest_first (filter (\<lambda>r. \<forall>c \<in> set conds. c r) (pg_orders db)))) (\<lambda>rs.
     Inr (map (order_columns pg_json db) rs)))))"

definition count_status :: "string \<Rightarrow> pgdb \<Rightarrow> int" where
  "count_status s db = int (length (filter (\<lambda>r. or_status r = s) (pg_orders db)))"

definition select_stats :: "pgdb \<Rightarrow> exn + pydict list" where
  "select_stats db =
     Inr [[(''total_orders'', PInt (int (length (pg_orders db)))),
           (''pending'', PInt (count_status ''PENDING'' db)),
           (''confirmed'', PInt (count_status ''CONFIRMED'' db)),
           (''paid'', PInt (count_status ''PAID'' db)),
           (''shipped'', PInt (count_status ''SHIPPED'' db)),
           (''delivered'', PInt (count_status ''DELIVERED'' db)),
           (''cancelled'', PInt (count_status ''CANCELLED'' db)),
           (''total_revenue'', PDecimal (sum_list (map or_total_amount
              (filter (\<lambda>r. or_status r = ''PAID'') (pg_orders db)))))]]"

section \<open>Handlers\<close>

record 'w query_env =
  qe_settings :: settings
  qe_redis :: "'w redis_client"
  qe_fetch :: "(pgdb \<Rightarrow> exn + pydict list) \<Rightarrow> ('w, pydict list) io"
  qe_codec :: pg_codec
  qe_enc_int8 :: "pyval \<Rightarrow> exn + int option"
  qe_pg_json :: "pyval \<Rightarrow> string"
  qe_loads :: "string \<Rightarrow> exn + pyval"
  qe_dumps :: "pyval \<Rightarrow> exn + string"

text \<open>\<open>x.timestamp() if x else None\<close>, and the items of a row, parsed unless they are a list.\<close>

fun timestamp :: "pyval \<Rightarrow> exn + pyval" where
  "timestamp (PTime t) = Inr (PFloat (fl_round t))"
| "timestamp v = (if truthy v then Inl AttributeError else Inr PNone)"

fun parse_items :: "(string \<Rightarrow> exn + pyval) \<Rightarrow> pyval \<Rightarrow> exn + pyval" where
  "parse_items loads (PList vs) = Inr (PList vs)"
| "parse_items loads (PStr s) = loads s"
| "parse_items loads _ = Inl TypeError"

definition row_result :: "(string \<Rightarrow> exn + pyval) \<Rightarrow> pydict \<Rightarrow> exn + pydict" where
  "row_result loads row =
     bindR (bindR (dict_item row ''items'') (parse_items loads)) (\<lambda>its.
     let result = dict_set row ''items'' its in
     bindR (bindR (dict_item result ''created_at'') timestamp) (\<lambda>c.
     let result = dict_set result ''created_at'' c in
     bindR (bindR (dict_item result ''updated_at'') timestamp) (\<lambda>u.
     Inr (dict_set result ''updated_at'' u))))"

definition cache_key :: "string \<Rightarrow> string" where
  "cache_key order_id = ''order:'' @ order_id"

text \<open>\<open>get_order\<close> up to the query, and what it does with the row; a hit is answered at once.\<close>

definition get_order_read :: "'w query_env \<Rightarrow> string \<Rightarrow> ('w, pyval + pydict) io" where
  "get_order_read Q order_id =
     bindM (redis_get (qe_redis Q) (cache_key order_id)) (\<lambda>cached.
     case cached of
       Some (c # cs) \<Rightarrow> bindM (liftM (qe_loads Q (c # cs))) (\<lambda>content. returnM (Inl content))
     | _ \<Rightarrow>
         bindM (qe_fetch Q (select_order (qe_pg_json Q) (qe_codec Q) order_id)) (\<lambda>rows.
         case rows of
           [] \<Rightarrow> raiseM (not_found order_id)
         | row # _ \<Rightarrow> returnM (Inr row)))"

definition get_order_store :: "'w query_env \<Rightarrow> string \<Rightarrow> pydict \<Rightarrow> ('w, pyval) io" where
  "get_order_store Q order_id row =
     bindM (liftM (row_result (qe_loads Q) row)) (\<lambda>result.
     bindM (liftM (qe_dumps Q (PDict result))) (\<lambda>text.
     bindM (redis_setex (qe_redis Q) (cache_key order_id) (redis_cache_ttl (qe_settings Q)) text) (\<lambda>_.
     bindM (liftM (OrderView result)) (\<lambda>view.
     returnM (PDict view)))))"

definition get_order :: "'w query_env \<Rightarrow> string \<Rightarrow> ('w, pyval) io" where
  "get_order Q order_id =
     bindM (get_order_read Q order_id) (\<lambda>r.
     case r of Inl content \<Rightarrow> returnM content | Inr row \<Rightarrow> get_order_store Q order_id row)"

definition get_order_events :: "'w mongo_collection \<Rightarrow> string \<Rightarrow> ('w, pydict list) io" where
  "get_order_events event_store order_id =
     bindM (get_events event_store order_id) (\<lambda>events.
     if events = [] then raiseM (not_found order_id)
     else liftM (mapR EventHistoryItem events))"

text \<open>The conditions, the parameters and the next placeholder.\<close>

definition list_filter :: "string option \<Rightarrow> string option \<Rightarrow> condition list \<times> pyval list \<times> nat" where
  "list_filter status customer_id =
     (let (conditions, params, idx) = ([], [], 1);
          (conditions, params, idx) =
            (case status of
               Some (c # cs) \<Rightarrow>
                 (conditions @ [StatusIs idx], params @ [PStr (str_upper (c # cs))], idx + 1)
             | _ \<Rightarrow> (conditions, params, idx))
      in case customer_id of
           Some (c # cs) \<Rightarrow> (conditions @ [CustomerIs idx], params @ [PStr (c # cs)], idx + 1)
         | _ \<Rightarrow> (conditions, params, idx))"

definition list_orders ::
    "'w query_env \<Rightarrow> string option \<Rightarrow> string option \<Rightarrow> int \<Rightarrow> int \<Rightarrow> ('w, pydict list) io" where
  "list_orders Q status customer_id limit offset =
     (let (conditions, params, idx) = list_filter status customer_id;
          params = params @ [PInt limit, PInt offset]
      in bindM (qe_fetch Q (select_orders (qe_pg_json Q) (qe_codec Q) (qe_enc_int8 Q) conditions idx params)) (\<lambda>rows.
         bindM (liftM (mapR (row_result (qe_loads Q)) rows)) (\<lambda>result.
         liftM (mapR OrderView result))))"

definition get_stats :: "'w query_env \<Rightarrow> ('w, pydict) io" where
  "get_stats Q =
     bindM (qe_fetch Q select_stats) (\<lambda>rows.
     case rows of [] \<Rightarrow> raiseM TypeError | row # _ \<Rightarrow> returnM row)"

section \<open>JSON\<close>

text \<open>
  The values that orjson and PostgreSQL print and orjson parses back, and what comes back: a
  decimal as the nearest float.
\<close>

fun json_ok :: "pyval \<Rightarrow> bool" where
  "json_ok (PInt i) = (- (2 ^ 63) \<le> i \<and> i < 2 ^ 63)"
| "json_ok (PFloat x) = (case x of Fin _ \<Rightarrow> True | _ \<Rightarrow> False)"
| "json_ok (PDecimal q) = finite_float q"
| "json_ok (PTime t) = False"
| "json_ok (PList vs) = list_all json_ok vs"
| "json_ok (PDict d) = (distinct (map fst d) \<and> list_all (\<lambda>kv. json_ok (snd kv)) d)"
| "json_ok _ = True"

fun json_floats :: "pyval \<Rightarrow> pyval" where
  "json_floats (PDecimal q) = PFloat (fl_round q)"
| "json_floats (PList vs) = PList (map json_floats vs)"
| "json_floats (PDict d) = PDict (map (\<lambda>kv. (fst kv, json_floats (snd kv))) d)"
| "json_floats v = v"

section \<open>The laws of the query side's services\<close>

text \<open>The tables up to the order in which they are read.\<close>

definition same_tables :: "pgdb \<Rightarrow> pgdb \<Rightarrow> bool" where
  "same_tables db db' \<longleftrightarrow> mset (pg_orders db) = mset (pg_orders db') \<and> mset (pg_items db) = mset (pg_items db')"

locale query_laws = redis_laws "qe_redis Q" V + codec_laws "qe_codec Q"
  for Q :: "'w query_env" and V :: "'w \<Rightarrow> backend" +
  assumes fetch_ok: "qe_fetch Q f w = (Inr rows, w') \<Longrightarrow>
      V w' = V w \<and> (\<exists>db. same_tables db (b_tables (V w)) \<and> f db = Inr rows)"
    and fetch_err: "qe_fetch Q f w = (Inl e, w') \<Longrightarrow> V w' = V w"
    and int8_in: "- (2 ^ 63) \<le> i \<Longrightarrow> i < 2 ^ 63 \<Longrightarrow> qe_enc_int8 Q (PInt i) = Inr (Some i)"
    and loads_pg_json: "json_ok v \<Longrightarrow> qe_loads Q (qe_pg_json Q v) = Inr (json_floats v)"
    and loads_empty: "qe_loads Q ''[]'' = Inr (PList [])"
    and loads_dumps: "json_ok v \<Longrightarrow> qe_dumps Q v = Inr s \<Longrightarrow> s \<noteq> [] \<and> qe_loads Q s = Inr (json_floats v)"

section \<open>What a response shows\<close>

definition item_view :: "item_row \<Rightarrow> pyval" where
  "item_view i =
     PDict [(''product_id'', PStr (ir_product_id i)), (''product_name'', PStr (ir_product_name i)),
            (''quantity'', PInt (ir_quantity i)), (''unit_price'', PFloat (fl_round (ir_unit_price i))),
            (''line_total'', PFloat (fl_round (ir_line_total i)))]"

definition time_float :: "rat option \<Rightarrow> pyval" where
  "time_float t = (case t of None \<Rightarrow> PNone | Some x \<Rightarrow> PFloat (fl_round x))"

text \<open>The response shows this row with these items.\<close>

definition shows_row :: "pydict \<Rightarrow> order_row \<Rightarrow> item_row list \<Rightarrow> bool" where
  "shows_row d r its \<longleftrightarrow>
     map_of d ''order_id'' = Some (PStr (or_order_id r)) \<and>
     map_of d ''customer_id'' = Some (PStr (or_customer_id r)) \<and>
     map_of d ''customer_email'' = Some (PStr (or_customer_email r)) \<and>
     map_of d ''status'' = Some (PStr (or_status r)) \<and>
     map_of d ''total_amount'' = Some (PFloat (fl_round (or_total_amount r))) \<and>
     map_of d ''version'' = Some (PInt (or_version r)) \<and>
     map_of d ''payment_id'' = Some (opt_str (or_payment_id r)) \<and>
     map_of d ''tracking_id'' = Some (opt_str (or_tracking_id r)) \<and>
     map_of d ''created_at'' = Some (time_float (or_created_at r)) \<and>
     map_of d ''updated_at'' = Some (time_float (or_updated_at r)) \<and>
     map_of d ''items'' = Some (PList (map item_view its))"

text \<open>The dictionary that is cached: the columns, with the items parsed and the times as floats.\<close>

definition order_dict :: "order_row \<Rightarrow> item_row list \<Rightarrow> pydict" where
  "order_dict r its =
     [(''order_id'', PStr (or_order_id r)), (''customer_id'', PStr (or_customer_id r)),
      (''customer_email'', PStr (or_customer_email r)), (''status'', PStr (or_status r)),
      (''total_amount'', PDecimal (or_total_amount r)), (''version'', PInt (or_version r)),
      (''payment_id'', opt_str (or_payment_id r)), (''tracking_id'', opt_str (or_tracking_id r)),
      (''created_at'', time_float (or_created_at r)), (''updated_at'', time_float (or_updated_at r)),
      (''items'', PList (map item_view its))]"

lemma json_item:
  assumes "item_ok i"
  shows "json_ok (item_object i)" and "json_floats (item_object i) = item_view i"
    and "json_ok (item_view i)" and "json_floats (item_view i) = item_view i"
    and "OrderItemView (item_view i) = Inr (item_view i)"
  using assms
  by (auto simp: item_ok_def item_object_def item_view_def int4_def finite_float_def field_def split: pyfloat.splits)

lemma json_order_dict:
  assumes "row_ok r" and "\<forall>i \<in> set its. item_ok i"
  shows "json_ok (PDict (order_dict r its))" and "json_floats (PDict (order_dict r its)) =
    PDict (dict_set (order_dict r its) ''total_amount'' (PFloat (fl_round (or_total_amount r))))"
proof -
  have its: "map (json_floats \<circ> item_view) its = map item_view its" "list_all (json_ok \<circ> item_view) its"
    using assms(2) by (auto simp: json_item list_all_iff)
  show "json_ok (PDict (order_dict r its))"
    using assms(1) its by (auto simp: order_dict_def row_ok_def int4_def opt_str_def time_float_def finite_float_def
        list.pred_map split: option.splits pyfloat.splits)
  show "json_floats (PDict (order_dict r its)) =
      PDict (dict_set (order_dict r its) ''total_amount'' (PFloat (fl_round (or_total_amount r))))"
    using its(1) by (simp add: order_dict_def dict_set_def opt_str_def time_float_def split: option.splits)
qed

lemma OrderView_dict:
  assumes "\<forall>i \<in> set its. item_ok i"
  shows "\<exists>d. OrderView (order_dict r its) = Inr d \<and> shows_row d r its"
proof -
  have "mapR OrderItemView (map item_view its) = Inr (map item_view its)"
    using assms by (auto simp: mapR_Inr_iff json_item comp_def)
  then have "as_items (PList (map item_view its)) = Inr (PList (map item_view its))" by simp
  then show ?thesis
    by (simp add: OrderView_def order_dict_def field_def field_or_none_def opt_str_def time_float_def shows_row_def
        del: as_items.simps split: option.splits)
qed

lemma shows_row_json: "shows_row (dict_set (order_dict r its) ''total_amount'' (PFloat (fl_round (or_total_amount r)))) r its"
  by (simp add: shows_row_def map_of_dict_set) (simp add: order_dict_def)

context query_laws
begin

lemma row_result_columns:
  assumes "\<forall>i \<in> set (items_of db (or_order_id r)). item_ok i"
  shows "row_result (qe_loads Q) (order_columns (qe_pg_json Q) db r) = Inr (order_dict r (items_of db (or_order_id r)))"
proof -
  let ?its = "items_of db (or_order_id r)"
  have "json_ok (PList (map item_object ?its))" "map (json_floats \<circ> item_object) ?its = map item_view ?its"
    using assms by (auto simp: json_item list_all_iff)
  then have "parse_items (qe_loads Q) (items_column (qe_pg_json Q) ?its) = Inr (PList (map item_view ?its))"
    by (simp add: items_column_def loads_pg_json loads_empty)
  moreover have "timestamp (time_column t) = Inr (time_float t)" for t
    by (simp add: time_column_def time_float_def split: option.splits)
  ultimately show ?thesis
    by (simp add: row_result_def order_columns_def order_dict_def dict_item_def dict_set_def Let_def)
qed

end

section \<open>The cache\<close>

text \<open>A cache entry is coherent when it is the JSON text of the order's present row and items.\<close>

definition cached_for :: "'w query_env \<Rightarrow> pgdb \<Rightarrow> string \<Rightarrow> string \<Rightarrow> bool" where
  "cached_for Q db oid s \<longleftrightarrow> (\<exists>r its. r \<in> set (pg_orders db) \<and> or_order_id r = oid \<and>
     mset its = mset (items_of db oid) \<and> qe_dumps Q (PDict (order_dict r its)) = Inr s)"

definition cache_coherent :: "'w query_env \<Rightarrow> backend \<Rightarrow> bool" where
  "cache_coherent Q b \<longleftrightarrow> (\<forall>oid s. b_kv b (cache_key oid) = Some s \<longrightarrow> cached_for Q (b_tables b) oid s)"

text \<open>The answer shows a row of the order as it is in the tables.\<close>

definition answers :: "pgdb \<Rightarrow> string \<Rightarrow> pyval \<Rightarrow> bool" where
  "answers db oid content \<longleftrightarrow> (\<exists>d r its. content = PDict d \<and> r \<in> set (pg_orders db) \<and>
     or_order_id r = oid \<and> mset its = mset (items_of db oid) \<and> shows_row d r its)"

lemma cache_key_inject [simp]: "cache_key a = cache_key b \<longleftrightarrow> a = b"
  by (simp add: cache_key_def)

lemma same_tables_sets:
  assumes "same_tables db db'"
  shows "set (pg_orders db) = set (pg_orders db')" and "set (pg_items db) = set (pg_items db')"
    and "mset (items_of db oid) = mset (items_of db' oid)" and "has_order db oid = has_order db' oid"
    and "columns_ok db = columns_ok db'"
proof -
  show s: "set (pg_orders db) = set (pg_orders db')" "set (pg_items db) = set (pg_items db')"
    using assms by (auto simp: same_tables_def dest: mset_eq_setD)
  then show "has_order db oid = has_order db' oid" "columns_ok db = columns_ok db'"
    by (simp_all add: has_order_def columns_ok_def)
  show "mset (items_of db oid) = mset (items_of db' oid)"
    using assms by (simp add: items_of_def same_tables_def mset_filter)
qed

lemma columns_ok_items: "columns_ok db \<Longrightarrow> mset its = mset (items_of db oid) \<Longrightarrow> \<forall>i \<in> set its. item_ok i"
  by (drule mset_eq_setD) (auto simp: columns_ok_def items_of_def)

lemma cached_for_same: "same_tables db db' \<Longrightarrow> cached_for Q db oid s = cached_for Q db' oid s"
  by (simp add: cached_for_def same_tables_sets)

context query_laws
begin

lemma cached_answer:
  assumes "cached_for Q db oid s" and "columns_ok db"
  shows "s \<noteq> [] \<and> (\<exists>content. qe_loads Q s = Inr content \<and> answers db oid content)"
proof -
  obtain r its where r: "r \<in> set (pg_orders db)" "or_order_id r = oid" "mset its = mset (items_of db oid)"
    "qe_dumps Q (PDict (order_dict r its)) = Inr s"
    using assms(1) by (auto simp: cached_for_def)
  note j = json_order_dict [OF _ columns_ok_items [OF assms(2) r(3)], of r]
  have "row_ok r" using assms(2) r(1) by (simp add: columns_ok_def)
  with loads_dumps [OF j(1) r(4)] j(2) r shows_row_json show ?thesis
    unfolding answers_def by blast
qed

text \<open>A row fetched, turned into a result, is the dictionary of a row of the tables.\<close>

lemma fetched_row:
  assumes "same_tables db db'" and "columns_ok db'" and "select_order (qe_pg_json Q) (qe_codec Q) oid db = Inr (row # rows)"
    and "text_ok oid"
  obtains r its where "r \<in> set (pg_orders db')" and "or_order_id r = oid" and "mset its = mset (items_of db' oid)"
    and "row_result (qe_loads Q) row = Inr (order_dict r its)"
proof -
  obtain r rs where hit: "filter (\<lambda>r. oid = or_order_id r) (pg_orders db) = r # rs"
    and row: "row = order_columns (qe_pg_json Q) db r"
    using assms(3) text_str [OF assms(4)] by (auto simp: select_order_def)
  have "r \<in> set (filter (\<lambda>r. oid = or_order_id r) (pg_orders db))"
    unfolding hit by simp
  then have r: "r \<in> set (pg_orders db)" "or_order_id r = oid" by auto
  have items: "mset (items_of db oid) = mset (items_of db' oid)" "r \<in> set (pg_orders db')"
    using same_tables_sets [OF assms(1)] r(1) by auto
  have "\<forall>i \<in> set (items_of db (or_order_id r)). item_ok i"
    using columns_ok_items [OF assms(2) items(1)] r(2) by simp
  from row_result_columns [OF this] that [OF items(2) r(2) items(1)] r row show thesis by simp
qed

lemma read_cases:
  assumes "get_order_read Q oid w = (Inr x, w')" and "cache_coherent Q (V w)" and "columns_ok (b_tables (V w))"
    and "text_ok oid"
  shows "V w' = V w \<and> (case x of
      Inl content \<Rightarrow> answers (b_tables (V w)) oid content
    | Inr row \<Rightarrow> \<exists>r its. r \<in> set (pg_orders (b_tables (V w))) \<and> or_order_id r = oid \<and>
        mset its = mset (items_of (b_tables (V w)) oid) \<and> row_result (qe_loads Q) row = Inr (order_dict r its))"
  using assms(1) unfolding get_order_read_def
proof (cases rule: bindM_cases)
  case (continued cached w1)
  have w1: "V w1 = V w" and c: "cached = b_kv (V w) (cache_key oid)"
    using get_ok [OF continued(1)] by auto
  show ?thesis
  proof (cases "\<exists>c cs. cached = Some (c # cs)")
    case True
    then obtain s where s: "cached = Some s" "s \<noteq> []" by auto
    then have "cached_for Q (b_tables (V w)) oid s"
      using assms(2) c by (simp add: cache_coherent_def)
    from cached_answer [OF this assms(3)] continued(2) s w1 show ?thesis
      by (auto simp: neq_Nil_conv bindM_def io_simps)
  next
    case False
    then have "bindM (qe_fetch Q (select_order (qe_pg_json Q) (qe_codec Q) oid))
        (\<lambda>rows. case rows of [] \<Rightarrow> raiseM (not_found oid) | row # _ \<Rightarrow> returnM (Inr row)) w1 = (Inr x, w')"
      using continued(2) by (simp split: option.splits list.splits)
    then show ?thesis
    proof (cases rule: bindM_cases)
      case (continued rows w2)
      obtain db where db: "same_tables db (b_tables (V w))" "select_order (qe_pg_json Q) (qe_codec Q) oid db = Inr rows"
        "V w2 = V w"
        using fetch_ok [OF continued(1)] w1 by auto
      then obtain row rest where rows: "rows = row # rest" "x = Inr row" "w' = w2"
        using continued(2) by (cases rows) (auto simp: io_simps)
      obtain r its where "r \<in> set (pg_orders (b_tables (V w)))" "or_order_id r = oid"
        "mset its = mset (items_of (b_tables (V w)) oid)" "row_result (qe_loads Q) row = Inr (order_dict r its)"
        by (rule fetched_row [OF db(1) assms(3) db(2) [unfolded rows(1)] assms(4)])
      with rows db(3) show ?thesis by auto
    qed simp
  qed
qed simp

lemma store_cases:
  assumes "get_order_store Q oid row w = (q, w')" and "cache_coherent Q (V w)" and "columns_ok (b_tables (V w))"
    and "r \<in> set (pg_orders (b_tables (V w)))" and "or_order_id r = oid"
    and "mset its = mset (items_of (b_tables (V w)) oid)" and "row_result (qe_loads Q) row = Inr (order_dict r its)"
  shows "cache_coherent Q (V w')" and "\<exists>kv. V w' = (V w)\<lparr>b_kv := kv\<rparr>"
    and "q = Inr content \<Longrightarrow> answers (b_tables (V w)) oid content"
proof -
  have ok: "\<forall>i \<in> set its. item_ok i" by (rule columns_ok_items [OF assms(3,6)])
  obtain d where d: "OrderView (order_dict r its) = Inr d" "shows_row d r its"
    using OrderView_dict [OF ok] by blast
  have "cache_coherent Q (V w') \<and> (\<exists>kv. V w' = (V w)\<lparr>b_kv := kv\<rparr>) \<and> (\<forall>c. q = Inr c \<longrightarrow> c = PDict d)"
  proof (cases "qe_dumps Q (PDict (order_dict r its))")
    case (Inl e)
    then show ?thesis
      using assms(1,2,7) by (auto simp: get_order_store_def bindM_def io_simps intro: exI [of _ "b_kv (V w)"])
  next
    case (Inr js)
    have fresh: "cached_for Q (b_tables (V w)) oid js"
      unfolding cached_for_def using assms(4-6) Inr by blast
    have run: "bindM (redis_setex (qe_redis Q) (cache_key oid) (redis_cache_ttl (qe_settings Q)) js)
        (\<lambda>_. returnM (PDict d)) w = (q, w')"
      using assms(1,7) Inr d(1) by (simp add: get_order_store_def bindM_liftM)
    then have "V w' = V w \<or> V w' = (V w)\<lparr>b_kv := (b_kv (V w))(cache_key oid \<mapsto> js)\<rparr>"
      "\<forall>c. q = Inr c \<longrightarrow> c = PDict d"
      by (auto elim!: bindM_cases simp: io_simps dest: setex_ok setex_err)
    moreover have "cache_coherent Q ((V w)\<lparr>b_kv := (b_kv (V w))(cache_key oid \<mapsto> js)\<rparr>)"
      using assms(2) fresh by (auto simp: cache_coherent_def)
    ultimately show ?thesis
      using assms(2) by (auto intro: exI [of _ "b_kv (V w)"])
  qed
  then show "cache_coherent Q (V w')" "\<exists>kv. V w' = (V w)\<lparr>b_kv := kv\<rparr>"
    "q = Inr content \<Longrightarrow> answers (b_tables (V w)) oid content"
    using d(2) assms(4-6) unfolding answers_def by blast+
qed

lemma get_order_cases:
  assumes "get_order Q oid w = (q, w')" and "cache_coherent Q (V w)" and "columns_ok (b_tables (V w))"
    and "text_ok oid"
  shows "cache_coherent Q (V w') \<and> (\<exists>kv. V w' = (V w)\<lparr>b_kv := kv\<rparr>) \<and>
    (\<forall>content. q = Inr content \<longrightarrow> answers (b_tables (V w)) oid content)"
  using assms(1) unfolding get_order_def
proof (cases rule: bindM_cases)
  case (raised e)
  then have "V w' = V w"
    unfolding get_order_read_def
    by (auto elim!: bindM_cases simp: io_simps split: option.splits list.splits
        dest!: get_ok get_err fetch_ok fetch_err)
  then show ?thesis using raised(2) assms(2) by (auto intro: exI [of _ "b_kv (V w)"])
next
  case (continued x w1)
  note read = read_cases [OF continued(1) assms(2-4)]
  show ?thesis
  proof (cases x)
    case (Inl content)
    then show ?thesis
      using read continued(2) assms(2) by (auto simp: io_simps intro: exI [of _ "b_kv (V w)"])
  next
    case (Inr row)
    with read obtain r its where r: "r \<in> set (pg_orders (b_tables (V w)))" "or_order_id r = oid"
      "mset its = mset (items_of (b_tables (V w)) oid)" "row_result (qe_loads Q) row = Inr (order_dict r its)"
      and w1: "V w1 = V w" by auto
    have "get_order_store Q oid row w1 = (q, w')" using continued(2) Inr by simp
    note store_cases [OF this, unfolded w1, OF assms(2,3) r]
    then show ?thesis by blast
  qed
qed

end

text \<open>The services of the query side answer, and a row's dictionary can be printed.\<close>

definition query_up :: "'w query_env \<Rightarrow> bool" where
  "query_up Q \<longleftrightarrow> (\<forall>k w. \<exists>v w'. redis_get (qe_redis Q) k w = (Inr v, w')) \<and>
     (\<forall>k n v w. \<exists>w'. redis_setex (qe_redis Q) k n v w = (Inr (), w')) \<and>
     (\<forall>f w. (\<forall>db. \<exists>rows. f db = Inr rows) \<longrightarrow> (\<exists>rows w'. qe_fetch Q f w = (Inr rows, w'))) \<and>
     (\<forall>v. json_ok v \<longrightarrow> (\<exists>s. qe_dumps Q v = Inr s))"

context query_laws
begin

lemma get_order_up:
  assumes "query_up Q" and "cache_coherent Q (V w)" and "columns_ok (b_tables (V w))" and "text_ok oid"
  shows "\<exists>q w'. get_order Q oid w = (q, w') \<and>
    (if has_order (b_tables (V w)) oid then \<exists>content. q = Inr content else q = Inl (not_found oid))"
proof -
  let ?db = "b_tables (V w)"
  obtain cached w1 where get: "redis_get (qe_redis Q) (cache_key oid) w = (Inr cached, w1)"
    using assms(1) unfolding query_up_def by blast
  then have c: "cached = b_kv (V w) (cache_key oid)" "V w1 = V w" using get_ok by auto
  show ?thesis
  proof (cases "\<exists>c cs. cached = Some (c # cs)")
    case True
    then obtain s where s: "cached = Some s" "s \<noteq> []" by auto
    then have hit: "cached_for Q ?db oid s"
      using assms(2) c(1) by (simp add: cache_coherent_def)
    then have "has_order ?db oid" by (auto simp: cached_for_def has_order_def)
    moreover obtain content where "qe_loads Q s = Inr content"
      using cached_answer [OF hit assms(3)] by blast
    ultimately show ?thesis
      using get s by (auto simp: get_order_def get_order_read_def bindM_def io_simps neq_Nil_conv)
  next
    case False
    have "\<exists>rows. select_order (qe_pg_json Q) (qe_codec Q) oid db = Inr rows" for db
      using text_str [OF assms(4)] by (simp add: select_order_def)
    then obtain rows w2 where fetch: "qe_fetch Q (select_order (qe_pg_json Q) (qe_codec Q) oid) w1 = (Inr rows, w2)"
      using assms(1) unfolding query_up_def by blast
    then obtain db where db: "same_tables db ?db" "select_order (qe_pg_json Q) (qe_codec Q) oid db = Inr rows"
      "V w2 = V w"
      using fetch_ok c(2) by metis
    have read: "get_order_read Q oid w = (case rows of [] \<Rightarrow> raiseM (not_found oid) | row # _ \<Rightarrow> returnM (Inr row)) w2"
      using get fetch False by (auto simp: get_order_read_def bindM_def split: option.splits list.splits)
    have "has_order db oid \<longleftrightarrow> rows \<noteq> []"
      using db(2) text_str [OF assms(4)] by (auto simp: select_order_def has_order_def filter_empty_conv)
    then have has: "has_order ?db oid \<longleftrightarrow> rows \<noteq> []"
      using same_tables_sets(4) [OF db(1)] by simp
    show ?thesis
    proof (cases rows)
      case Nil
      then show ?thesis using read has by (simp add: get_order_def bindM_def io_simps)
    next
      case (Cons row rest)
      obtain r its where r: "r \<in> set (pg_orders ?db)" "mset its = mset (items_of ?db oid)"
        "row_result (qe_loads Q) row = Inr (order_dict r its)"
        by (rule fetched_row [OF db(1) assms(3) db(2) [unfolded Cons] assms(4)])
      note ok = columns_ok_items [OF assms(3) r(2)]
      have "row_ok r" using assms(3) r(1) by (simp add: columns_ok_def)
      then obtain js where js: "qe_dumps Q (PDict (order_dict r its)) = Inr js"
        using json_order_dict(1) [OF _ ok] assms(1) unfolding query_up_def by blast
      obtain w3 where set: "redis_setex (qe_redis Q) (cache_key oid) (redis_cache_ttl (qe_settings Q)) js w2 = (Inr (), w3)"
        using assms(1) unfolding query_up_def by blast
      obtain d where "OrderView (order_dict r its) = Inr d" using OrderView_dict [OF ok] by blast
      then have "get_order Q oid w = (Inr (PDict d), w3)"
        using read Cons r(3) js set by (simp add: get_order_def get_order_store_def bindM_def io_simps)
      then show ?thesis using has Cons by simp
    qed
  qed
qed

end

end
