(* ===== verification/Json_Codec.thy ===== *)
theory Json_Codec
  imports Prelude
begin

text \<open>
  A text codec for values with a parser that inverts it, as an instance of what the program relies
  on in \<open>orjson\<close> and in PostgreSQL's JSON printer.  Numbers are written in unary and strings, lists
  and dictionaries with their length in front, which keeps the parser short.
\<close>

definition enc_nat :: "nat \<Rightarrow> string" where
  "enc_nat n = replicate n CHR ''x'' @ '';''"

definition read_nat :: "string \<Rightarrow> nat \<times> string" where
  "read_nat s = (length (takeWhile (\<lambda>c. c = CHR ''x'') s), drop 1 (dropWhile (\<lambda>c. c = CHR ''x'') s))"

definition enc_int :: "int \<Rightarrow> string" where
  "enc_int i = (if i < 0 then ''-'' @ enc_nat (nat (- i)) else ''+'' @ enc_nat (nat i))"

definition read_int :: "string \<Rightarrow> int \<times> string" where
  "read_int s = (let (n, r) = read_nat (tl s) in (if take 1 s = ''-'' then - int n else int n, r))"

definition enc_rat :: "rat \<Rightarrow> string" where
  "enc_rat q = enc_int (fst (quotient_of q)) @ enc_int (snd (quotient_of q))"

definition read_rat :: "string \<Rightarrow> rat \<times> string" where
  "read_rat s = (let (a, r) = read_int s; (b, r') = read_int r in (of_int a / of_int b, r'))"

definition enc_str :: "string \<Rightarrow> string" where
  "enc_str s = enc_nat (length s) @ s"

definition read_str :: "string \<Rightarrow> string \<times> string" where
  "read_str s = (let (n, r) = read_nat s in (take n r, drop n r))"

fun enc :: "pyval \<Rightarrow> string" where
  "enc PNone = ''n''"
| "enc (PBool b) = (if b then ''t'' else ''f'')"
| "enc (PInt i) = ''i'' @ enc_int i"
| "enc (PFloat x) = (case x of Fin q \<Rightarrow> ''r'' @ enc_rat q | PInf \<Rightarrow> ''p'' | NInf \<Rightarrow> ''m'' | NaN \<Rightarrow> ''a'')"
| "enc (PDecimal q) = ''d'' @ enc_rat q"
| "enc (PTime q) = ''c'' @ enc_rat q"
| "enc (PStr s) = ''s'' @ enc_str s"
| "enc (PList vs) = ''l'' @ enc_nat (length vs) @ concat (map enc vs)"
| "enc (PDict d) = ''o'' @ enc_nat (length d) @ concat (map (\<lambda>kv. enc_str (fst kv) @ enc (snd kv)) d)"

fun read_many :: "(string \<Rightarrow> ('a \<times> string) option) \<Rightarrow> nat \<Rightarrow> string \<Rightarrow> ('a list \<times> string) option" where
  "read_many f 0 s = Some ([], s)"
| "read_many f (Suc n) s =
     (case f s of
        None \<Rightarrow> None
      | Some (x, r) \<Rightarrow> map_option (\<lambda>(xs, r'). (x # xs, r')) (read_many f n r))"

text \<open>The parser; the depth of a value is at most the length of its text.\<close>

fun read_val :: "nat \<Rightarrow> string \<Rightarrow> (pyval \<times> string) option" where
  "read_val 0 s = None"
| "read_val (Suc n) [] = None"
| "read_val (Suc n) (c # s) =
     (if c = CHR ''n'' then Some (PNone, s)
      else if c = CHR ''t'' then Some (PBool True, s)
      else if c = CHR ''f'' then Some (PBool False, s)
      else if c = CHR ''i'' then Some (apfst PInt (read_int s))
      else if c = CHR ''r'' then Some (apfst (\<lambda>q. PFloat (Fin q)) (read_rat s))
      else if c = CHR ''p'' then Some (PFloat PInf, s)
      else if c = CHR ''m'' then Some (PFloat NInf, s)
      else if c = CHR ''a'' then Some (PFloat NaN, s)
      else if c = CHR ''d'' then Some (apfst PDecimal (read_rat s))
      else if c = CHR ''c'' then Some (apfst PTime (read_rat s))
      else if c = CHR ''s'' then Some (apfst PStr (read_str s))
      else if c = CHR ''l'' then
        map_option (apfst PList) (read_many (read_val n) (fst (read_nat s)) (snd (read_nat s)))
      else if c = CHR ''o'' then
        map_option (apfst PDict)
          (read_many (\<lambda>s. map_option (\<lambda>(v, r). ((fst (read_str s), v), r)) (read_val n (snd (read_str s))))
             (fst (read_nat s)) (snd (read_nat s)))
      else None)"

section \<open>The parser inverts the printer\<close>

lemma read_nat_enc [simp]: "read_nat (enc_nat n @ r) = (n, r)"
  by (simp add: read_nat_def enc_nat_def takeWhile_tail dropWhile_append)

lemma read_int_enc [simp]: "read_int (enc_int i @ r) = (i, r)"
  by (simp add: read_int_def enc_int_def)

lemma read_rat_enc [simp]: "read_rat (enc_rat q @ r) = (q, r)"
  using quotient_of_div [of q "fst (quotient_of q)" "snd (quotient_of q)"]
  by (simp add: read_rat_def enc_rat_def)

lemma read_str_enc [simp]: "read_str (enc_str s @ r) = (s, r)"
  by (simp add: read_str_def enc_str_def)

lemma read_many_enc:
  "(\<And>x r. x \<in> set xs \<Longrightarrow> f (e x @ r) = Some (x, r)) \<Longrightarrow>
     read_many f (length xs) (concat (map e xs) @ r) = Some (xs, r)"
  by (induction xs) auto

lemma length_concat_map: "x \<in> set xs \<Longrightarrow> length (e x) \<le> length (concat (map e xs))"
  by (induction xs) auto

lemma read_val_enc: "length (enc v) \<le> n \<Longrightarrow> read_val n (enc v @ r) = Some (v, r)"
proof (induction v arbitrary: n r)
  case (PFloat x)
  then show ?case by (cases n; cases x) simp_all
next
  case (PList vs)
  then obtain m where m: "n = Suc m" by (cases n) auto
  have "read_val m (enc x @ r) = Some (x, r)" if "x \<in> set vs" for x r
  proof (rule PList.IH [OF that])
    show "length (enc x) \<le> m"
      using length_concat_map [OF that, of enc] PList.prems m by simp
  qed
  then have "read_many (read_val m) (length vs) (concat (map enc vs) @ r) = Some (vs, r)"
    by (rule read_many_enc)
  then show ?case using m by simp
next
  case (PDict d)
  then obtain m where m: "n = Suc m" by (cases n) auto
  let ?e = "\<lambda>kv. enc_str (fst kv) @ enc (snd kv)"
  let ?f = "\<lambda>s. map_option (\<lambda>(v, r). ((fst (read_str s), v), r)) (read_val m (snd (read_str s)))"
  have "?f (?e kv @ r) = Some (kv, r)"
    if "kv \<in> set d" for kv r
  proof -
    have "length (enc (snd kv)) \<le> m"
      using length_concat_map [OF that, of ?e] PDict.prems m by simp
    then have "read_val m (enc (snd kv) @ r) = Some (snd kv, r)"
      using that by (intro PDict.IH) (auto simp: snds.simps intro: prod.exhaust [of kv])
    then show ?thesis by simp
  qed
  then have "read_many ?f (length d) (concat (map ?e d) @ r) = Some (d, r)"
    by (rule read_many_enc)
  then show ?case using m by simp
qed (auto simp: Suc_le_eq dest!: less_imp_Suc_add)

lemma enc_nonempty [simp]: "enc v \<noteq> []"
  by (cases v) (auto split: pyfloat.splits)

lemma enc_hd: "enc v \<noteq> CHR ''['' # s"
  by (cases v) (auto split: pyfloat.splits)

definition loads :: "string \<Rightarrow> exn + pyval" where
  "loads s =
     (if s = ''[]'' then Inr (PList [])
      else (case read_val (length s) s of
              Some (v, []) \<Rightarrow> Inr v
            | _ \<Rightarrow> Inl (ValueError [Lit ''unexpected character''])))"

lemma loads_empty_list [simp]: "loads ''[]'' = Inr (PList [])"
  by (simp add: loads_def)

lemma loads_enc [simp]: "loads (enc v) = Inr v"
  using read_val_enc [of v "length (enc v)" "[]"] enc_hd [of v] by (simp add: loads_def)

end
