(* ===== verification/Write_Side.thy ===== *)
theory Write_Side
  imports Command_Router
begin

text \<open>
  The properties of the write side as a whole, over all six commands, with the services in
  memory as the instance they are evaluated on.  Besides what the handlers keep when services
  fail (safety, from \<open>Command_Router\<close>), the locale \<open>write_side_up\<close> adds what it takes for
  every call to be answered, and under it an admitted command is shown to succeed.
\<close>

section \<open>When the services answer\<close>

text \<open>An identifier that no stored document carries.\<close>

definition fresh_id :: "string \<Rightarrow> backend \<Rightarrow> bool" where
  "fresh_id u b \<longleftrightarrow> (\<forall>d \<in> set (b_docs b). \<forall>k \<in> {''_id'', ''event_id'', ''aggregate_id''}.
     map_of d k \<noteq> Some (PStr u))"

text \<open>The integers orjson serialises: those that fit 64 bits.\<close>

fun ints64 :: "pyval \<Rightarrow> bool" where
  "ints64 (PInt i) = (- (2 ^ 63) < i \<and> i < 2 ^ 64)"
| "ints64 (PList xs) = list_all ints64 xs"
| "ints64 (PDict d) = list_all (\<lambda>kv. ints64 (snd kv)) d"
| "ints64 _ = True"

text \<open>The services answer in every world that is \<open>live\<close>, and identifiers are fresh there.\<close>

locale write_side_up = write_side M R K V P
  for M :: "'w mongo_collection" and R K V P +
  fixes live :: "'w \<Rightarrow> bool"
  assumes find_up: "live w \<Longrightarrow> \<exists>ds w'. find_sorted M f k asc cap w = (Inr ds, w') \<and> live w'"
    and insert_up: "live w \<Longrightarrow> \<not> dup_key (b_indexes (V w)) (b_docs (V w)) d \<Longrightarrow>
      \<exists>w'. insert_one M d w = (Inr (), w') \<and> live w'"
    and get_up: "live w \<Longrightarrow> \<exists>c w'. redis_get R key w = (Inr c, w') \<and> live w'"
    and exists_up: "live w \<Longrightarrow> \<exists>b w'. redis_exists R key w = (Inr b, w') \<and> live w'"
    and setex_up: "live w \<Longrightarrow> \<exists>w'. redis_setex R key ttl v w = (Inr (), w') \<and> live w'"
    and send_up: "live w \<Longrightarrow> \<exists>w'. send_and_wait K rec w = (Inr (), w') \<and> live w'"
    and uuid_up: "live w \<Longrightarrow> live (snd (uuid4 (pf_env P) w)) \<and> fresh_id (fst (uuid4 (pf_env P) w)) (V w)"
    and time_up: "live w \<Longrightarrow> live (snd (time_time (pf_env P) w))"
    and dumps_up: "ints64 x \<Longrightarrow> \<exists>s. pf_dumps P x = Inr s"
begin

lemma load_up:
  assumes "live w" and "store_ok (V w)" and "order_history (V w) oid \<noteq> []"
  shows "\<exists>w'. load_aggregate M oid w = (Inr (agg_of (PStr oid) (order_state_of (V w) oid)), w') \<and>
    live w' \<and> V w' = V w"
proof -
  obtain ds w' where g: "get_events M oid w = (Inr ds, w')" "live w'"
    using find_up [OF assms(1)] unfolding get_events_def by blast
  then show ?thesis
    using get_events_rebuild [OF g(1) assms(2)] assms(3)
    by (auto simp: load_aggregate_def bindM_def io_simps)
qed

lemma append_up:
  assumes "live w" and "\<not> dup_key (b_indexes (V w)) (b_docs (V w)) (stored ev)"
  shows "\<exists>w'. append_es M (model_dump ev) w = (Inr (), w') \<and> live w'"
proof -
  obtain w' where "insert_one M (stored ev) w = (Inr (), w')" "live w'"
    using insert_up [OF assms] by blast
  then show ?thesis
    by (simp add: append_es_def tryM_def bindM_def liftM_def dict_simps stored_def)
qed

lemma attempt_up:
  assumes "live w" and "ints64 (PDict (model_dump ev))"
  shows "\<exists>w'. publish_attempt cfg (pf_dumps P) pub ev w = (Inr (), w') \<and> live w'"
proof -
  obtain bytes where bytes: "to_kafka_bytes (pf_dumps P) ev = Inr bytes"
    using dumps_up [OF assms(2)] by (auto simp: to_kafka_bytes_def)
  obtain b w1 where w1: "redis_exists R (published_key ev) w = (Inr b, w1)" "live w1"
    using exists_up [OF assms(1)] by blast
  obtain w2 where w2: "send_and_wait K (event_record cfg ev bytes) w1 = (Inr (), w2)" "live w2"
    using send_up [OF w1(2)] by blast
  obtain w3 where "redis_setex R (published_key ev) 86400 ''1'' w2 = (Inr (), w3)" "live w3"
    using setex_up [OF w2(2)] by blast
  then show ?thesis
    using w1 w2 bytes by (auto simp: publish_attempt_def bindM_def io_simps event_record_def)
qed

lemma publish_up:
  assumes "live w" and "ints64 (PDict (model_dump ev))"
  shows "\<exists>w'. publish_via P pub ev w = (Inr (), w') \<and> live w'"
  using attempt_up [OF assms, of "pf_settings P"]
  by (auto simp: publish_def retry_documented numeral_3_eq_3 tryM_def)

lemma BaseEvent_up:
  assumes "live w" and "ints64 (PDict p)" and "ints64 (PInt v)"
  shows "\<exists>ev w'. BaseEvent (pf_env P) t a v p w = (Inr ev, w') \<and> live w' \<and>
    fresh_id (ev_event_id ev) (V w') \<and> ints64 (PDict (model_dump ev))"
proof -
  let ?w1 = "snd (uuid4 (pf_env P) w)"
  let ?w2 = "snd (time_time (pf_env P) ?w1)"
  have "live ?w2" "fresh_id (fst (uuid4 (pf_env P) w)) (V w)"
    using uuid_up [OF assms(1)] time_up [of ?w1] by auto
  then show ?thesis
    using uuid_up [of ?w2] assms(2,3)
    by (simp add: BaseEvent_def bindM_def io_simps uuid4_view time_view model_dump_def)
qed

end

text \<open>The keys of the event store are its only unique indexes, as \<open>setup_indexes\<close> leaves it.\<close>

definition only_keys :: "backend \<Rightarrow> bool" where
  "only_keys b \<longleftrightarrow>
     (\<forall>ix \<in> set (b_indexes b). ix_unique ix \<longrightarrow> ix \<in> {idx_aggregate_version, idx_event_id})"

lemma fresh_no_dup:
  assumes "store_ok b" and "only_keys b" and "fresh_id (ev_event_id ev) b"
    and "decode (model_dump ev) = Some (os_version (order_state_of b (ev_aggregate_id ev)) + 1, e)"
  shows "\<not> dup_key (b_indexes b) (b_docs b) (stored ev)"
proof
  let ?a = "ev_aggregate_id ev"
  assume "dup_key (b_indexes b) (b_docs b) (stored ev)"
  then obtain ix x where ix: "ix = id_index \<or> ix \<in> set (b_indexes b)" "x \<in> set (b_docs b)"
    "index_conflict ix (stored ev) x"
    by (auto simp: dup_key_def)
  have v: "ev_aggregate_version ev = int (length (agg_docs b ?a)) + 1"
    using assms(4) history_version [OF assms(1), of ?a] by (auto simp: decode_model_dump)
  have "map_of x ''_id'' \<noteq> Some (PStr (ev_event_id ev))" "map_of x ''event_id'' \<noteq> Some (PStr (ev_event_id ev))"
    using assms(3) ix(2) by (simp_all add: fresh_id_def)
  then have "ix = idx_aggregate_version"
    using ix(1,3) assms(2) by (auto simp: only_keys_def index_conflict_def id_index_def idx_event_id_def dict_simps)
  then have key: "map_of x ''aggregate_id'' = Some (PStr ?a)"
    "map_of x ''aggregate_version'' = Some (PInt (ev_aggregate_version ev))"
    using ix(3) by (auto simp: index_conflict_def idx_aggregate_version_def dict_simps)
  then have "x \<in> set (agg_docs b ?a)" "doc_version x = ev_aggregate_version ev"
    using ix(2) by (simp_all add: agg_docs_def matches_def doc_version_def)
  then have "ev_aggregate_version ev \<in> set (map doc_version (agg_docs b ?a))"
    by force
  then show False
    unfolding agg_docs_versions [OF assms(1)] v by simp
qed

context write_side_up
begin

lemma run_up:
  assumes "order_command V oid guard mk kind" and "live w" and "store_ok (V w)" and "only_keys (V w)"
    and "order_history (V w) oid \<noteq> []"
    and "guard (agg_of (PStr oid) (order_state_of (V w) oid)) = Inr ()"
    and make: "\<And>w1. live w1 \<Longrightarrow> \<exists>ev w2. mk (os_version (order_state_of (V w) oid) + 1) w1 = (Inr ev, w2) \<and>
      live w2 \<and> fresh_id (ev_event_id ev) (V w2) \<and> ints64 (PDict (model_dump ev))"
  shows "\<exists>resp w'. run_command P M pub oid guard mk msg w = (Inr resp, w') \<and> live w'"
proof -
  let ?s = "order_state_of (V w) oid"
  obtain w1 where w1: "load_aggregate M oid w = (Inr (agg_of (PStr oid) ?s), w1)" "live w1" "V w1 = V w"
    using load_up [OF assms(2,3,5)] by blast
  obtain ev w2 where w2: "mk (os_version ?s + 1) w1 = (Inr ev, w2)" "live w2"
    "fresh_id (ev_event_id ev) (V w2)" "ints64 (PDict (model_dump ev))"
    using make [OF w1(2)] by blast
  have ev: "V w2 = V w" "ev_aggregate_id ev = oid" "decode (model_dump ev) = Some (os_version ?s + 1, kind)"
    using order_command.make_ok [OF assms(1) w2(1)] w1(3) by auto
  have "\<not> dup_key (b_indexes (V w2)) (b_docs (V w2)) (stored ev)"
    using fresh_no_dup [of "V w2" ev kind] assms(3,4) w2(3) ev by simp
  then obtain w3 where w3: "append_es M (model_dump ev) w2 = (Inr (), w3)" "live w3"
    using append_up [OF w2(2)] by blast
  obtain w4 where w4: "publish_via P pub ev w3 = (Inr (), w4)" "live w4"
    using publish_up [OF w3(2) w2(4)] by blast
  show ?thesis
    using w1(1) w2(1) w3(1) w4 assms(6) by (simp add: run_command_def bindM_def io_simps)
qed

lemma timed_up:
  assumes "live w" and "\<And>t. ints64 (PDict (p t))" and "ints64 (PInt v)"
  shows "\<exists>ev w'. bindM (effM (time_time (pf_env P))) (\<lambda>t. BaseEvent (pf_env P) k a v (p t)) w = (Inr ev, w') \<and>
    live w' \<and> fresh_id (ev_event_id ev) (V w') \<and> ints64 (PDict (model_dump ev))"
  using BaseEvent_up [OF time_up [OF assms(1)] assms(2,3)] by (simp add: bindM_def io_simps)

lemma factories_up:
  assumes "live w" and "ints64 (PInt v)"
  shows "\<exists>ev w'. order_confirmed_event (pf_env P) a v w = (Inr ev, w') \<and> live w' \<and>
      fresh_id (ev_event_id ev) (V w') \<and> ints64 (PDict (model_dump ev))"
    and "\<exists>ev w'. order_payment_processed_event (pf_env P) a v pid x y w = (Inr ev, w') \<and> live w' \<and>
      fresh_id (ev_event_id ev) (V w') \<and> ints64 (PDict (model_dump ev))"
    and "\<exists>ev w'. order_shipped_event (pf_env P) a v pid y w = (Inr ev, w') \<and> live w' \<and>
      fresh_id (ev_event_id ev) (V w') \<and> ints64 (PDict (model_dump ev))"
    and "\<exists>ev w'. order_cancelled_event (pf_env P) a v y w = (Inr ev, w') \<and> live w' \<and>
      fresh_id (ev_event_id ev) (V w') \<and> ints64 (PDict (model_dump ev))"
  unfolding order_confirmed_event_def order_payment_processed_event_def order_shipped_event_def
    order_cancelled_event_def
  by (rule timed_up; use assms in simp)+

lemma created_up:
  assumes "live w"
  shows "\<exists>ev w'. order_created_event (pf_env P) a c m w = (Inr ev, w') \<and> live w' \<and>
    fresh_id (ev_event_id ev) (V w') \<and> ints64 (PDict (model_dump ev))"
  unfolding order_created_event_def by (rule BaseEvent_up [OF assms]) simp_all

lemma item_added_up:
  assumes "live w" and "ints64 (PInt v)" and "ints64 (PInt q)" and "float_of_int q = Inr f"
  shows "\<exists>ev w'. order_item_added_event (pf_env P) a v pid nm q pr w = (Inr ev, w') \<and> live w' \<and>
    fresh_id (ev_event_id ev) (V w') \<and> ints64 (PDict (model_dump ev))"
  using BaseEvent_up [OF assms(1) _ assms(2)] assms(3,4)
  by (simp add: order_item_added_event_def bindM_def io_simps)

end

text \<open>
  What a command needs besides admission: a quantity within the integers orjson serialises and
  a payment the gateway does not decline.
\<close>

fun servable :: "command \<Rightarrow> bool" where
  "servable (AddItem oid req) =
     (ints64 (PInt (ai_quantity req)) \<and> (\<exists>f. float_of_int (ai_quantity req) = Inr f))"
| "servable (ProcessPayment oid req) = (\<not> startswith (pp_payment_id req) ''fail_'')"
| "servable _ = True"

context write_side_up
begin

lemma command_up:
  assumes "live w" and "store_ok (V w)" and "only_keys (V w)"
    and "target cmd = Some (oid, kind)" and "admits (order_state_of (V w) oid) kind"
    and "order_history (V w) oid \<noteq> []" and "servable cmd"
    and "ints64 (PInt (os_version (order_state_of (V w) oid) + 1))"
  shows "\<exists>resp w'. exec_command P M pub R cmd w = (Inr resp, w') \<and> live w'"
proof (cases cmd)
  case (AddItem x req)
  then show ?thesis
    using assms unfolding AddItem exec_command.simps handler_runs
    by (intro run_up [OF add.order_command_axioms]) (auto simp: guard_defs simp del: ints64.simps intro: item_added_up)
next
  case (ConfirmOrder x)
  then show ?thesis
    using assms unfolding ConfirmOrder exec_command.simps handler_runs
    by (intro run_up [OF confirm.order_command_axioms]) (auto simp: guard_defs simp del: ints64.simps intro: factories_up)
next
  case (ProcessPayment x req)
  then show ?thesis
    using assms unfolding ProcessPayment exec_command.simps process_payment_run
    by (intro run_up [OF pay.order_command_axioms]) (auto simp: guard_defs simp del: ints64.simps intro: factories_up)
next
  case (ShipOrder x req)
  then show ?thesis
    using assms unfolding ShipOrder exec_command.simps handler_runs
    by (intro run_up [OF ship.order_command_axioms]) (auto simp: guard_defs simp del: ints64.simps intro: factories_up)
next
  case (CancelOrder x req)
  then show ?thesis
    using assms unfolding CancelOrder exec_command.simps handler_runs
    by (intro run_up [OF cancel.order_command_axioms]) (auto simp: guard_defs simp del: ints64.simps intro: factories_up)
qed (use assms in simp)

end

lemma fresh_id_history: "fresh_id a b \<Longrightarrow> order_history b a = []"
  by (auto simp: fresh_id_def order_history_def agg_docs_def history_def matches_def filter_empty_conv)

context write_side_up
begin

lemma create_up:
  assumes "live w" and "store_ok (V w)" and "only_keys (V w)"
    and "b_kv (V w) (''idem:create:'' @ co_idempotency_key req) = None"
  shows "\<exists>resp w'. create_order P M pub R req w = (Inr resp, w') \<and> live w' \<and>
    (\<exists>w1. cr_aggregate_id resp = fst (uuid4 (pf_env P) w1)) \<and>
    order_history (V w) (cr_aggregate_id resp) = [] \<and>
    order_history (V w') = (order_history (V w))(cr_aggregate_id resp :=
      [(1, Created (co_customer_id req) (co_customer_email req))])"
proof -
  let ?E = "pf_env P" and ?key = "''idem:create:'' @ co_idempotency_key req"
  obtain w1 where w1: "redis_get R ?key w = (Inr None, w1)" "live w1" "V w1 = V w"
    using get_up [OF assms(1), of ?key] assms(4) get_ok by metis
  let ?oid = "fst (uuid4 ?E w1)" and ?w2 = "snd (uuid4 ?E w1)"
  have w2: "live ?w2" "order_history (V w) ?oid = []" "V ?w2 = V w"
    using uuid_up [OF w1(2)] w1(3) fresh_id_history by (auto simp: uuid4_view)
  obtain ev w3 where w3: "order_created_event ?E ?oid (co_customer_id req) (co_customer_email req) ?w2 = (Inr ev, w3)"
    "live w3" "fresh_id (ev_event_id ev) (V w3)" "ints64 (PDict (model_dump ev))"
    using created_up [OF w2(1)] by blast
  have ev: "V w3 = V w" "ev_aggregate_id ev = ?oid"
    "decode (model_dump ev) = Some (os_version (order_state_of (V w) ?oid) + 1,
       Created (co_customer_id req) (co_customer_email req))"
    using factories_make(1) [OF w3(1)] w2(2,3) by (auto simp: makes_def)
  have nd: "\<not> dup_key (b_indexes (V w3)) (b_docs (V w3)) (stored ev)"
    using fresh_no_dup [of "V w" ev] assms(2,3) w3(3) ev by simp
  then obtain w4 where w4: "append_es M (model_dump ev) w3 = (Inr (), w4)" "live w4"
    using append_up [OF w3(2)] by blast
  then have v4: "V w4 = (V w)\<lparr>b_docs := b_docs (V w) @ [stored ev]\<rparr>"
    using ev(1) by (auto elim: append_cases)
  obtain w5 where w5: "publish_via P pub ev w4 = (Inr (), w5)" "live w5"
    using publish_up [OF w4(2) w3(4)] by blast
  obtain w6 where w6: "redis_setex R ?key 86400 ?oid w5 = (Inr (), w6)" "live w6"
    using setex_up [OF w5(2)] by blast
  have "b_docs (V w6) = b_docs (V w) @ [stored ev]"
    using setex_ok [OF w6(1)] w5(1) v4 by (auto elim!: publish_via_effect)
  then have "order_history (V w6) = (order_history (V w))(?oid := [(1, Created (co_customer_id req) (co_customer_email req))])"
    using order_history_snoc [OF assms(2) ev(3)] ev(2) w2(2)
      order_history_cong [of "V w6" "(V w)\<lparr>b_docs := b_docs (V w) @ [stored ev]\<rparr>"]
    by (auto simp: fun_eq_iff)
  then show ?thesis
    using w1 w2 w3(1) w4(1) w5(1) w6
    by (auto simp: create_order_eq create_fresh_def bindM_def io_simps)
qed

end

section \<open>The services in memory\<close>

definition mem_platform :: "mem platform" where
  "mem_platform =
     \<lparr>pf_settings = default_settings, pf_env = mem_env, pf_retry = retry_attempts,
      pf_dumps = (\<lambda>_. Inr ''{}'')\<rparr>"

abbreviation mem_pub :: "mem event_publisher" where
  "mem_pub \<equiv> \<lparr>pub_producer = mem_kafka, pub_redis = mem_redis\<rparr>"

interpretation mem_write: write_side mem_mongo mem_redis mem_kafka mem_state mem_platform
  by (intro write_side.intro)
    (simp_all add: mem_platform_def mem_mongo.mongo_laws_axioms mem_publisher.publisher_laws_axioms
      mem_env.env_laws_axioms mem_tenacity.tenacity_laws_axioms)

interpretation mem_up: write_side_up mem_mongo mem_redis mem_kafka mem_state mem_platform
    "\<lambda>w. mem_faults w = []"
proof unfold_locales
  fix w :: mem assume up: "mem_faults w = []"
  show "\<exists>ds w'. find_sorted mem_mongo f k asc cap w = (Inr ds, w') \<and> mem_faults w' = []" for f k asc cap
    using up by (simp add: mem_mongo_def mem_op_up)
  show "\<exists>w'. insert_one mem_mongo d w = (Inr (), w') \<and> mem_faults w' = []"
    if "\<not> dup_key (b_indexes (mem_state w)) (b_docs (mem_state w)) d" for d
    using up that by (simp add: mem_mongo_def mem_op_up)
  show "\<exists>c w'. redis_get mem_redis key w = (Inr c, w') \<and> mem_faults w' = []"
    "\<exists>b w'. redis_exists mem_redis key w = (Inr b, w') \<and> mem_faults w' = []"
    "\<exists>w'. redis_setex mem_redis key ttl v w = (Inr (), w') \<and> mem_faults w' = []" for key ttl v
    using up by (simp_all add: mem_redis_def mem_op_up)
  show "\<exists>w'. send_and_wait mem_kafka rec w = (Inr (), w') \<and> mem_faults w' = []" for rec
    using up by (simp add: mem_kafka_def mem_op_up)
  show "mem_faults (snd (uuid4 (pf_env mem_platform) w)) = [] \<and>
      fresh_id (fst (uuid4 (pf_env mem_platform) w)) (mem_state w)"
    using up mem_uuid4_fresh by (simp add: mem_platform_def fresh_id_def) (simp add: mem_env_def)
  show "mem_faults (snd (time_time (pf_env mem_platform) w)) = []"
    using up by (simp add: mem_platform_def mem_env_def)
qed (simp add: mem_platform_def)

definition sample_add :: command where
  "sample_add = AddItem ''o1''
     \<lparr>ai_product_id = ''p1'', ai_product_name = ''pen'', ai_quantity = 2, ai_unit_price = Fin 3\<rparr>"

lemma sample_add_target:
  "target sample_add = Some (''o1'', ItemAdded \<lparr>it_product_id = ''p1'', it_product_name = ''pen'',
     it_quantity = 2, it_unit_price = Fin 3, it_line_total = Fin 6\<rparr>)"
  by (simp add: sample_add_def request_item_def float_of_int_def)

lemma mem_one_history [simp]:
  "order_history (mem_state mem_one) a = (if a = ''o1'' then [(1, Created ''cust'' ''a@b'')] else [])"
  by (simp add: order_history_def agg_docs_def history_def matches_def dict_simps)

lemma mem_one_keys: "only_keys (mem_state mem_one)"
  by (simp add: only_keys_def mem_ready_eq idx_aggregate_time_def idx_event_type_def idx_event_expiry_def)

lemma sample_add_up:
  "\<exists>resp w'. exec_command mem_platform mem_mongo mem_pub mem_redis sample_add mem_one = (Inr resp, w') \<and>
     mem_faults w' = []"
  by (rule mem_up.command_up [OF _ mem_one_ok mem_one_keys sample_add_target])
    (simp_all add: order_apply_def sample_add_def float_of_int_def)

section \<open>Histories only grow\<close>

lemma store_step_history:
  assumes "store_step b b'" and "store_ok b"
  shows "prefix (order_history b a) (order_history b' a)"
proof (cases "b_docs b' = b_docs b")
  case True
  then show ?thesis using order_history_cong [of b' b a] by simp
next
  case False
  then obtain ev e where ev: "b_docs b' = b_docs b @ [stored ev]"
    "decode (model_dump ev) = Some (os_version (order_state_of b (ev_aggregate_id ev)) + 1, e)"
    using assms(1) by (auto simp: store_step_def)
  have "order_history b' a = order_history (b\<lparr>b_docs := b_docs b @ [stored ev]\<rparr>) a"
    using ev(1) by (intro order_history_cong) simp
  then show ?thesis
    using order_history_snoc [OF assms(2) ev(2) refl] by simp
qed

text \<open>Along a growing valid history the status of an order never goes back.\<close>

lemma grown_status_le:
  assumes "store_ok b" and "store_ok b'" and "prefix (order_history b a) (order_history b' a)"
  shows "os_status (order_state_of b a) \<le> os_status (order_state_of b' a)"
proof -
  obtain more where more: "order_history b' a = order_history b a @ more"
    using assms(3) by (auto simp: prefix_def)
  have valid: "valid_history (order_history b a)" "valid_from (order_state_of b a) more"
    using assms(1,2) more by (auto simp: store_ok_def valid_from_append dest: spec [of _ a])
  have "order_inv (order_state_of b a)"
    by (rule valid_history_inv [OF valid(1)])
  then show ?thesis
    using valid_from_status_le [OF valid(2)] more
    by (auto simp: order_run_append order_inv_def)
qed

lemma mem_one_events: "\<exists>w. get_events mem_mongo ''o1'' mem_one = (Inr [model_dump sample_first], w)"
proof -
  obtain ds w where run: "get_events mem_mongo ''o1'' mem_one = (Inr ds, w)"
    using mem_up.find_up [OF mem_one_state(5)] unfolding get_events_def by blast
  have "ds = [model_dump sample_first]"
    using mem_mongo.get_events_history(2) [OF run mem_one_ok]
    by (simp add: agg_docs_def matches_def dict_simps)
  with run show ?thesis by simp
qed

section \<open>Properties\<close>

text \<open>
  Whatever command is executed and whatever the services do (answer, fail, or take effect
  and then fail), the event store stays valid: the keys remain keys, every document denotes an
  event, and the events of every order form a history the business rules admit, with versions
  1, 2, 3 and so on; histories only ever grow, so no recorded event is lost or changed.
\<close>

theorem commands_keep_store_valid:
  assumes "write_side M R K V P" and "store_ok (V w)"
    and "exec_command P M \<lparr>pub_producer = K, pub_redis = R\<rparr> R cmd w = (r, w')"
  shows "store_ok (V w') \<and> (\<forall>a. prefix (order_history (V w) a) (order_history (V w') a))"
  using write_side.command_step [OF assms(1,3,2)] store_step_ok store_step_history assms(2) by blast

theorem commands_keep_store_valid_witness:
  "\<exists>r w'. exec_command mem_platform mem_mongo mem_pub mem_redis sample_add
      (mem_one\<lparr>mem_faults := [Up, Late]\<rparr>) = (r, w') \<and> store_ok (mem_state w')"
proof -
  obtain r w' where run: "exec_command mem_platform mem_mongo mem_pub mem_redis sample_add
      (mem_one\<lparr>mem_faults := [Up, Late]\<rparr>) = (r, w')"
    by (metis surj_pair)
  have "store_ok (mem_state (mem_one\<lparr>mem_faults := [Up, Late]\<rparr>))"
    using mem_one_ok by simp
  from commands_keep_store_valid [OF mem_write.write_side_axioms this run] run
  show ?thesis by blast
qed

text \<open>
  A command that answers with success was admitted by the business rules, and has recorded
  exactly one event: the one it is named after, under the next version of that order, with no
  other order touched; the answer carries its identifier and version, and the event was sent to
  the topic between one and three times.
\<close>

theorem accepted_command_recorded:
  assumes "write_side M R K V P" and "store_ok (V w)" and "target cmd = Some (oid, kind)"
    and "exec_command P M \<lparr>pub_producer = K, pub_redis = R\<rparr> R cmd w = (Inr resp, w')"
  shows "recorded P (V w) (V w') oid kind resp"
  by (rule write_side.command_recorded [OF assms(1,4,2,3)])

theorem accepted_command_recorded_witness:
  "\<exists>resp w' kind. exec_command mem_platform mem_mongo mem_pub mem_redis sample_add mem_one = (Inr resp, w') \<and>
     order_history (mem_state w') ''o1'' = [(1, Created ''cust'' ''a@b''), (2, ItemAdded kind)] \<and>
     cr_aggregate_version resp = 2"
proof -
  obtain resp w' where run:
    "exec_command mem_platform mem_mongo mem_pub mem_redis sample_add mem_one = (Inr resp, w')"
    using sample_add_up by blast
  from accepted_command_recorded [OF mem_write.write_side_axioms mem_one_ok sample_add_target run]
  show ?thesis using run by (auto simp: recorded_def)
qed

text \<open>
  A command that the business rules do not admit, or that addresses an order without
  events, raises and leaves every service exactly as it was.  The exception is 404 for an
  unknown order and the guard's \<open>ValueError\<close> otherwise, unless reading the order failed.
\<close>

theorem refused_command_changes_nothing:
  assumes "write_side M R K V P" and "store_ok (V w)" and "target cmd = Some (oid, kind)"
    and "order_history (V w) oid = [] \<or> \<not> admits (order_state_of (V w) oid) kind"
    and "exec_command P M \<lparr>pub_producer = K, pub_redis = R\<rparr> R cmd w = (r, w')"
  shows "V w' = V w \<and> (\<exists>e. r = Inl e \<and> refusal (V w) oid e)"
  by (rule write_side.command_refused [OF assms(1,5,2,3,4)])

theorem refused_command_changes_nothing_witness:
  "\<exists>e w'. exec_command mem_platform mem_mongo mem_pub mem_redis (ConfirmOrder ''o1'') mem_one = (Inl e, w') \<and>
     mem_state w' = mem_state mem_one \<and> refusal (mem_state mem_one) ''o1'' e"
proof -
  obtain r w' where run:
    "exec_command mem_platform mem_mongo mem_pub mem_redis (ConfirmOrder ''o1'') mem_one = (r, w')"
    by (metis surj_pair)
  have "\<not> admits (order_state_of (mem_state mem_one) ''o1'') Confirmed"
    by (simp add: order_apply_def)
  then show ?thesis
    using refused_command_changes_nothing [OF mem_write.write_side_axioms mem_one_ok _ _ run, of "''o1''" Confirmed]
      run by auto
qed

text \<open>
  C21. A command that the rules admit succeeds when the services answer: for every order with
  events, an admitted command whose integers orjson can serialise and whose payment is not
  declined returns a response; in particular the fresh event meets no version conflict.
\<close>

theorem admitted_command_succeeds:
  assumes "write_side_up M R K V P live" and "live w" and "store_ok (V w)" and "only_keys (V w)"
    and "target cmd = Some (oid, kind)" and "order_history (V w) oid \<noteq> []"
    and "admits (order_state_of (V w) oid) kind" and "servable cmd"
    and "length (order_history (V w) oid) < 2 ^ 63"
  shows "\<exists>resp w'. exec_command P M \<lparr>pub_producer = K, pub_redis = R\<rparr> R cmd w = (Inr resp, w') \<and>
    recorded P (V w) (V w') oid kind resp"
proof -
  have ver: "ints64 (PInt (os_version (order_state_of (V w) oid) + 1))"
    using assms(9) unfolding history_version [OF assms(3)] by (simp add: length_order_history)
  show ?thesis
    using write_side_up.command_up [OF assms(1,2,3,4,5,7,6,8) ver]
      write_side.command_recorded [OF write_side_up.axioms(1) [OF assms(1)] _ assms(3,5)] by blast
qed

theorem admitted_command_succeeds_witness:
  "\<exists>resp w'. exec_command mem_platform mem_mongo mem_pub mem_redis sample_add mem_one = (Inr resp, w') \<and>
     cr_aggregate_version resp = 2"
proof -
  have "\<exists>resp w'. exec_command mem_platform mem_mongo mem_pub mem_redis sample_add mem_one = (Inr resp, w') \<and>
     recorded mem_platform (mem_state mem_one) (mem_state w') ''o1'' (snd (the (target sample_add))) resp"
    by (rule admitted_command_succeeds [OF mem_up.write_side_up_axioms _ mem_one_ok mem_one_keys])
      (simp_all add: sample_add_target, simp_all add: order_apply_def sample_add_def float_of_int_def)
  then show ?thesis by (auto simp: recorded_def)
qed

text \<open>
  A payment that the gateway declines records nothing: for a payment id with the prefix
  \<open>fail_\<close> the handler raises and leaves every service as it was, and on a confirmed order the
  caller gets status 402 with the bank's reason, unless reading the order failed.
\<close>

theorem declined_payment_records_nothing:
  assumes "write_side M R K V P" and "store_ok (V w)"
    and "startswith (pp_payment_id req) ''fail_''"
    and "process_payment P M \<lparr>pub_producer = K, pub_redis = R\<rparr> oid req w = (r, w')"
  shows "V w' = V w \<and> (\<exists>e. r = Inl e) \<and>
    (os_status (order_state_of (V w) oid) = CONFIRMED \<longrightarrow> (\<exists>s. r = Inl (DriverError s)) \<or>
      r = Inl (HTTPException 402 [Lit ''Payment failed: '', Fmt (PStr ''Payment declined by bank'')]))"
  by (rule write_side.payment_declined [OF assms(1,4,2,3)])

theorem declined_payment_records_nothing_witness:
  "\<exists>e w'. process_payment mem_platform mem_mongo mem_pub ''o1''
      \<lparr>pp_payment_id = ''fail_7'', pp_amount = Fin 6, pp_method = ''card''\<rparr> mem_one = (Inl e, w') \<and>
    mem_state w' = mem_state mem_one"
proof -
  let ?req = "\<lparr>pp_payment_id = ''fail_7'', pp_amount = Fin 6, pp_method = ''card''\<rparr>"
  obtain r w' where run: "process_payment mem_platform mem_mongo mem_pub ''o1'' ?req mem_one = (r, w')"
    by (metis surj_pair)
  have "startswith (pp_payment_id ?req) ''fail_''"
    by (simp add: startswith_def)
  from declined_payment_records_nothing [OF mem_write.write_side_axioms mem_one_ok this run] run
  show ?thesis by blast
qed

text \<open>
  C22. Creating an order is idempotent: once a creation with some idempotency key has answered
  with an order, then as long as Redis keeps that key's entry, every further creation with the
  key leaves all services as they are and, when it answers, answers with that same order.
\<close>

theorem create_order_idempotent:
  assumes "write_side M R K V P" and "store_ok (V w)"
    and "create_order P M \<lparr>pub_producer = K, pub_redis = R\<rparr> R req w = (Inr resp, w1)"
    and "b_kv (V w2) (''idem:create:'' @ co_idempotency_key req) =
      b_kv (V w1) (''idem:create:'' @ co_idempotency_key req)"
    and "co_idempotency_key req' = co_idempotency_key req"
    and "create_order P M \<lparr>pub_producer = K, pub_redis = R\<rparr> R req' w2 = (r, w3)"
  shows "V w3 = V w2 \<and> (\<forall>resp'. r = Inr resp' \<longrightarrow> cr_aggregate_id resp' = cr_aggregate_id resp)"
proof -
  have "b_kv (V w2) (''idem:create:'' @ co_idempotency_key req') = Some (cr_aggregate_id resp)"
    "cr_aggregate_id resp \<noteq> []"
    using write_side.create_marks_key [OF assms(1,3,2)] assms(4,5) by auto
  from write_side.create_cached [OF assms(1,6) this] show ?thesis by blast
qed

definition sample_create :: create_order_request where
  "sample_create = \<lparr>co_customer_id = ''cust'', co_customer_email = ''a@b'', co_idempotency_key = ''k''\<rparr>"

lemma mem_ready_keys: "only_keys (mem_state mem_ready)"
  by (simp add: only_keys_def mem_ready_eq idx_aggregate_time_def idx_event_type_def idx_event_expiry_def)

theorem create_order_idempotent_witness:
  "\<exists>resp w1 r w3.
     create_order mem_platform mem_mongo mem_pub mem_redis sample_create mem_ready = (Inr resp, w1) \<and>
     create_order mem_platform mem_mongo mem_pub mem_redis sample_create w1 = (r, w3) \<and>
     mem_state w3 = mem_state w1"
proof -
  obtain resp w1 where 1:
    "create_order mem_platform mem_mongo mem_pub mem_redis sample_create mem_ready = (Inr resp, w1)"
    using mem_up.create_up [OF _ mem_ready_ok mem_ready_keys, of sample_create] by auto
  obtain r w3 where 2: "create_order mem_platform mem_mongo mem_pub mem_redis sample_create w1 = (r, w3)"
    by (metis surj_pair)
  from create_order_idempotent [OF mem_write.write_side_axioms mem_ready_ok 1 refl refl 2] 1 2
  show ?thesis by blast
qed

text \<open>
  Creating an order succeeds when the services answer and the idempotency key is new: the
  answer names an order that had no events, that order's history is now its creation with the
  customer of the request, under version 1, and no other order is touched.
\<close>

theorem create_order_succeeds:
  assumes "write_side_up M R K V P live" and "live w" and "store_ok (V w)" and "only_keys (V w)"
    and "b_kv (V w) (''idem:create:'' @ co_idempotency_key req) = None"
  shows "\<exists>resp w'. create_order P M \<lparr>pub_producer = K, pub_redis = R\<rparr> R req w = (Inr resp, w') \<and>
    order_history (V w) (cr_aggregate_id resp) = [] \<and>
    order_history (V w') = (order_history (V w))(cr_aggregate_id resp :=
      [(1, Created (co_customer_id req) (co_customer_email req))])"
  using write_side_up.create_up [OF assms] by blast

theorem create_order_succeeds_witness:
  "\<exists>resp w'. create_order mem_platform mem_mongo mem_pub mem_redis sample_create mem_ready = (Inr resp, w') \<and>
     order_history (mem_state w') (cr_aggregate_id resp) = [(1, Created ''cust'' ''a@b'')]"
  using create_order_succeeds [OF mem_up.write_side_up_axioms _ mem_ready_ok mem_ready_keys, of sample_create]
  by (auto simp: sample_create_def)

text \<open>
  Every aggregate a handler ever sees obeys the rules of the domain: it is never delivered;
  a confirmed, paid or shipped order has items; a paid or shipped one has a payment; exactly the
  shipped ones have a tracking number; and its total is the float sum of the line totals.
\<close>

theorem loaded_aggregate_sound:
  assumes "mongo_laws M V" and "store_ok (V w)" and "load_aggregate M oid w = (Inr agg, w')"
  shows "agg_status agg \<noteq> DELIVERED \<and> 1 \<le> agg_version agg \<and>
    (agg_status agg \<in> {CONFIRMED, PAID, SHIPPED} \<longrightarrow> agg_items agg \<noteq> []) \<and>
    (agg_status agg \<in> {PAID, SHIPPED} \<longrightarrow> agg_payment_id agg \<noteq> PNone) \<and>
    (agg_status agg = SHIPPED \<longleftrightarrow> agg_tracking_id agg \<noteq> PNone) \<and>
    (\<exists>lts. map (\<lambda>i. map_of i ''line_total'') (agg_items agg) = map (Some \<circ> PFloat) lts \<and>
       agg_total_amount agg = foldl fl_add (Fin 0) lts)"
proof -
  let ?s = "order_state_of (V w) oid"
  have agg: "agg = agg_of (PStr oid) ?s" "order_history (V w) oid \<noteq> []"
    using mongo_laws.load_cases [OF assms(1,3,2)] by (auto split: if_splits)
  have "valid_history (order_history (V w) oid)"
    using assms(2) by (simp add: store_ok_def)
  then have inv: "order_inv ?s" and ver: "os_version ?s = int (length (order_history (V w) oid))"
    by (auto intro: valid_history_inv dest: valid_from_run_version)
  have "1 \<le> os_version ?s"
    using agg(2) ver by (simp add: Suc_le_eq)
  moreover have "opt_str x = PNone \<longleftrightarrow> x = None" for x
    by (simp add: opt_str_def split: option.split)
  moreover have "\<exists>lts. map (\<lambda>i. map_of i ''line_total'') (agg_items agg) = map (Some \<circ> PFloat) lts \<and>
       agg_total_amount agg = foldl fl_add (Fin 0) lts"
    using inv by (intro exI [of _ "map it_line_total (os_items ?s)"])
      (simp add: agg(1) agg_of_def item_dict_def order_inv_def)
  ultimately show ?thesis
    using inv by (simp add: agg(1) agg_of_def order_inv_def)
qed

theorem loaded_aggregate_sound_witness:
  "\<exists>agg w'. load_aggregate mem_mongo ''o1'' mem_one = (Inr agg, w') \<and> 1 \<le> agg_version agg"
proof -
  obtain agg w' where run: "load_aggregate mem_mongo ''o1'' mem_one = (Inr agg, w')"
    using mem_up.load_up [OF _ mem_one_ok, of "''o1''"] by auto
  from loaded_aggregate_sound [OF mem_mongo.mongo_laws_axioms mem_one_ok run] run
  show ?thesis by blast
qed

text \<open>
  No command takes an order back in its life cycle, with the states ordered as they are
  declared (pending, confirmed, paid, shipped, delivered, cancelled).
\<close>

theorem commands_never_regress_status:
  assumes "write_side M R K V P" and "store_ok (V w)"
    and "exec_command P M \<lparr>pub_producer = K, pub_redis = R\<rparr> R cmd w = (r, w')"
  shows "os_status (order_state_of (V w) a) \<le> os_status (order_state_of (V w') a)"
  using write_side.command_step [OF assms(1,3,2)] store_step_ok store_step_history assms(2)
  by (blast intro: grown_status_le)

theorem commands_never_regress_status_witness:
  "\<exists>r w'. exec_command mem_platform mem_mongo mem_pub mem_redis sample_add mem_one = (r, w') \<and>
     os_status (order_state_of (mem_state mem_one) ''o1'') \<le> os_status (order_state_of (mem_state w') ''o1'')"
proof -
  obtain r w' where run: "exec_command mem_platform mem_mongo mem_pub mem_redis sample_add mem_one = (r, w')"
    by (metis surj_pair)
  from commands_never_regress_status [OF mem_write.write_side_axioms mem_one_ok run] run
  show ?thesis by blast
qed

text \<open>The first call stores the event, then loses all three attempts to publish it.\<close>

lemma create_unpublished:
  "\<exists>w1. create_order mem_platform mem_mongo mem_pub mem_redis sample_create
      (mem_ready\<lparr>mem_faults := [Up, Up, Lost, Lost, Lost]\<rparr>) = (Inl RetryError, w1) \<and>
    mem_faults w1 = [] \<and> b_topic (mem_state w1) = [] \<and> b_kv (mem_state w1) = Map.empty \<and>
    b_indexes (mem_state w1) = b_indexes (mem_state mem_ready) \<and>
    order_history (mem_state w1) ''u'' = [(1, Created ''cust'' ''a@b'')]"
proof -
  let ?w = "mem_ready\<lparr>mem_faults := [Up, Lost, Lost, Lost], mem_seed := 1\<rparr>"
  obtain ev w2 where mk: "order_created_event mem_env ''u'' ''cust'' ''a@b'' ?w = (Inr ev, w2)"
    and w2: "w2 = ?w\<lparr>mem_seed := mem_seed w2\<rparr>"
    by (simp add: order_created_event_def BaseEvent_def bindM_def io_simps mem_env_def)
  have ev: "ev_aggregate_id ev = ''u''" "decode (model_dump ev) = Some (1, Created ''cust'' ''a@b'')"
    using mem_env.factories_make(1) [OF mk] by (auto simp: mem_env.makes_def)
  let ?b = "(mem_state mem_ready)\<lparr>b_docs := [stored ev]\<rparr>"
  have app: "append_es mem_mongo (model_dump ev) w2 = (Inr (), w2\<lparr>mem_state := ?b, mem_faults := [Lost, Lost, Lost]\<rparr>)"
    by (subst (1 2) w2) (simp add: append_es_def mem_mongo_def mem_op_def tryM_def bindM_def
      liftM_def dict_simps stored_def dup_key_def)
  have pub: "publish default_settings (\<lambda>_. Inr ''{}'') retry_attempts mem_pub ev
      (w2\<lparr>mem_state := ?b, mem_faults := [Lost, Lost, Lost]\<rparr>) =
      (Inl RetryError, w2\<lparr>mem_state := ?b, mem_faults := []\<rparr>)"
    by (simp add: publish_def publish_attempt_def numeral_3_eq_3 tryM_def bindM_def raiseM_def
        mem_redis_def mem_op_def)
  have get: "redis_get mem_redis ''idem:create:k'' (mem_ready\<lparr>mem_faults := [Up, Up, Lost, Lost, Lost]\<rparr>) =
      (Inr None, mem_ready\<lparr>mem_faults := [Up, Lost, Lost, Lost]\<rparr>)"
    by (simp add: mem_redis_def mem_op_def)
  have u: "uuid4 mem_env (mem_ready\<lparr>mem_faults := [Up, Lost, Lost, Lost]\<rparr>) = (''u'', ?w)"
    by (simp add: mem_env_def id_size_def)
  have hist: "order_history ?b ''u'' = [(1, Created ''cust'' ''a@b'')]"
    using ev by (simp add: order_history_def agg_docs_def history_def matches_def dict_simps)
  have "create_order mem_platform mem_mongo mem_pub mem_redis sample_create
      (mem_ready\<lparr>mem_faults := [Up, Up, Lost, Lost, Lost]\<rparr>) =
      (Inl RetryError, w2\<lparr>mem_state := ?b, mem_faults := []\<rparr>)"
    using get u mk app pub
    by (simp add: create_order_eq create_fresh_def sample_create_def bindM_def effM_def mem_platform_def)
  then show ?thesis using hist by simp
qed

text \<open>
  C32. The store and the topic are two writes, and the idempotency entry is the third: when
  publishing fails after the event was stored, the client sees an error, the event is in the
  store but not in the topic, and repeating the request with the same idempotency key creates a
  second order.
\<close>

theorem create_retry_makes_second_order:
  "\<exists>w1 resp w2.
     create_order mem_platform mem_mongo mem_pub mem_redis sample_create
       (mem_ready\<lparr>mem_faults := [Up, Up, Lost, Lost, Lost]\<rparr>) = (Inl RetryError, w1) \<and>
     b_topic (mem_state w1) = [] \<and>
     create_order mem_platform mem_mongo mem_pub mem_redis sample_create w1 = (Inr resp, w2) \<and>
     cr_aggregate_id resp \<noteq> ''u'' \<and>
     order_history (mem_state w2) ''u'' = [(1, Created ''cust'' ''a@b'')] \<and>
     order_history (mem_state w2) (cr_aggregate_id resp) = [(1, Created ''cust'' ''a@b'')]"
proof -
  obtain w1 where w1: "create_order mem_platform mem_mongo mem_pub mem_redis sample_create
      (mem_ready\<lparr>mem_faults := [Up, Up, Lost, Lost, Lost]\<rparr>) = (Inl RetryError, w1)"
    "mem_faults w1 = []" "b_topic (mem_state w1) = []" "b_kv (mem_state w1) = Map.empty"
    "b_indexes (mem_state w1) = b_indexes (mem_state mem_ready)"
    "order_history (mem_state w1) ''u'' = [(1, Created ''cust'' ''a@b'')]"
    using create_unpublished by blast
  have ok: "store_ok (mem_state w1)"
    using store_step_ok [OF mem_write.create_step [OF w1(1)]] mem_ready_ok by simp
  have keys: "only_keys (mem_state w1)"
    using mem_ready_keys w1(5) by (simp add: only_keys_def)
  obtain resp w2 where w2:
    "create_order mem_platform mem_mongo mem_pub mem_redis sample_create w1 = (Inr resp, w2)"
    "order_history (mem_state w1) (cr_aggregate_id resp) = []"
    "order_history (mem_state w2) = (order_history (mem_state w1))(cr_aggregate_id resp :=
      [(1, Created (co_customer_id sample_create) (co_customer_email sample_create))])"
    using mem_up.create_up [OF w1(2) ok keys, of sample_create] w1(4) by auto
  have "cr_aggregate_id resp \<noteq> ''u''"
    using w1(6) w2(2) by auto
  then show ?thesis
    using w1 w2 by (simp add: sample_create_def)
qed

end
