(* ===== verification/Query_Side.thy ===== *)
theory Query_Side
  imports Query_Router Json_Codec Write_Side
begin

text \<open>
  What the query handlers guarantee: which rows a page of orders shows, what the statistics count,
  that the event history is the whole history, and that the cache stays coherent with the tables
  while the projection consumer runs.
\<close>

section \<open>Pages\<close>

definition wanted :: "string option \<Rightarrow> string option \<Rightarrow> order_row \<Rightarrow> bool" where
  "wanted status customer_id r \<longleftrightarrow>
     (\<forall>s. status = Some s \<and> s \<noteq> [] \<longrightarrow> or_status r = str_upper s) \<and>
     (\<forall>c. customer_id = Some c \<and> c \<noteq> [] \<longrightarrow> or_customer_id r = c)"

definition filter_ok :: "string option \<Rightarrow> bool" where
  "filter_ok s \<longleftrightarrow> (\<forall>x. s = Some x \<longrightarrow> text_ok x)"

text \<open>Newest first, rows without a creation time before all others.\<close>

definition not_older :: "order_row \<Rightarrow> order_row \<Rightarrow> bool" where
  "not_older a b \<longleftrightarrow> or_created_at a = None \<or>
     (or_created_at b \<noteq> None \<and> the (or_created_at b) \<le> the (or_created_at a))"

lemma upper_char_nonzero: "c \<noteq> CHR 0x00 \<Longrightarrow> upper_char c \<noteq> CHR 0x00"
proof (rule notI)
  assume "c \<noteq> CHR 0x00" and zero: "upper_char c = CHR 0x00"
  then have up: "97 \<le> (of_char c :: nat)" "(of_char c :: nat) \<le> 122"
    by (auto simp: upper_char_def Let_def split: if_splits)
  then have "of_char (upper_char c) = (of_char c :: nat) - 32"
    by (simp add: upper_char_def Let_def)
  then show False using up zero by simp
qed

lemma text_ok_upper: "text_ok s \<Longrightarrow> text_ok (str_upper s)"
proof (induction s)
  case (Cons c s)
  then have "c \<noteq> CHR 0x00" by (auto simp: text_ok_def)
  from upper_char_nonzero [OF this] Cons show ?case
    by (auto simp: text_ok_def str_upper_def)
qed (simp add: text_ok_def str_upper_def)

lemma newest_first_mset [simp]: "mset (newest_first rs) = mset rs"
  using multiset_partition [of "mset rs" "\<lambda>r. or_created_at r = None"] by (simp add: newest_first_def)

lemma newest_first_sorted: "sorted_wrt not_older (newest_first rs)"
proof -
  let ?some = "filter (\<lambda>r. or_created_at r \<noteq> None) rs" and ?key = "\<lambda>r. - the (or_created_at r)"
  have "sorted_wrt (\<lambda>a b. ?key a \<le> ?key b) (sort_key ?key ?some)"
    using sorted_sort_key [of ?key ?some] by (simp add: sorted_map)
  moreover have "\<forall>r \<in> set (sort_key ?key ?some). or_created_at r \<noteq> None" by simp
  ultimately have "sorted_wrt not_older (sort_key ?key ?some)"
    by (elim sorted_wrt_mono_rel [rotated]) (auto simp: not_older_def)
  moreover have "sorted_wrt not_older (filter (\<lambda>r. or_created_at r = None) rs)"
    by (induction rs) (auto simp: not_older_def)
  ultimately show ?thesis
    by (auto simp: newest_first_def sorted_wrt_append not_older_def)
qed

text \<open>The answers show these rows, one for one.\<close>

definition shows_page :: "pgdb \<Rightarrow> pydict list \<Rightarrow> order_row list \<Rightarrow> bool" where
  "shows_page db ds rs \<longleftrightarrow>
     list_all2 (\<lambda>d r. \<exists>its. mset its = mset (items_of db (or_order_id r)) \<and> shows_row d r its) ds rs"

context query_laws
begin

lemma select_wanted:
  assumes "filter_ok status" and "filter_ok customer_id"
    and "- (2 ^ 63) \<le> limit \<and> limit < 2 ^ 63" and "- (2 ^ 63) \<le> offset \<and> offset < 2 ^ 63"
    and "list_filter status customer_id = (conds, ps, n)"
  shows "select_orders (qe_pg_json Q) (qe_codec Q) (qe_enc_int8 Q) conds n (ps @ [PInt limit, PInt offset]) db =
    bindR (page (Some limit) (Some offset) (newest_first (filter (wanted status customer_id) (pg_orders db))))
      (\<lambda>rs. Inr (map (order_columns (qe_pg_json Q) db) rs))"
proof -
  have enc: "qe_enc_int8 Q (PInt limit) = Inr (Some limit)" "qe_enc_int8 Q (PInt offset) = Inr (Some offset)"
    using assms(3,4) int8_in by auto
  have st: "status = Some s \<Longrightarrow> enc_text (qe_codec Q) (PStr (str_upper s)) = Inr (Some (str_upper s))" for s
    using assms(1) by (auto simp: filter_ok_def intro: text_str text_ok_upper)
  have cu: "customer_id = Some c \<Longrightarrow> enc_text (qe_codec Q) (PStr c) = Inr (Some c)" for c
    using assms(2) by (auto simp: filter_ok_def intro: text_str)
  have eq: "(\<lambda>r. a = or_status r) = (\<lambda>r. or_status r = a)" "(\<lambda>r. a = or_customer_id r) = (\<lambda>r. or_customer_id r = a)" for a
    by auto
  consider (none) "status \<in> {None, Some []}" "customer_id \<in> {None, Some []}"
    | (status) a as where "status = Some (a # as)" "customer_id \<in> {None, Some []}"
    | (customer) b bs where "status \<in> {None, Some []}" "customer_id = Some (b # bs)"
    | (both) a as b bs where "status = Some (a # as)" "customer_id = Some (b # bs)"
    by (metis insertCI list.exhaust not_Some_eq)
  then show ?thesis
  proof cases
    case none
    then show ?thesis
      using assms(5) enc by (auto simp: list_filter_def select_orders_def param_def wanted_def [abs_def])
  next
    case status
    then show ?thesis
      using assms(5) enc st [OF status(1)]
      by (auto simp: list_filter_def select_orders_def param_def wanted_def [abs_def] eq)
  next
    case customer
    then show ?thesis
      using assms(5) enc cu [OF customer(2)]
      by (auto simp: list_filter_def select_orders_def param_def wanted_def [abs_def] eq)
  next
    case both
    then show ?thesis
      using assms(5) enc st [OF both(1)] cu [OF both(2)]
      by (auto simp: list_filter_def select_orders_def param_def wanted_def [abs_def] eq nth_append
          intro!: arg_cong [where f = "\<lambda>x. bindR (page (Some limit) (Some offset) (newest_first x)) _"])
  qed
qed

lemma views_of_rows:
  assumes "same_tables db db'" and "columns_ok db'" and "set rs \<subseteq> set (pg_orders db)"
  shows "\<exists>ds views. mapR (row_result (qe_loads Q)) (map (order_columns (qe_pg_json Q) db) rs) = Inr ds \<and>
    mapR OrderView ds = Inr views \<and> shows_page db' views rs"
proof -
  have ok: "\<forall>i \<in> set (items_of db oid). item_ok i" for oid
    using columns_ok_items [OF assms(2) same_tables_sets(3) [OF assms(1)]] .
  let ?d = "\<lambda>r. order_dict r (items_of db (or_order_id r))"
  have "mapR (row_result (qe_loads Q)) (map (order_columns (qe_pg_json Q) db) rs) = Inr (map ?d rs)"
    using row_result_columns [OF ok] by (auto simp: mapR_Inr_iff)
  moreover have "\<exists>views. mapR OrderView (map ?d rs) = Inr views \<and> shows_page db' views rs"
  proof (induction rs)
    case (Cons r rs)
    obtain d where "OrderView (?d r) = Inr d" "shows_row d r (items_of db (or_order_id r))"
      using OrderView_dict [OF ok] by blast
    then have "\<exists>its. mset its = mset (items_of db' (or_order_id r)) \<and> shows_row d r its"
      using same_tables_sets(3) [OF assms(1)] by blast
    with Cons \<open>OrderView (?d r) = Inr d\<close> show ?case by (auto simp: shows_page_def)
  qed (simp add: shows_page_def)
  ultimately show ?thesis by blast
qed

lemma list_orders_cases:
  assumes "list_orders Q status customer_id limit offset w = (q, w')" and "columns_ok (b_tables (V w))"
    and "filter_ok status" and "filter_ok customer_id"
    and "- (2 ^ 63) \<le> limit \<and> limit < 2 ^ 63" and "- (2 ^ 63) \<le> offset \<and> offset < 2 ^ 63"
  shows "V w' = V w \<and> (\<forall>views. q = Inr views \<longrightarrow> 0 \<le> limit \<and> 0 \<le> offset \<and>
    (\<exists>rows. mset rows = mset (filter (wanted status customer_id) (pg_orders (b_tables (V w)))) \<and>
       sorted_wrt not_older rows \<and> shows_page (b_tables (V w)) views (take (nat limit) (drop (nat offset) rows))))"
proof -
  let ?db = "b_tables (V w)"
  obtain conds ps n where lf: "list_filter status customer_id = (conds, ps, n)" by (metis prod_cases3)
  have "bindM (qe_fetch Q (select_orders (qe_pg_json Q) (qe_codec Q) (qe_enc_int8 Q) conds n (ps @ [PInt limit, PInt offset])))
      (\<lambda>rows. bindM (liftM (mapR (row_result (qe_loads Q)) rows)) (\<lambda>result. liftM (mapR OrderView result))) w = (q, w')"
    using assms(1) lf by (simp add: list_orders_def)
  then show ?thesis
  proof (cases rule: bindM_cases)
    case (raised e)
    then show ?thesis using fetch_err by auto
  next
    case (continued cols w1)
    obtain db where db: "V w1 = V w" "same_tables db ?db"
      "bindR (page (Some limit) (Some offset) (newest_first (filter (wanted status customer_id) (pg_orders db))))
        (\<lambda>rs. Inr (map (order_columns (qe_pg_json Q) db) rs)) = Inr cols"
      using fetch_ok [OF continued(1)] select_wanted [OF assms(3-6) lf] by auto
    let ?rows = "newest_first (filter (wanted status customer_id) (pg_orders db))"
    have pos: "0 \<le> limit" "0 \<le> offset"
      and cols: "cols = map (order_columns (qe_pg_json Q) db) (take (nat limit) (drop (nat offset) ?rows))"
      using db(3) by (auto simp: page_def Let_def split: if_splits)
    have "mset ?rows = mset (filter (wanted status customer_id) (pg_orders ?db))"
      using db(2) by (simp add: same_tables_def)
    moreover have "set (take (nat limit) (drop (nat offset) ?rows)) \<subseteq> set (pg_orders db)"
      by (auto dest!: in_set_takeD in_set_dropD simp: newest_first_def)
    note views_of_rows [OF db(2) assms(2) this]
    then have "V w' = V w \<and> (\<forall>views. q = Inr views \<longrightarrow>
        shows_page ?db views (take (nat limit) (drop (nat offset) ?rows)))"
      using continued(2) cols db(1) by (auto simp: bindM_liftM io_simps)
    ultimately show ?thesis
      using pos newest_first_sorted by blast
  qed
qed

lemma list_orders_up:
  assumes "query_up Q" and "columns_ok (b_tables (V w))" and "filter_ok status" and "filter_ok customer_id"
    and "0 \<le> limit \<and> limit < 2 ^ 63" and "0 \<le> offset \<and> offset < 2 ^ 63"
  shows "\<exists>views w'. list_orders Q status customer_id limit offset w = (Inr views, w')"
proof -
  obtain conds ps n where lf: "list_filter status customer_id = (conds, ps, n)" by (metis prod_cases3)
  let ?sel = "select_orders (qe_pg_json Q) (qe_codec Q) (qe_enc_int8 Q) conds n (ps @ [PInt limit, PInt offset])"
  have sel: "?sel db = Inr (map (order_columns (qe_pg_json Q) db)
      (take (nat limit) (drop (nat offset) (newest_first (filter (wanted status customer_id) (pg_orders db))))))" for db
    using select_wanted [OF assms(3,4) _ _ lf, of limit offset db] assms(5,6) by (simp add: page_def)
  then obtain rows w1 where f: "qe_fetch Q ?sel w = (Inr rows, w1)"
    using assms(1) unfolding query_up_def by blast
  obtain db where db: "same_tables db (b_tables (V w))" "?sel db = Inr rows"
    using fetch_ok [OF f] by auto
  have "set (take (nat limit) (drop (nat offset) (newest_first (filter (wanted status customer_id) (pg_orders db)))))
      \<subseteq> set (pg_orders db)"
    by (auto dest!: in_set_takeD in_set_dropD simp: newest_first_def)
  from views_of_rows [OF db(1) assms(2) this] f lf db(2) sel [of db] show ?thesis
    by (auto simp: list_orders_def bindM_def io_simps)
qed

end

section \<open>Statistics\<close>

definition revenue :: "pgdb \<Rightarrow> rat" where
  "revenue db = sum_list (map or_total_amount (filter (\<lambda>r. or_status r = ''PAID'') (pg_orders db)))"

text \<open>Every status in the table is one of the six.\<close>

definition statuses_ok :: "pgdb \<Rightarrow> bool" where
  "statuses_ok db \<longleftrightarrow> (\<forall>r \<in> set (pg_orders db). or_status r \<in> order_status_value ` UNIV)"

lemma same_tables_stats:
  assumes "same_tables db db'"
  shows "length (pg_orders db) = length (pg_orders db')" and "count_status s db = count_status s db'"
    and "revenue db = revenue db'"
proof -
  have m: "mset (pg_orders db) = mset (pg_orders db')" using assms by (simp add: same_tables_def)
  show "length (pg_orders db) = length (pg_orders db')" by (rule mset_eq_length [OF m])
  show "count_status s db = count_status s db'"
    using m unfolding count_status_def by (metis mset_eq_length mset_filter)
  have "sum_mset (image_mset or_total_amount (filter_mset (\<lambda>r. or_status r = ''PAID'') (mset (pg_orders x)))) = revenue x" for x
    by (simp add: revenue_def flip: mset_filter mset_map sum_mset_sum_list)
  then show "revenue db = revenue db'" using m by metis
qed

lemma count_partition:
  assumes "statuses_ok db"
  shows "int (length (pg_orders db)) = count_status ''PENDING'' db + count_status ''CONFIRMED'' db +
    count_status ''PAID'' db + count_status ''SHIPPED'' db + count_status ''DELIVERED'' db + count_status ''CANCELLED'' db"
proof -
  have "int (length rs) = (\<Sum>s \<leftarrow> [''PENDING'', ''CONFIRMED'', ''PAID'', ''SHIPPED'', ''DELIVERED'', ''CANCELLED''].
      int (length (filter (\<lambda>r. or_status r = s) rs)))"
    if "\<forall>r \<in> set rs. or_status r \<in> order_status_value ` UNIV" for rs
    using that
  proof (induction rs)
    case (Cons r rs)
    then obtain st where "or_status r = order_status_value st" by auto
    with Cons show ?case by (cases st) simp_all
  qed simp
  from this [of "pg_orders db"] show ?thesis
    using assms by (simp add: statuses_ok_def count_status_def)
qed

text \<open>The projection writes no other status.\<close>

lemma update_orders_statuses:
  assumes "update_orders oid f db = Inr db'" and "statuses_ok db"
    and "\<And>r r'. f r = Inr r' \<Longrightarrow> or_status r \<in> order_status_value ` UNIV \<Longrightarrow> or_status r' \<in> order_status_value ` UNIV"
  shows "statuses_ok db'"
proof -
  define g where "g r = (if oid = Some (or_order_id r) then projr (f r) else r)" for r
  have "or_status (g r) \<in> range order_status_value" if "r \<in> set (pg_orders db)" for r
    using that assms by (auto simp: g_def update_orders_Inr statuses_ok_def dest: assms(3))
  moreover have "pg_orders db' = map g (pg_orders db)"
    using assms(1) by (simp add: update_orders_Inr g_def [abs_def])
  ultimately show ?thesis by (simp add: statuses_ok_def)
qed

lemma status_in_range [simp]:
  "''PENDING'' \<in> range order_status_value" "''CONFIRMED'' \<in> range order_status_value"
  "''PAID'' \<in> range order_status_value" "''SHIPPED'' \<in> range order_status_value"
  "''DELIVERED'' \<in> range order_status_value" "''CANCELLED'' \<in> range order_status_value"
  by (metis order_status_value.simps rangeI)+

lemma set_status_statuses:
  "set_status oid s f v now db = Inr db' \<Longrightarrow> statuses_ok db \<Longrightarrow> s \<in> range order_status_value \<Longrightarrow> statuses_ok db'"
  unfolding set_status_def by (erule update_orders_statuses) (auto simp: bindR_Inr_iff)

lemma set_total_statuses: "set_total oid v now db = Inr db' \<Longrightarrow> statuses_ok db \<Longrightarrow> statuses_ok db'"
  unfolding set_total_def by (erule update_orders_statuses) (auto simp: bindR_Inr_iff)

lemma project_doc_statuses:
  assumes "project_doc A ev now db = Inr db'" and "statuses_ok db"
  shows "statuses_ok db'"
proof -
  obtain t a p v where "project_statements A t a p v now db = Inr db'"
    using assms(1) by (auto simp: project_doc_def bindR_Inr_iff)
  then show ?thesis
    using assms(2) unfolding project_statements_def
    by (auto simp: bindR_Inr_iff insert_order_Inr statuses_ok_def new_row_def split: if_splits
        dest!: upsert_item_orders dest: set_total_statuses [unfolded statuses_ok_def]
          set_status_statuses [unfolded statuses_ok_def])
qed

context query_laws
begin

lemma get_stats_cases:
  assumes "get_stats Q w = (q, w')"
  shows "V w' = V w \<and> (\<forall>d. q = Inr d \<longrightarrow> select_stats (b_tables (V w)) = Inr [d])"
  using assms unfolding get_stats_def
proof (cases rule: bindM_cases)
  case (raised e)
  then show ?thesis using fetch_err by auto
next
  case (continued rows w1)
  obtain db where db: "V w1 = V w" "same_tables db (b_tables (V w))" "select_stats db = Inr rows"
    using fetch_ok [OF continued(1)] by auto
  then have "select_stats (b_tables (V w)) = Inr rows"
    using same_tables_stats [OF db(2)] by (simp add: select_stats_def revenue_def)
  then show ?thesis
    using continued(2) db(1) by (cases rows) (auto simp: io_simps select_stats_def)
qed

end

section \<open>The event history\<close>

lemma field_Inr: "field d k f = Inr kv \<longleftrightarrow> (\<exists>v x. map_of d k = Some v \<and> f v = Inr x \<and> kv = (k, x))"
  by (auto simp: field_def bindR_Inr_iff split: option.splits)

lemma EventHistoryItem_decode:
  assumes "EventHistoryItem d = Inr it" and "decode d = Some ve"
  shows "decode it = Some ve"
proof -
  obtain v t p where d: "map_of d ''aggregate_version'' = Some (PInt v)" "map_of d ''event_type'' = Some (PStr t)"
    "map_of d ''payload'' = Some (PDict p)"
    using assms(2) by (auto simp: decode_def split: option.splits pyval.splits)
  have "map_of it ''aggregate_version'' = Some (PInt v)" "map_of it ''event_type'' = Some (PStr t)"
    "map_of it ''payload'' = Some (PDict p)"
    using assms(1) d by (auto simp: EventHistoryItem_def field_Inr bindR_Inr_iff)
  then show ?thesis using assms(2) d by (simp add: decode_def)
qed

context mongo_laws
begin

lemma events_cases:
  assumes "get_order_events M oid w = (q, w')" and "store_ok (V w)"
  shows "V w' = V w \<and> (\<forall>items. q = Inr items \<longrightarrow>
      order_history (V w) oid \<noteq> [] \<and> map decode items = map Some (order_history (V w) oid)) \<and>
    (order_history (V w) oid = [] \<longrightarrow> q = Inl (not_found oid) \<or> (\<exists>s. q = Inl (DriverError s)))"
  using assms(1) unfolding get_order_events_def
proof (cases rule: bindM_cases)
  case (raised e)
  then show ?thesis using find_err unfolding get_events_def by blast
next
  case (continued ds w1)
  have w1: "V w1 = V w" and ds: "ds = map strip_id (sort_key doc_version (agg_docs (V w) oid))"
    using get_events_history [OF continued(1) assms(2)] by auto
  have hist: "order_history (V w) oid = map (\<lambda>d. the (decode d)) ds"
    by (simp add: ds order_history_def history_def)
  have dec: "decode d = Some (the (decode d))" if "d \<in> set ds" for d
    using that assms(2) by (auto simp: ds store_ok_def wf_doc_def agg_docs_def)
  show ?thesis
  proof (cases "ds = []")
    case True
    then show ?thesis using continued(2) w1 hist by (auto simp: io_simps)
  next
    case False
    then have run: "mapR EventHistoryItem ds = q" "w' = w1" using continued(2) by (auto simp: io_simps)
    have "map decode items = map Some (order_history (V w) oid)" if ok: "mapR EventHistoryItem ds = Inr items" for items
    proof -
      have "EventHistoryItem d = Inr (projr (EventHistoryItem d))" if "d \<in> set ds" for d
        using ok that by (auto simp: mapR_Inr_iff)
      then have "decode (projr (EventHistoryItem d)) = Some (the (decode d))" if "d \<in> set ds" for d
        using that dec EventHistoryItem_decode by blast
      then show ?thesis using ok by (simp add: mapR_Inr_iff hist)
    qed
    then show ?thesis using run False w1 hist by auto
  qed
qed

end

section \<open>The cache and the consumer\<close>

lemma cached_for_rows:
  assumes "order_rows db oid = order_rows db' oid"
  shows "cached_for Q db oid s = cached_for Q db' oid s"
proof -
  have "filter (\<lambda>r. or_order_id r = oid) (pg_orders db) = filter (\<lambda>r. or_order_id r = oid) (pg_orders db')"
    and it: "items_of db oid = items_of db' oid"
    using assms by (simp_all add: order_rows_def items_of_def)
  from arg_cong [OF this(1), of set]
  have "r \<in> set (pg_orders db) \<and> or_order_id r = oid \<longleftrightarrow> r \<in> set (pg_orders db') \<and> or_order_id r = oid" for r
    by auto
  then show ?thesis unfolding cached_for_def it by blast
qed

text \<open>What an event of one order may do to the cache: only its own entry may be outdated.\<close>

definition coherent_but :: "'w query_env \<Rightarrow> string \<Rightarrow> backend \<Rightarrow> bool" where
  "coherent_but Q oid b \<longleftrightarrow>
     (\<forall>a s. a \<noteq> oid \<longrightarrow> b_kv b (cache_key a) = Some s \<longrightarrow> cached_for Q (b_tables b) a s)"

lemma coherent_but_cong:
  "b_tables b = b_tables b' \<Longrightarrow> (\<And>a. b_kv b (cache_key a) = b_kv b' (cache_key a)) \<Longrightarrow>
     coherent_but Q oid b = coherent_but Q oid b'"
  by (simp add: coherent_but_def)

context consumer_laws
begin

lemma project_coherent_but:
  assumes "project_to_postgres (ce_retry D) (ce_pool D) ev w = (r, w')" and "coherent_but Q oid (V w)"
    and "map_of ev ''aggregate_id'' = Some (PStr oid)" and "text_ok oid"
  shows "coherent_but Q oid (V w')"
proof (rule retry_attempts_inv [where P = "\<lambda>w. coherent_but Q oid (V w)"])
  show "retry_attempts 3 (project_attempt (ce_pool D) ev) w = (r, w')"
    using assms(1) by (simp add: project_to_postgres_def retry_documented)
  fix w r w' assume run: "project_attempt (ce_pool D) ev w = (r, w')" and inv: "coherent_but Q oid (V w)"
  from attempt_tx [OF run] show "coherent_but Q oid (V w')"
  proof (elim disjE exE conjE)
    fix now db assume db: "project_doc codec ev now (b_tables (V w)) = Inr db" "V w' = (V w)\<lparr>b_tables := db\<rparr>"
    have "order_rows db a = order_rows (b_tables (V w)) a" if "a \<noteq> oid" for a
      using db(1) assms(3) that text_str [OF assms(4)]
      by (auto simp: project_doc_def bindR_Inr_iff dict_simps intro!: project_statements_other)
    then have "cached_for Q db a s = cached_for Q (b_tables (V w)) a s" if "a \<noteq> oid" for a s
      using that by (intro cached_for_rows) simp
    then show ?thesis
      using inv db(2) by (auto simp: coherent_but_def)
  qed (use inv in simp)
qed (use assms(2) in simp)

lemma process_event_coherent:
  assumes "process_event D ev off w = (Inr (), w')" and "cache_coherent Q (V w)"
    and "map_of ev ''aggregate_id'' = Some (PStr oid)" and "text_ok oid"
  shows "cache_coherent Q (V w')"
proof -
  have oid: "dict_get ev ''aggregate_id'' (PStr ''unknown'') = PStr oid"
    using assms(3) by (simp add: dict_get_def)
  obtain w1 w2 w3 w4 w5 r where run:
    "ce_acquire D w = (Inr r, w1)" "project_to_postgres (ce_retry D) (ce_pool D) ev w1 = (Inr (), w2)"
    "invalidate_cache D (PStr oid) w2 = (Inr (), w3)"
    "(if truthy (dict_get ev ''event_id'' PNone)
      then redis_setex (ce_redis D) (''processed:'' @ ce_format D (dict_get ev ''event_id'' PNone)) 86400 ''1''
      else returnM ()) w3 = (Inr (), w4)"
    "(if dict_get ev ''event_type'' PNone \<in> {PStr (event_type_value ORDER_DELIVERED), PStr (event_type_value ORDER_CANCELLED)}
      then set_expiry_for_aggregate (ce_store D) (ce_env D) (PStr oid) 2592000 else returnM ()) w4 = (Inr (), w5)"
    "ce_commit D off w5 = (Inr (), w')"
    using assms(1) unfolding process_event_def Let_def oid
    by (auto elim!: bindM_InrE)
  have "coherent_but Q oid (V w1)"
    using assms(2) acquire_view [OF run(1)] by (simp add: coherent_but_def cache_coherent_def)
  then have two: "coherent_but Q oid (V w2)"
    by (rule project_coherent_but [OF run(2) _ assms(3,4)])
  have del: "V w3 = (V w2)\<lparr>b_kv := (b_kv (V w2))(cache_key oid := None)\<rparr>"
    using run(3) delete_ok by (simp add: invalidate_cache_def format_str cache_key_def)
  then have three: "cache_coherent Q (V w3)"
    using two by (auto simp: cache_coherent_def coherent_but_def)
  have "cache_key a \<noteq> ''processed:'' @ k" for a k
    by (simp add: cache_key_def)
  then have "b_tables (V w4) = b_tables (V w3) \<and> b_kv (V w4) (cache_key a) = b_kv (V w3) (cache_key a)" for a
    using run(4) by (auto simp: io_simps split: if_splits dest!: setex_ok)
  moreover have "b_tables (V w5) = b_tables (V w4) \<and> b_kv (V w5) = b_kv (V w4)"
    using run(5) expiry_frame by (auto simp: io_simps split: if_splits)
  ultimately show ?thesis
    using three commit_frame [OF run(6)] by (simp add: cache_coherent_def)
qed

lemma handle_coherent:
  assumes "handle_message D msg pos w = (Inr (), w')" and "cache_coherent Q (V w)" and "dlq_up D"
    and "ce_loads D (km_value msg) = Inr (PDict ev)"
    and "map_of ev ''aggregate_id'' = Some (PStr oid)" and "text_ok oid"
  shows "cache_coherent Q (V w') \<or> parked D ev (V w) (V w')"
  using assms(1)
proof (cases rule: handle_cases)
  case stopped
  then show ?thesis by simp
next
  case (skipped ev' w1)
  then show ?thesis using assms(2) commit_frame(1,4) [OF skipped(4)] by (simp add: cache_coherent_def)
next
  case (handled ev' w1)
  then show ?thesis using process_event_coherent [OF handled(4), of Q oid] assms by simp
next
  case (failed ev' w1 e w2)
  then show ?thesis
    using failed_event_effect [OF failed(5)] process_event_effect [OF failed(4)] assms(3,4) by (auto simp: parked_def)
qed

end

section \<open>The query side in memory\<close>

text \<open>A Redis client that never fails.\<close>

definition steady_redis :: "mem redis_client" where
  "steady_redis =
     \<lparr>redis_get = (\<lambda>k w. (Inr (b_kv (mem_state w) k), w)),
      redis_exists = (\<lambda>k w. (Inr (b_kv (mem_state w) k \<noteq> None), w)),
      redis_setex = (\<lambda>k ttl v. mem_do True (\<lambda>b. b\<lparr>b_kv := (b_kv b)(k \<mapsto> v)\<rparr>)),
      redis_delete = (\<lambda>k. mem_do True (\<lambda>b. b\<lparr>b_kv := (b_kv b)(k := None)\<rparr>))\<rparr>"

interpretation steady_redis: redis_laws steady_redis mem_state
  by unfold_locales (auto simp: steady_redis_def mem_do_def)

definition mem_query :: "bool \<Rightarrow> mem query_env" where
  "mem_query reliable =
     \<lparr>qe_settings = default_settings,
      qe_redis = (if reliable then steady_redis else mem_redis),
      qe_fetch = (\<lambda>f. if reliable then (\<lambda>w. (f (b_tables (mem_state w)), w)) else mem_op (\<lambda>b. (f (b_tables b), b))),
      qe_codec = mem_codec,
      qe_enc_int8 = (\<lambda>v. case v of PNone \<Rightarrow> Inr None
         | PInt i \<Rightarrow> if - (2 ^ 63) \<le> i \<and> i < 2 ^ 63 then Inr (Some i) else Inl (DriverError ''value out of int64 range'')
         | _ \<Rightarrow> Inl (DriverError ''an integer is required'')),
      qe_pg_json = (\<lambda>v. enc (json_floats v)), qe_loads = loads, qe_dumps = (\<lambda>v. Inr (enc (json_floats v)))\<rparr>"

interpretation mem_query: query_laws "mem_query reliable" mem_state for reliable
proof (intro query_laws.intro query_laws_axioms.intro)
  show "redis_laws (qe_redis (mem_query reliable)) mem_state"
    by (simp add: mem_query_def steady_redis.redis_laws_axioms mem_redis.redis_laws_axioms)
  show "codec_laws (qe_codec (mem_query reliable))"
    by (simp add: mem_query_def mem_codec.codec_laws_axioms)
  show "mem_state w' = mem_state w \<and> (\<exists>db. same_tables db (b_tables (mem_state w)) \<and> f db = Inr rows)"
    if "qe_fetch (mem_query reliable) f w = (Inr rows, w')" for f w rows w'
    using that by (auto simp: mem_query_def same_tables_def dest!: mem_op_Inr split: if_splits)
  show "mem_state w' = mem_state w" if "qe_fetch (mem_query reliable) f w = (Inl e, w')" for f w e w'
    using that by (auto simp: mem_query_def dest!: mem_op_Inl split: if_splits)
qed (auto simp: mem_query_def)

lemma mem_query_up: "query_up (mem_query True)"
  unfolding query_up_def by (auto simp: mem_query_def steady_redis_def mem_do_def)

lemma mem_row_ready:
  "cache_coherent (mem_query reliable) (mem_state mem_row)" "columns_ok (b_tables (mem_state mem_row))"
  "statuses_ok (b_tables (mem_state mem_row))" "text_ok ''o1''" "has_order (b_tables (mem_state mem_row)) ''o1''"
  by (simp_all add: mem_row_def mem_init_def cache_coherent_def columns_ok_def row_ok_def sample_row_def new_row_def int4_def
      finite_float_def fl_round_def statuses_ok_def text_ok_def has_order_def)

section \<open>Properties\<close>

text \<open>
  C16. An order is answered as it is in the read model: when the services answer and the cache is
  coherent, \<open>get_order\<close> returns the present row of the order with all its items, from the cache or
  from the tables, and 404 when there is no such row; the cache stays coherent and nothing but
  the cache changes.
\<close>

theorem get_order_answers_current_row:
  assumes "query_laws Q V" and "query_up Q" and "cache_coherent Q (V w)" and "columns_ok (b_tables (V w))"
    and "text_ok oid"
  shows "\<exists>q w'. get_order Q oid w = (q, w') \<and> cache_coherent Q (V w') \<and> (\<exists>kv. V w' = (V w)\<lparr>b_kv := kv\<rparr>) \<and>
    (if has_order (b_tables (V w)) oid then \<exists>content. q = Inr content \<and> answers (b_tables (V w)) oid content
     else q = Inl (not_found oid))"
proof -
  obtain q w' where run: "get_order Q oid w = (q, w')"
    "if has_order (b_tables (V w)) oid then \<exists>content. q = Inr content else q = Inl (not_found oid)"
    using query_laws.get_order_up [OF assms] by blast
  with query_laws.get_order_cases [OF assms(1) run(1) assms(3-5)] show ?thesis by (auto split: if_splits)
qed

theorem get_order_answers_current_row_witness:
  "\<exists>content w'. get_order (mem_query True) ''o1'' mem_row = (Inr content, w') \<and>
     answers (b_tables (mem_state mem_row)) ''o1'' content"
  using get_order_answers_current_row [OF mem_query.query_laws_axioms mem_query_up mem_row_ready(1,2,4)] mem_row_ready(5)
  by auto

text \<open>
  The cache never goes wrong on the query side: whatever Redis and PostgreSQL do, \<open>get_order\<close>
  keeps the cache coherent, and every order it answers is the present one.
\<close>

theorem get_order_keeps_cache_coherent:
  assumes "query_laws Q V" and "cache_coherent Q (V w)" and "columns_ok (b_tables (V w))" and "text_ok oid"
    and "get_order Q oid w = (q, w')"
  shows "cache_coherent Q (V w') \<and> b_tables (V w') = b_tables (V w) \<and>
    (\<forall>content. q = Inr content \<longrightarrow> answers (b_tables (V w)) oid content)"
  using query_laws.get_order_cases [OF assms(1,5,2-4)] by auto

theorem get_order_keeps_cache_coherent_witness:
  "\<exists>q w'. get_order (mem_query False) ''o1'' (mem_row\<lparr>mem_faults := [Up, Up, Late]\<rparr>) = (q, w') \<and>
     cache_coherent (mem_query False) (mem_state w')"
proof -
  let ?w = "mem_row\<lparr>mem_faults := [Up, Up, Late]\<rparr>"
  obtain q w' where run: "get_order (mem_query False) ''o1'' ?w = (q, w')" by (metis surj_pair)
  have "mem_state ?w = mem_state mem_row" by simp
  with get_order_keeps_cache_coherent [OF mem_query.query_laws_axioms _ _ mem_row_ready(4) run] mem_row_ready(1,2) run
  show ?thesis by metis
qed

text \<open>
  C20. A page of orders is what was asked for: with any combination of the two filters, \<open>list_orders\<close>
  returns the rows from \<open>offset\<close> on, at most \<open>limit\<close> of them, of the list of exactly the rows that
  match, newest first, each with its items; so the placeholders of the generated statement are
  numbered right.
\<close>

theorem list_orders_shows_page:
  assumes "query_laws Q V" and "query_up Q" and "columns_ok (b_tables (V w))"
    and "filter_ok status" and "filter_ok customer_id"
    and "0 \<le> limit \<and> limit < 2 ^ 63" and "0 \<le> offset \<and> offset < 2 ^ 63"
  shows "\<exists>views w' rows. list_orders Q status customer_id limit offset w = (Inr views, w') \<and> V w' = V w \<and>
    mset rows = mset (filter (wanted status customer_id) (pg_orders (b_tables (V w)))) \<and>
    sorted_wrt not_older rows \<and> shows_page (b_tables (V w)) views (take (nat limit) (drop (nat offset) rows))"
proof -
  obtain views w' where run: "list_orders Q status customer_id limit offset w = (Inr views, w')"
    using query_laws.list_orders_up [OF assms] by blast
  from query_laws.list_orders_cases [OF assms(1) run assms(3-5)] assms(6,7) run show ?thesis by auto
qed

theorem list_orders_shows_page_witness:
  "\<exists>view w'. list_orders (mem_query True) (Some ''pending'') (Some ''cust'') 20 0 mem_row = (Inr [view], w')"
proof -
  have "filter_ok (Some ''pending'')" "filter_ok (Some ''cust'')"
    by (simp_all add: filter_ok_def text_ok_def)
  from list_orders_shows_page [OF mem_query.query_laws_axioms mem_query_up mem_row_ready(2) this, of 20 0]
  obtain views w' rows where run: "list_orders (mem_query True) (Some ''pending'') (Some ''cust'') 20 0 mem_row = (Inr views, w')"
    "mset rows = mset (filter (wanted (Some ''pending'') (Some ''cust'')) (pg_orders (b_tables (mem_state mem_row))))"
    "shows_page (b_tables (mem_state mem_row)) views (take 20 rows)"
    by auto
  have "wanted (Some ''pending'') (Some ''cust'') sample_row"
    by (simp add: wanted_def sample_row_def new_row_def) code_simp
  then have "length views = 1"
    using run(2,3) by (auto simp: mem_row_def shows_page_def dest!: list_all2_lengthD)
  then show ?thesis using run(1) by (auto simp: length_Suc_conv)
qed

text \<open>
  The statistics count the read model: the answer holds the number of orders and the number in
  each status, which add up to the total whatever the consumer has projected, and the revenue is the
  sum over the orders that are PAID now.
\<close>

theorem stats_count_orders:
  assumes "query_laws Q V" and "statuses_ok (b_tables (V w))" and "get_stats Q w = (Inr d, w')"
  shows "\<exists>total pending confirmed paid shipped delivered cancelled.
    d = [(''total_orders'', PInt total), (''pending'', PInt pending), (''confirmed'', PInt confirmed),
         (''paid'', PInt paid), (''shipped'', PInt shipped), (''delivered'', PInt delivered),
         (''cancelled'', PInt cancelled), (''total_revenue'', PDecimal (revenue (b_tables (V w))))] \<and>
    total = int (length (pg_orders (b_tables (V w)))) \<and> paid = count_status ''PAID'' (b_tables (V w)) \<and>
    total = pending + confirmed + paid + shipped + delivered + cancelled \<and> V w' = V w"
  using query_laws.get_stats_cases [OF assms(1,3)] count_partition [OF assms(2)]
  by (auto simp: select_stats_def revenue_def)

theorem stats_count_orders_witness:
  "\<exists>d w'. get_stats (mem_query True) mem_row = (Inr d, w') \<and> map_of d ''total_orders'' = Some (PInt 1)"
proof -
  obtain d w' where run: "get_stats (mem_query True) mem_row = (Inr d, w')"
    by (simp add: get_stats_def mem_query_def select_stats_def bindM_def io_simps)
  from stats_count_orders [OF mem_query.query_laws_axioms mem_row_ready(3) run] run
  show ?thesis by (auto simp: mem_row_def)
qed



text \<open>
  C17. The consumer keeps the cache coherent: after it has handled an event without raising, every
  cache entry is the JSON of a present row -- the entry of the event's order is gone, the others
  belong to rows that did not change -- or the event is in the dead letter queue.
\<close>

theorem consumer_keeps_cache_coherent:
  assumes "consumer_laws D V" and "dlq_up D" and "ce_loads D (km_value msg) = Inr (PDict event)"
    and "map_of event ''aggregate_id'' = Some (PStr oid)" and "text_ok oid" and "cache_coherent Q (V w)"
    and "handle_message D msg pos w = (Inr (), w')"
  shows "cache_coherent Q (V w') \<or> parked D event (V w) (V w')"
  by (rule consumer_laws.handle_coherent [OF assms(1,7,6,2,3,4,5)])

lemmas mem_run_simps = handle_message_def mem_consumer_def process_event_def project_to_postgres_def project_attempt_def
  invalidate_cache_def mem_pool_def mem_redis_def mem_op_def bindM_def tryM_def io_simps numeral_3_eq_3 Let_def

theorem consumer_keeps_cache_coherent_witness:
  "\<exists>w'. handle_message (mem_consumer True (\<lambda>_. Inr (PDict (sample_confirmed 2)))) sample_msg sample_pos mem_row = (Inr (), w') \<and>
     cache_coherent (mem_query True) (mem_state w')"
proof -
  let ?D = "mem_consumer True (\<lambda>_. Inr (PDict (sample_confirmed 2)))"
  obtain w' where run: "handle_message ?D sample_msg sample_pos mem_row = (Inr (), w')" "b_dlq (mem_state w') = b_dlq (mem_state mem_row)"
    by (simp add: mem_run_simps mem_row_def mem_init_def sample_defs dict_simps dict_get_def model_dump_def mem_codec_def
        project_statements_def text_ok_def set_status_def update_orders_def sample_row_def not_null_def sample_msg_def)
  have "ce_loads ?D (km_value sample_msg) = Inr (PDict (sample_confirmed 2))"
    "map_of (sample_confirmed 2) ''aggregate_id'' = Some (PStr ''o1'')"
    by (simp_all add: mem_consumer_def sample_defs dict_simps)
  from consumer_keeps_cache_coherent [OF mem_consumer.consumer_laws_axioms mem_consumer_dlq_up this mem_row_ready(4,1) run(1)]
    run show ?thesis by (auto simp: parked_def)
qed


text \<open>
  Revenue counts orders only while they are PAID: shipping a paid order takes its amount out of
  \<open>total_revenue\<close>.
\<close>

theorem shipping_drops_revenue:
  "\<exists>db db'. db = \<lparr>pg_orders = [sample_row\<lparr>or_status := ''PAID'', or_total_amount := 15\<rparr>], pg_items = []\<rparr> \<and>
     project_doc mem_codec (sample_shipped 5) 0 db = Inr db' \<and>
     (\<exists>d. select_stats db = Inr [d] \<and> map_of d ''total_revenue'' = Some (PDecimal 15)) \<and>
     (\<exists>d. select_stats db' = Inr [d] \<and> map_of d ''total_revenue'' = Some (PDecimal 0))"
  by (simp add: project_doc_def project_statements_def sample_defs dict_simps mem_codec_def text_ok_def
      set_status_def update_orders_def sample_row_def new_row_def not_null_def select_stats_def)

end
