(* ===== verification/Pipeline.thy ===== *)
theory Pipeline
  imports Query_Side
begin

text \<open>
  The consumer when its services answer: every event that can be projected is projected, once, in
  the order of the topic, and none is parked.  Together with the query side this carries an order
  from the event store to the answer of a query.
\<close>

section \<open>A consumer whose services answer\<close>

locale consumer_up = consumer_laws D V
  for D :: "'w consumer_env" and V :: "'w \<Rightarrow> backend" +
  fixes live :: "'w \<Rightarrow> bool"
  assumes acquire_up: "live w \<Longrightarrow> \<exists>w'. ce_acquire D w = (Inr (), w') \<and> live w'"
    and tx_up: "live w \<Longrightarrow> (\<And>now. \<exists>db. f now (b_tables (V w)) = Inr db) \<Longrightarrow>
      \<exists>w'. pg_transaction (ce_pool D) f w = (Inr (), w') \<and> live w'"
    and exists_up: "live w \<Longrightarrow> \<exists>b w'. redis_exists (ce_redis D) key w = (Inr b, w') \<and> live w'"
    and delete_up: "live w \<Longrightarrow> \<exists>w'. redis_delete (ce_redis D) key w = (Inr (), w') \<and> live w'"
    and setex_up: "live w \<Longrightarrow> \<exists>w'. redis_setex (ce_redis D) key ttl v w = (Inr (), w') \<and> live w'"
    and update_up: "live w \<Longrightarrow> \<exists>w'. update_many_set (ce_store D) flt kv w = (Inr (), w') \<and> live w'"
    and utcnow_up: "live w \<Longrightarrow> live (snd (utcnow (ce_env D) w))"
    and commit_up: "live w \<Longrightarrow> \<exists>w'. ce_commit D n w = (Inr (), w') \<and> live w'"

definition processed_key :: "'w consumer_env \<Rightarrow> pydict \<Rightarrow> string" where
  "processed_key D ev = ''processed:'' @ ce_format D (dict_get ev ''event_id'' PNone)"

text \<open>The markers of one state, plus possibly one.\<close>

definition marks_only :: "'w consumer_env \<Rightarrow> pydict \<Rightarrow> backend \<Rightarrow> backend \<Rightarrow> bool" where
  "marks_only D ev b b' \<longleftrightarrow>
     (\<forall>e. processed_key D e \<in> dom (b_kv b') \<longrightarrow> processed_key D e \<in> dom (b_kv b) \<or> processed_key D e = processed_key D ev)"

context consumer_up
begin

lemma project_up:
  assumes "live w" and "\<And>now. \<exists>db. project_doc codec ev now (b_tables (V w)) = Inr db"
  shows "\<exists>w' now db. project_to_postgres (ce_retry D) (ce_pool D) ev w = (Inr (), w') \<and> live w' \<and>
    project_doc codec ev now (b_tables (V w)) = Inr db \<and> V w' = (V w)\<lparr>b_tables := db\<rparr>"
proof -
  obtain t a p v where f: "dict_item ev ''event_type'' = Inr t" "dict_item ev ''aggregate_id'' = Inr a"
    "dict_item ev ''payload'' = Inr p" "dict_item ev ''aggregate_version'' = Inr v"
    using assms(2) [of 0] by (auto simp: project_doc_def bindR_Inr_iff)
  have doc: "project_doc codec ev now db = project_statements codec t a p v now db" for now db
    using f by (simp add: project_doc_def)
  obtain w' where "pg_transaction (ce_pool D) (project_statements codec t a p v) w = (Inr (), w')" "live w'"
    using tx_up [OF assms(1), of "project_statements codec t a p v"] assms(2) unfolding doc by blast
  then have run: "project_attempt (ce_pool D) ev w = (Inr (), w')"
    using f by (simp add: project_attempt_def bindM_def liftM_def)
  then have "project_to_postgres (ce_retry D) (ce_pool D) ev w = (Inr (), w')"
    by (simp add: project_to_postgres_def retry_documented numeral_3_eq_3 tryM_def)
  with attempt_tx [OF run] \<open>live w'\<close> show ?thesis by auto
qed

lemma process_event_up:
  assumes "live w" and "\<And>now. \<exists>db. project_doc codec ev now (b_tables (V w)) = Inr db"
  shows "\<exists>w' now. process_event D ev off w = (Inr (), w') \<and> live w' \<and>
    project_doc codec ev now (b_tables (V w)) = Inr (b_tables (V w')) \<and> marks_only D ev (V w) (V w')"
proof -
  let ?id = "dict_get ev ''event_id'' PNone" and ?oid = "dict_get ev ''aggregate_id'' (PStr ''unknown'')"
  let ?terminal = "dict_get ev ''event_type'' PNone \<in> {PStr (event_type_value ORDER_DELIVERED), PStr (event_type_value ORDER_CANCELLED)}"
  obtain w1 where w1: "ce_acquire D w = (Inr (), w1)" "live w1" "V w1 = V w"
    using acquire_up [OF assms(1)] acquire_view by blast
  obtain w2 now db where w2: "project_to_postgres (ce_retry D) (ce_pool D) ev w1 = (Inr (), w2)" "live w2"
    "project_doc codec ev now (b_tables (V w)) = Inr db" "V w2 = (V w)\<lparr>b_tables := db\<rparr>"
    using project_up [OF w1(2), of ev] assms(2) w1(3) by auto
  obtain w3 where w3: "invalidate_cache D ?oid w2 = (Inr (), w3)" "live w3"
    using delete_up [OF w2(2)] unfolding invalidate_cache_def by blast
  obtain w4 where w4: "(if truthy ?id then redis_setex (ce_redis D) (''processed:'' @ ce_format D ?id) 86400 ''1''
      else returnM ()) w3 = (Inr (), w4)" "live w4"
  proof (cases "truthy ?id")
    case True
    obtain x where "redis_setex (ce_redis D) (''processed:'' @ ce_format D ?id) 86400 ''1'' w3 = (Inr (), x)" "live x"
      using setex_up [OF w3(2)] by blast
    then show thesis using that True by simp
  next
    case False
    then show thesis using that w3(2) by (simp add: io_simps)
  qed
  obtain w5 where w5: "(if ?terminal then set_expiry_for_aggregate (ce_store D) (ce_env D) ?oid 2592000
      else returnM ()) w4 = (Inr (), w5)" "live w5"
  proof (cases ?terminal)
    case True
    obtain x where "update_many_set (ce_store D) (''aggregate_id'', ?oid)
        (''expires_at'', PTime (fst (utcnow (ce_env D) w4) + of_int 2592000)) (snd (utcnow (ce_env D) w4)) = (Inr (), x)" "live x"
      using update_up [OF utcnow_up [OF w4(2)]] by blast
    then show thesis using that [of x] True by (simp add: set_expiry_for_aggregate_def bindM_def io_simps)
  next
    case False
    then show thesis using that w4(2) by (simp add: io_simps)
  qed
  obtain w6 where w6: "ce_commit D off w5 = (Inr (), w6)" "live w6"
    using commit_up [OF w5(2)] by blast
  have run: "process_event D ev off w = (Inr (), w6)"
    using w1(1) w2(1) w3(1) w4(1) w5(1) w6(1) by (simp add: process_event_def Let_def bindM_def)
  have four: "b_tables (V w4) = db \<and> (\<forall>k. k \<in> dom (b_kv (V w4)) \<longrightarrow> k \<in> dom (b_kv (V w)) \<or> k = processed_key D ev)"
    using w3(1) w4(1) w2(4) unfolding invalidate_cache_def processed_key_def
    by (auto simp: io_simps split: if_splits dest!: delete_ok setex_ok)
  have "b_tables (V w5) = b_tables (V w4) \<and> b_kv (V w5) = b_kv (V w4)"
    using w5(1) expiry_frame by (auto simp: io_simps split: if_splits)
  then have "b_tables (V w6) = db" "marks_only D ev (V w) (V w6)"
    using commit_frame [OF w6(1)] four by (auto simp: marks_only_def)
  then show ?thesis using run w6(2) w2(3) by blast
qed

lemma handle_up:
  assumes "live w" and "\<And>now. \<exists>db. project_doc codec ev now (b_tables (V w)) = Inr db"
    and "ce_loads D (km_value msg) = Inr (PDict ev)" and "processed_key D ev \<notin> dom (b_kv (V w))"
    and "map_of ev ''aggregate_id'' = Some (PStr oid)" and "text_ok oid" and "cache_coherent Q (V w)"
  shows "\<exists>w' now. handle_message D msg pos w = (Inr (), w') \<and> live w' \<and> cache_coherent Q (V w') \<and>
    project_doc codec ev now (b_tables (V w)) = Inr (b_tables (V w')) \<and> marks_only D ev (V w) (V w')"
proof -
  let ?id = "dict_get ev ''event_id'' PNone"
  obtain w1 where w1: "(if truthy ?id then redis_exists (ce_redis D) (processed_key D ev) else returnM False) w =
      (Inr False, w1)" "live w1" "V w1 = V w"
  proof (cases "truthy ?id")
    case True
    obtain b x where x: "redis_exists (ce_redis D) (processed_key D ev) w = (Inr b, x)" "live x"
      using exists_up [OF assms(1)] by blast
    with exists_ok [OF x(1)] assms(4) True that show thesis by auto
  next
    case False
    then show thesis using that assms(1) by (simp add: io_simps)
  qed
  obtain w' now where p: "process_event D ev pos w1 = (Inr (), w')" "live w'"
    "project_doc codec ev now (b_tables (V w)) = Inr (b_tables (V w'))" "marks_only D ev (V w) (V w')"
    using process_event_up [OF w1(2), of ev pos] assms(2) unfolding w1(3) by blast
  have "handle_message D msg pos w = (Inr (), w')"
    using assms(3) w1(1) p(1)
    by (auto simp: handle_message_def bindM_def io_simps Let_def tryM_def processed_key_def split: if_splits)
  moreover have "cache_coherent Q (V w')"
    using process_event_coherent [OF p(1) _ assms(5,6)] assms(7) w1(3) by simp
  ultimately show ?thesis using p by blast
qed

lemma consume_up:
  assumes "live w" and "cache_coherent Q (V w)" and "text_ok oid"
    and "\<And>m d. (m, d) \<in> set mds \<Longrightarrow> ce_loads D (km_value m) = Inr (PDict d) \<and>
      map_of d ''aggregate_id'' = Some (PStr oid) \<and> processed_key D d \<notin> dom (b_kv (V w))"
    and "distinct (map (\<lambda>md. processed_key D (snd md)) mds)"
    and "\<And>ts. length ts = length mds \<Longrightarrow> \<exists>db. project_docs codec (b_tables (V w)) (zip ts (map snd mds)) = Inr db"
  shows "\<exists>w' ts. consume D (map fst mds) pos w = (Inr (), w') \<and> live w' \<and> cache_coherent Q (V w') \<and>
    length ts = length mds \<and> project_docs codec (b_tables (V w)) (zip ts (map snd mds)) = Inr (b_tables (V w'))"
  using assms(1,2,4,5,6)
proof (induction mds arbitrary: w pos)
  case Nil
  then show ?case by (auto simp: io_simps project_docs_def)
next
  case (Cons md mds)
  obtain m d where md: "md = (m, d)" by (cases md)
  have first: "\<exists>db. project_doc codec d now (b_tables (V w)) = Inr db" for now
    using Cons.prems(5) [of "now # replicate (length mds) 0"] by (auto simp: md project_docs_def bindR_Inr_iff)
  obtain w1 now where w1: "handle_message D m (delivered m pos) w = (Inr (), w1)" "live w1" "cache_coherent Q (V w1)"
    "project_doc codec d now (b_tables (V w)) = Inr (b_tables (V w1))" "marks_only D d (V w) (V w1)"
    using handle_up [OF Cons.prems(1) first _ _ _ assms(3) Cons.prems(2), of m "delivered m pos"] Cons.prems(3) [of m d] by (auto simp: md)
  have "\<exists>w' ts. consume D (map fst mds) (delivered m pos) w1 = (Inr (), w') \<and> live w' \<and> cache_coherent Q (V w') \<and>
      length ts = length mds \<and> project_docs codec (b_tables (V w1)) (zip ts (map snd mds)) = Inr (b_tables (V w'))"
  proof (rule Cons.IH [OF w1(2,3)])
    show "distinct (map (\<lambda>md. processed_key D (snd md)) mds)" using Cons.prems(4) by simp
    show "ce_loads D (km_value m') = Inr (PDict d') \<and> map_of d' ''aggregate_id'' = Some (PStr oid) \<and>
        processed_key D d' \<notin> dom (b_kv (V w1))" if "(m', d') \<in> set mds" for m' d'
      using that Cons.prems(3) [of m' d'] Cons.prems(4) w1(5) by (fastforce simp: md marks_only_def image_iff)
    show "\<exists>db. project_docs codec (b_tables (V w1)) (zip ts (map snd mds)) = Inr db" if "length ts = length mds" for ts
      using Cons.prems(5) [of "now # ts"] that w1(4) by (auto simp: md project_docs_def)
  qed
  then obtain w' ts where "consume D (map fst mds) (delivered m pos) w1 = (Inr (), w')" "live w'" "cache_coherent Q (V w')"
    "length ts = length mds" "project_docs codec (b_tables (V w1)) (zip ts (map snd mds)) = Inr (b_tables (V w'))"
    by blast
  then show ?case
    using w1(1,4) by (intro exI [of _ w'] exI [of _ "now # ts"]) (simp add: md bindM_def project_docs_def)
qed

end

section \<open>The pipeline in memory\<close>

interpretation mem_consumer_up: consumer_up "mem_consumer reliable loads" mem_state "\<lambda>w. mem_faults w = []"
  for reliable loads
proof (intro consumer_up.intro consumer_up_axioms.intro)
  show "consumer_laws (mem_consumer reliable loads) mem_state" by (rule mem_consumer.consumer_laws_axioms)
  show "\<exists>w'. pg_transaction (ce_pool (mem_consumer reliable loads)) f w = (Inr (), w') \<and> mem_faults w' = []"
    if "mem_faults w = []" "\<And>now. \<exists>db. f now (b_tables (mem_state w)) = Inr db" for w f
    using that(1) that(2) [of 0] by (auto simp: mem_consumer_def mem_pool_def mem_op_up)
qed (auto simp: mem_consumer_def mem_redis_def mem_mongo_def mem_env_def mem_op_up io_simps)

end
