(* ===== verification/Application.thy ===== *)
theory Application
  imports Write_Side
begin

text \<open>
  The application (\<open>api/main.py\<close>, \<open>dependencies.py\<close>): the lifespan that connects the clients, sets up
  the indexes and makes sure the bucket exists, the state it leaves for the handlers, and the
  dependencies that hand it out.  The constructors and the closing calls of the client libraries are
  the record \<open>app_libs\<close>.
\<close>

section \<open>Startup and shutdown\<close>

record ('w, 'p, 'c) app_libs =
  al_settings :: settings
  al_producer_start :: "string \<Rightarrow> ('w, 'w kafka_producer) io"
  al_from_url :: "string \<Rightarrow> 'w redis_client"
  al_create_pool :: "string \<Rightarrow> nat \<Rightarrow> nat \<Rightarrow> ('w, 'p) io"
  al_mongo :: "string \<Rightarrow> 'w mongo_collection"
  al_list_buckets :: "('w, string list) io"
  al_create_bucket :: "string \<Rightarrow> ('w, unit) io"
  al_producer_stop :: "('w, unit) io"
  al_redis_close :: "('w, unit) io"
  al_pool_close :: "'p \<Rightarrow> ('w, unit) io"
  al_mongo_close :: "('w, unit) io"
  al_acquire :: "'p \<Rightarrow> ('w, 'c) io"
  al_release :: "'c \<Rightarrow> ('w, unit) io"

record ('w, 'p) app_state =
  st_producer :: "'w kafka_producer"
  st_redis :: "'w redis_client"
  st_pg_pool :: 'p
  st_event_store :: "'w mongo_collection"
  st_publisher :: "'w event_publisher"

text \<open>\<open>s.replace(p, "")\<close>\<close>

fun str_remove :: "string \<Rightarrow> string \<Rightarrow> string" where
  "str_remove p [] = []"
| "str_remove p (c # s) =
     (if p \<noteq> [] \<and> prefix p (c # s) then str_remove p (drop (length p - 1) s) else c # str_remove p s)"

definition s3_setup :: "('w, 'p, 'c) app_libs \<Rightarrow> ('w, unit) io" where
  "s3_setup L =
     tryM
       (bindM (al_list_buckets L) (\<lambda>existing.
        if s3_bucket (al_settings L) \<notin> set existing
        then al_create_bucket L (s3_bucket (al_settings L))
        else returnM ()))
       (\<lambda>e. returnM ())"

definition lifespan_startup :: "('w, 'p, 'c) app_libs \<Rightarrow> ('w, ('w, 'p) app_state) io" where
  "lifespan_startup L =
     bindM (al_producer_start L (redpanda_brokers (al_settings L))) (\<lambda>producer.
     let redis = al_from_url L (redis_url (al_settings L)) in
     bindM (al_create_pool L (str_remove ''+asyncpg'' (postgres_dsn (al_settings L))) 2 10) (\<lambda>pg_pool.
     let event_store = al_mongo L (mongo_uri (al_settings L)) in
     bindM (setup_indexes event_store) (\<lambda>_.
     bindM (s3_setup L) (\<lambda>_.
     returnM \<lparr>st_producer = producer, st_redis = redis, st_pg_pool = pg_pool, st_event_store = event_store,
              st_publisher = \<lparr>pub_producer = producer, pub_redis = redis\<rparr>\<rparr>))))"

definition lifespan_shutdown :: "('w, 'p, 'c) app_libs \<Rightarrow> ('w, 'p) app_state \<Rightarrow> ('w, unit) io" where
  "lifespan_shutdown L app =
     bindM (al_producer_stop L) (\<lambda>_.
     bindM (al_redis_close L) (\<lambda>_.
     bindM (al_pool_close L (st_pg_pool app)) (\<lambda>_.
     al_mongo_close L)))"

text \<open>The context manager around the time the application serves requests.\<close>

definition lifespan ::
    "('w, 'p, 'c) app_libs \<Rightarrow> (('w, 'p) app_state \<Rightarrow> ('w, unit) io) \<Rightarrow> ('w, unit) io" where
  "lifespan L serve =
     bindM (lifespan_startup L) (\<lambda>app.
     bindM (serve app) (\<lambda>_.
     lifespan_shutdown L app))"

definition health :: pydict where
  "health = [(''status'', PStr ''ok''), (''service'', PStr ''event-sourcing-cqrs'')]"

section \<open>Dependencies\<close>

definition get_redis :: "('w, 'p) app_state \<Rightarrow> 'w redis_client" where
  "get_redis app = st_redis app"

definition get_event_store :: "('w, 'p) app_state \<Rightarrow> 'w mongo_collection" where
  "get_event_store app = st_event_store app"

definition get_publisher :: "('w, 'p) app_state \<Rightarrow> 'w event_publisher" where
  "get_publisher app = st_publisher app"

text \<open>The connection is released whether the handler returns or raises.\<close>

definition get_postgres ::
    "('w, 'p, 'c) app_libs \<Rightarrow> ('w, 'p) app_state \<Rightarrow> ('c \<Rightarrow> ('w, 'a) io) \<Rightarrow> ('w, 'a) io" where
  "get_postgres L app handler =
     bindM (al_acquire L (st_pg_pool app)) (\<lambda>conn.
     bindM (tryM (handler conn) (\<lambda>e. bindM (al_release L conn) (\<lambda>_. raiseM e))) (\<lambda>x.
     bindM (al_release L conn) (\<lambda>_. returnM x)))"

text \<open>
  Requests that the application serves one after the other: the handlers get their dependencies from
  the state, and an exception becomes the response of that request only.
\<close>

fun serve_commands :: "'w platform \<Rightarrow> ('w, 'p) app_state \<Rightarrow> command list \<Rightarrow> ('w, unit) io" where
  "serve_commands P app [] = returnM ()"
| "serve_commands P app (cmd # cmds) =
     bindM (tryM (bindM (exec_command P (get_event_store app) (get_publisher app) (get_redis app) cmd) (\<lambda>_. returnM ()))
       (\<lambda>e. returnM ())) (\<lambda>_.
     serve_commands P app cmds)"

section \<open>Laws\<close>

text \<open>Connecting, closing and looking at buckets leave the data alone.\<close>

locale app_laws = mongo_laws "al_mongo L (mongo_uri (al_settings L))" V
  for L :: "('w, 'p, 'c) app_libs" and V :: "'w \<Rightarrow> backend" +
  assumes start_view: "al_producer_start L url w = (r1, w') \<Longrightarrow> V w' = V w"
    and pool_view: "al_create_pool L dsn m n w = (r2, w') \<Longrightarrow> V w' = V w"
    and list_view: "al_list_buckets L w = (r3, w') \<Longrightarrow> V w' = V w"
    and create_view: "al_create_bucket L name w = (r4, w') \<Longrightarrow> V w' = V w"
    and close_view: "al_producer_stop L w = (r4, w') \<Longrightarrow> V w' = V w"
      "al_redis_close L w = (r4, w') \<Longrightarrow> V w' = V w" "al_pool_close L p w = (r4, w') \<Longrightarrow> V w' = V w"
      "al_mongo_close L w = (r4, w') \<Longrightarrow> V w' = V w"
begin

lemma s3_setup_view: "s3_setup L w = (r, w') \<Longrightarrow> r = Inr () \<and> V w' = V w"
  unfolding s3_setup_def
  by (auto elim!: tryM_cases bindM_cases simp: io_simps split: if_splits dest!: list_view create_view)

lemma startup_cases:
  assumes "lifespan_startup L w = (Inr app, w')"
  obtains w1 w2 where "V w1 = V w" and "setup_indexes (st_event_store app) w1 = (Inr (), w2)" and "V w' = V w2"
    and "st_publisher app = \<lparr>pub_producer = st_producer app, pub_redis = st_redis app\<rparr>"
    and "st_event_store app = al_mongo L (mongo_uri (al_settings L))"
  using assms unfolding lifespan_startup_def Let_def
  by (auto elim!: bindM_InrE simp: io_simps dest!: start_view pool_view s3_setup_view)

lemma startup_store_ok:
  assumes "lifespan_startup L w = (Inr app, w')" and "\<forall>d \<in> set (b_docs (V w)). wf_doc d"
    and "\<forall>a. valid_history (order_history (V w) a)"
  shows "store_ok (V w')" and "order_history (V w') = order_history (V w)"
proof -
  obtain w1 w2 where run: "V w1 = V w" "setup_indexes (al_mongo L (mongo_uri (al_settings L))) w1 = (Inr (), w2)"
    "V w' = V w2"
    using startup_cases [OF assms(1)] by metis
  from setup_indexes_view [OF run(2)] have "store_keys (V w')" "b_docs (V w') = b_docs (V w)"
    using run by auto
  then show "store_ok (V w')" "order_history (V w') = order_history (V w)"
    using assms(2,3) by (auto simp: store_ok_def order_history_def agg_docs_def fun_eq_iff)
qed

lemma shutdown_view: "lifespan_shutdown L app w = (r, w') \<Longrightarrow> V w' = V w"
  unfolding lifespan_shutdown_def by (auto elim!: bindM_cases dest!: close_view)

end

lemma serve_commands_step:
  assumes "serve_commands P app cmds w = (r, w')"
    and "write_side (st_event_store app) (st_redis app) (st_producer app) V P"
    and "st_publisher app = \<lparr>pub_producer = st_producer app, pub_redis = st_redis app\<rparr>" and "store_ok (V w)"
  shows "r = Inr () \<and> store_ok (V w') \<and> (\<forall>a. prefix (order_history (V w) a) (order_history (V w') a))"
  using assms(1,4)
proof (induction cmds arbitrary: w)
  case Nil
  then show ?case by (simp add: io_simps)
next
  case (Cons cmd cmds)
  let ?es = "st_event_store app" and ?pb = "\<lparr>pub_producer = st_producer app, pub_redis = st_redis app\<rparr>"
  obtain q w1 where run: "exec_command P ?es ?pb (st_redis app) cmd w = (q, w1)" by (metis surj_pair)
  have "serve_commands P app cmds w1 = (r, w')"
    using Cons.prems(1) run assms(3)
    by (cases q) (auto simp: get_event_store_def get_publisher_def get_redis_def bindM_def tryM_def io_simps)
  moreover have "store_ok (V w1) \<and> (\<forall>a. prefix (order_history (V w) a) (order_history (V w1) a))"
    using write_side.command_step [OF assms(2) run Cons.prems(2)] store_step_ok store_step_history Cons.prems(2) by blast
  ultimately show ?case using Cons.IH prefix_order.trans by blast
qed

lemma serve_commands_returns: "\<exists>w'. serve_commands P app cmds w = (Inr (), w')"
proof (induction cmds arbitrary: w)
  case (Cons cmd cmds)
  obtain q w1 where run: "exec_command P (get_event_store app) (get_publisher app) (get_redis app) cmd w = (q, w1)"
    by (metis surj_pair)
  from Cons.IH [of w1] run show ?case by (cases q) (simp_all add: bindM_def tryM_def io_simps)
qed (simp add: io_simps)

section \<open>The application in memory\<close>

definition mem_app :: "(mem, unit, unit) app_libs" where
  "mem_app =
     \<lparr>al_settings = default_settings, al_producer_start = (\<lambda>_. returnM mem_kafka), al_from_url = (\<lambda>_. mem_redis),
      al_create_pool = (\<lambda>_ _ _. returnM ()), al_mongo = (\<lambda>_. mem_mongo),
      al_list_buckets = mem_op (\<lambda>b. (Inr [], b)), al_create_bucket = (\<lambda>_. mem_op (\<lambda>b. (Inr (), b))),
      al_producer_stop = returnM (), al_redis_close = returnM (), al_pool_close = (\<lambda>_. returnM ()),
      al_mongo_close = returnM (), al_acquire = (\<lambda>_. returnM ()), al_release = (\<lambda>_. returnM ())\<rparr>"

lemma mem_op_view: "mem_op (\<lambda>b. (r, b)) w = (q, w') \<Longrightarrow> mem_state w' = mem_state w"
  by (auto simp: mem_op_def Let_def split: list.splits fault.splits sum.splits)

interpretation mem_app: app_laws mem_app mem_state
  by (intro app_laws.intro app_laws_axioms.intro)
    (auto simp: mem_app_def mem_mongo.mongo_laws_axioms io_simps dest!: mem_op_view)

section \<open>Properties\<close>

text \<open>
  C10. The application keeps the event store valid from startup to shutdown: on a database whose
  documents form valid histories -- an empty one, or that of an earlier run, with or without its
  indexes -- when the lifespan has started, served any sequence of commands and shut down, the
  keys of the store are keys, every order's events form a valid history, and each history extends
  the one before.
\<close>

theorem application_keeps_store_valid:
  assumes "app_laws L V" and "\<forall>d \<in> set (b_docs (V w)). wf_doc d" and "\<forall>a. valid_history (order_history (V w) a)"
    and "\<forall>app w1. lifespan_startup L w = (Inr app, w1) \<longrightarrow>
      write_side (st_event_store app) (st_redis app) (st_producer app) V P"
    and "lifespan L (\<lambda>app. serve_commands P app cmds) w = (Inr (), w')"
  shows "store_ok (V w') \<and> (\<forall>a. prefix (order_history (V w) a) (order_history (V w') a))"
proof -
  obtain app w1 w2 where run: "lifespan_startup L w = (Inr app, w1)" "serve_commands P app cmds w1 = (Inr (), w2)"
    "lifespan_shutdown L app w2 = (Inr (), w')"
    using assms(5) unfolding lifespan_def by (auto elim!: bindM_InrE)
  note start = app_laws.startup_store_ok [OF assms(1) run(1) assms(2,3)]
  have "st_publisher app = \<lparr>pub_producer = st_producer app, pub_redis = st_redis app\<rparr>"
    using app_laws.startup_cases [OF assms(1) run(1)] by blast
  from serve_commands_step [OF run(2) assms(4) [rule_format, OF run(1)] this start(1)] app_laws.shutdown_view [OF assms(1) run(3)]
  show ?thesis by (simp add: start(2))
qed

theorem application_keeps_store_valid_witness:
  "\<exists>w'. lifespan mem_app (\<lambda>app. serve_commands mem_platform app [CreateOrder sample_create, sample_add]) mem_init = (Inr (), w') \<and>
     store_ok (mem_state w')"
proof -
  have parts: "st_event_store app = mem_mongo \<and> st_redis app = mem_redis \<and> st_producer app = mem_kafka"
    if "lifespan_startup mem_app mem_init = (Inr app, w1)" for app w1
    using that by (auto simp: lifespan_startup_def mem_app_def Let_def io_simps elim!: bindM_InrE)
  obtain app w1 where start: "lifespan_startup mem_app mem_init = (Inr app, w1)"
    using setup_indexes_mem by (auto simp: lifespan_startup_def mem_app_def s3_setup_def bindM_def tryM_def io_simps
        mem_op_def Let_def split: list.splits fault.splits)
  obtain w' where run: "lifespan mem_app (\<lambda>app. serve_commands mem_platform app [CreateOrder sample_create, sample_add]) mem_init =
      (Inr (), w')"
    using start serve_commands_returns [of mem_platform app "[CreateOrder sample_create, sample_add]" w1]
    by (auto simp: lifespan_def bindM_def lifespan_shutdown_def mem_app_def io_simps simp del: serve_commands.simps)
  have docs: "\<forall>d \<in> set (b_docs (mem_state mem_init)). wf_doc d" "\<forall>a. valid_history (order_history (mem_state mem_init) a)"
    by (simp_all add: mem_init_def order_history_def agg_docs_def history_def)
  have "\<forall>app w1. lifespan_startup mem_app mem_init = (Inr app, w1) \<longrightarrow>
      write_side (st_event_store app) (st_redis app) (st_producer app) mem_state mem_platform"
    using parts mem_write.write_side_axioms by auto
  from application_keeps_store_valid [OF mem_app.app_laws_axioms docs this run] run
  show ?thesis by blast
qed

end
