(* ===== verification/Consumer_Process.thy ===== *)
theory Consumer_Process
  imports Consumer Application
begin

text \<open>
  The consumer as a process (\<open>consume\<close> of \<open>consumers/main.py\<close> from its first line to its last): it connects its
  clients, works on the messages that Kafka delivers from the committed offsets on, and closes the
  clients when the loop ends, which it only does by an exception or a cancellation.  Whoever supervises
  the process starts it again.
\<close>

section \<open>The process\<close>

text \<open>
  The constructors and closing calls of the client libraries; \<open>wk_base\<close> has what the loop uses besides
  the connections (JSON, tenacity, SQS, the clock, and committing).
\<close>

record ('w, 'p) worker_libs =
  wk_settings :: settings
  wk_base :: "'w consumer_env"
  wk_create_pool :: "string \<Rightarrow> nat \<Rightarrow> nat \<Rightarrow> ('w, 'p) io"
  wk_acquire :: "'p \<Rightarrow> ('w, unit) io"
  wk_connection :: "'p \<Rightarrow> 'w pg_pool"
  wk_from_url :: "string \<Rightarrow> 'w redis_client"
  wk_mongo :: "string \<Rightarrow> 'w mongo_collection"
  wk_start :: "string \<Rightarrow> string \<Rightarrow> string \<Rightarrow> nat \<Rightarrow> ('w, unit) io"
  wk_stop :: "('w, unit) io"
  wk_pool_close :: "'p \<Rightarrow> ('w, unit) io"
  wk_redis_close :: "('w, unit) io"
  wk_mongo_close :: "('w, unit) io"

definition worker_env :: "('w, 'p) worker_libs \<Rightarrow> 'p \<Rightarrow> 'w consumer_env" where
  "worker_env L pg_pool = (wk_base L)
     \<lparr>ce_settings := wk_settings L, ce_acquire := wk_acquire L pg_pool, ce_pool := wk_connection L pg_pool,
      ce_redis := wk_from_url L (redis_url (wk_settings L)), ce_store := wk_mongo L (mongo_uri (wk_settings L))\<rparr>"

definition close_worker :: "('w, 'p) worker_libs \<Rightarrow> 'p \<Rightarrow> ('w, unit) io" where
  "close_worker L pg_pool =
     bindM (wk_stop L) (\<lambda>_.
     bindM (wk_pool_close L pg_pool) (\<lambda>_.
     bindM (wk_redis_close L) (\<lambda>_.
     wk_mongo_close L)))"

text \<open>The pool is created before the consumer is started, and starting is outside the \<open>try\<close>.\<close>

definition consumer_process :: "('w, 'p) worker_libs \<Rightarrow> kafka_msg list \<Rightarrow> positions \<Rightarrow> ('w, unit) io" where
  "consumer_process L msgs pos =
     bindM (wk_create_pool L (str_remove ''+asyncpg'' (postgres_dsn (wk_settings L))) 2 5) (\<lambda>pg_pool.
     bindM (wk_start L (kafka_topic_orders (wk_settings L)) (redpanda_brokers (wk_settings L))
              (kafka_consumer_group (wk_settings L)) 50) (\<lambda>_.
     finallyM (consume (worker_env L pg_pool) msgs pos) (close_worker L pg_pool)))"

text \<open>
  What Kafka delivers: of the partitions that a run polls, in whatever order, always the next message at
  or after the position.
\<close>

fun deliver :: "kafka_msg list \<Rightarrow> positions \<Rightarrow> nat list \<Rightarrow> kafka_msg list" where
  "deliver topic pos [] = []"
| "deliver topic pos (p # ps) =
     (case find (\<lambda>m. km_partition m = p \<and> pos p \<le> km_offset m) topic of
        None \<Rightarrow> deliver topic pos ps
      | Some m \<Rightarrow> m # deliver topic (delivered m pos) ps)"

text \<open>
  The life of the consumer over a log: every run starts at the committed offsets, and ends after the
  partitions that it polled.
\<close>

abbreviation worker_offset :: "('w, 'p) worker_libs \<Rightarrow> backend \<Rightarrow> positions" where
  "worker_offset L b \<equiv> b_offsets b (kafka_consumer_group (wk_settings L))"

abbreviation consumer_run :: "('w \<Rightarrow> backend) \<Rightarrow> ('w, 'p) worker_libs \<Rightarrow> kafka_msg list \<Rightarrow> nat list \<Rightarrow> ('w, unit) io" where
  "consumer_run V L topic ps w \<equiv>
     consumer_process L (deliver topic (worker_offset L (V w)) ps) (worker_offset L (V w)) w"

fun restarts :: "('w \<Rightarrow> backend) \<Rightarrow> ('w, 'p) worker_libs \<Rightarrow> kafka_msg list \<Rightarrow> nat list list \<Rightarrow> 'w \<Rightarrow> 'w" where
  "restarts V L topic [] w = w"
| "restarts V L topic (ps # pss) w = restarts V L topic pss (snd (consumer_run V L topic ps w))"

text \<open>The next message of a partition is the first one that is not below the position.\<close>

lemma find_next:
  assumes "in_order topic" and "find (\<lambda>m. km_partition m = p \<and> n \<le> km_offset m) topic = Some x"
    and "m \<in> set topic" and "km_partition m = p" and "n \<le> km_offset m"
  shows "x \<in> set topic \<and> km_partition x = p \<and> n \<le> km_offset x \<and> (m = x \<or> km_offset x < km_offset m)"
  using assms by (induction topic) (auto split: if_splits)

lemma find_next_in:
  assumes "find (\<lambda>m. km_partition m = p \<and> n \<le> km_offset m) topic = Some x"
  shows "x \<in> set topic \<and> km_partition x = p \<and> n \<le> km_offset x"
  using assms by (auto simp: find_Some_iff)

section \<open>Laws\<close>

text \<open>Connecting and closing leave the data alone.\<close>

locale worker_laws =
  fixes L :: "('w, 'p) worker_libs" and V :: "'w \<Rightarrow> backend"
  assumes consumer: "consumer_laws (worker_env L p) V"
    and create_pool_view: "wk_create_pool L dsn m n w = (q, w') \<Longrightarrow> V w' = V w"
    and start_view: "wk_start L t b g n w = (r, w') \<Longrightarrow> V w' = V w"
    and stop_view: "wk_stop L w = (r, w') \<Longrightarrow> V w' = V w"
    and closed_view: "wk_pool_close L p w = (r, w') \<Longrightarrow> V w' = V w"
      "wk_redis_close L w = (r, w') \<Longrightarrow> V w' = V w" "wk_mongo_close L w = (r, w') \<Longrightarrow> V w' = V w"

section \<open>What one message leaves behind\<close>

text \<open>The event is marked as processed, or is in the dead letter queue.\<close>

definition accounted :: "'w consumer_env \<Rightarrow> pydict \<Rightarrow> backend \<Rightarrow> bool" where
  "accounted D ev b \<longleftrightarrow> marked D ev b \<or>
     (\<exists>m \<in> set (b_dlq b). \<exists>err. ce_dumps D (dlq_body ev err) = Inr (sm_body m))"

definition identified :: "pydict \<Rightarrow> bool" where
  "identified ev \<longleftrightarrow> (\<exists>s. map_of ev ''event_id'' = Some (PStr s) \<and> s \<noteq> [])"

lemma identified_truthy: "identified ev \<Longrightarrow> truthy (dict_get ev ''event_id'' PNone)"
  by (auto simp: identified_def dict_get_def)

text \<open>The prefixes of the cache and of the markers differ.\<close>

lemma processed_not_order: "''processed:'' @ x \<noteq> ''order:'' @ y"
  by simp

lemma consumer_keeps_dlq: "consumer_keeps D ev' (\<lambda>b. \<exists>m \<in> set (b_dlq b). P m)"
  by (auto simp: consumer_keeps_def stamp_docs_def)

lemma marked_cong: "b_kv b' = b_kv b \<Longrightarrow> marked D ev b' = marked D ev b"
  by (simp add: marked_def)

context consumer_laws
begin

text \<open>What every step of processing an event keeps, processing keeps.\<close>

lemma process_frame:
  assumes "\<And>b db. I b \<Longrightarrow> I (b\<lparr>b_tables := db\<rparr>)" and "\<And>b ds. I b \<Longrightarrow> I (b\<lparr>b_docs := ds\<rparr>)"
    and "\<And>b x. I b \<Longrightarrow> I (b\<lparr>b_kv := (b_kv b)(''order:'' @ x := None)\<rparr>)"
    and "\<And>b k v. I b \<Longrightarrow> I (b\<lparr>b_kv := (b_kv b)(k \<mapsto> v)\<rparr>)"
    and "\<And>b. I b \<Longrightarrow> I (b\<lparr>b_offsets := (b_offsets b)(kafka_consumer_group (ce_settings D) := off)\<rparr>)"
  shows "keepsM (\<lambda>w. I (V w)) (process_event D ev off)"
proof -
  have "keepsM (\<lambda>w. I (V w)) (project_attempt (ce_pool D) ev)"
    by (rule keepsMI) (auto dest!: attempt_tx intro: assms)
  moreover have "keepsM (\<lambda>w. I (V w)) (redis_delete (ce_redis D) (''order:'' @ x))" for x
    by (rule keepsMI, case_tac r) (auto dest!: delete_ok delete_err intro: assms(3) [simplified])
  moreover have "keepsM (\<lambda>w. I (V w)) (redis_setex (ce_redis D) k n v)" for k n v
    by (rule keepsMI, case_tac r) (auto dest!: setex_ok setex_err intro: assms)
  moreover have "keepsM (\<lambda>w. I (V w)) (update_many_set (ce_store D) f kv)" for f kv
    by (rule keepsMI, case_tac r) (auto dest!: update_ok update_err intro: assms)
  moreover have "keepsM (\<lambda>w. I (V w)) (ce_commit D off)"
    by (rule keepsMI, case_tac r) (auto dest!: commit_ok commit_err intro: assms)
  ultimately show ?thesis
    unfolding process_event_def Let_def project_to_postgres_def invalidate_cache_def retry_documented [abs_def]
      set_expiry_for_aggregate_def
    by (intro keeps_intros keepsM_effM acquire_keeps) (auto simp: utcnow_view)
qed

lemma process_keeps_marked: "keepsM (\<lambda>w. marked D ev (V w)) (process_event D ev' off)"
  by (rule process_frame) (auto simp: marked_def)

lemma process_event_offset:
  assumes "process_event D ev off w = (r, w')"
  shows "group_offset D (V w') \<in> {group_offset D (V w), off}"
  by (rule keepsMD [OF process_frame assms]) auto

lemma commit_offset: "ce_commit D n w = (r, w') \<Longrightarrow> group_offset D (V w') \<in> {group_offset D (V w), n}"
  by (cases r) (auto dest!: commit_ok commit_err)

lemma dlq_offset:
  assumes "send_to_dlq D ev err w = (r, w')"
  shows "group_offset D (V w') = group_offset D (V w)"
proof -
  have "keepsM (\<lambda>w. group_offset D (V w) = n) (send_to_dlq D ev err)" for n
    unfolding send_to_dlq_def
    by (intro keeps_intros, rule keepsMI, case_tac r) (auto dest!: send_message_ok send_message_err)
  from keepsMD [OF this assms] show ?thesis by blast
qed

lemma dlq_keeps_marked: "keepsM (\<lambda>w. marked D ev (V w)) (send_to_dlq D ev' err)"
  unfolding send_to_dlq_def
  by (intro keeps_intros, rule keepsMI, case_tac r) (auto dest!: send_message_ok send_message_err simp: marked_def)

lemma handle_keeps_accounted: "keepsM (\<lambda>w. accounted D ev (V w)) (handle_message D msg pos)"
proof -
  have "keepsM (\<lambda>w. marked D ev (V w)) (ce_commit D n)" for n
    by (rule keepsMI) (auto dest!: commit_frame(4) simp: marked_def)
  then have "keepsM (\<lambda>w. marked D ev (V w)) (handle_message D msg pos)"
    unfolding handle_message_def Let_def
    by (intro keepsM_liftM_bind, rename_tac v, case_tac v)
      (auto intro!: keeps_intros exists_keeps [of "marked D ev"] process_keeps_marked dlq_keeps_marked)
  moreover have "keepsM (\<lambda>w. \<exists>m \<in> set (b_dlq (V w)). \<exists>err. ce_dumps D (dlq_body ev err) = Inr (sm_body m)) (handle_message D msg pos)"
    by (rule handle_keeps [OF consumer_keeps_dlq])
  ultimately show ?thesis unfolding keepsM_def accounted_def by blast
qed

text \<open>An event that was processed has its marker.\<close>

lemma process_event_marks:
  assumes "process_event D ev off w = (Inr (), w')" and "identified ev"
  shows "marked D ev (V w')"
proof -
  let ?id = "dict_get ev ''event_id'' PNone"
  obtain w3 w4 w5 where run: "redis_setex (ce_redis D) (''processed:'' @ ce_format D ?id) 86400 ''1'' w3 = (Inr (), w4)"
    "(if dict_get ev ''event_type'' PNone \<in> {PStr (event_type_value ORDER_DELIVERED), PStr (event_type_value ORDER_CANCELLED)}
      then set_expiry_for_aggregate (ce_store D) (ce_env D) (dict_get ev ''aggregate_id'' (PStr ''unknown'')) 2592000
      else returnM ()) w4 = (Inr (), w5)" "ce_commit D off w5 = (Inr (), w')"
    using assms(1) identified_truthy [OF assms(2)] unfolding process_event_def Let_def by (auto elim!: bindM_InrE)
  have "marked D ev (V w4)"
    using setex_ok [OF run(1)] identified_truthy [OF assms(2)] by (auto simp: marked_def)
  moreover have "b_kv (V w5) = b_kv (V w4)"
    using run(2) expiry_frame by (auto simp: io_simps split: if_splits)
  ultimately show ?thesis using commit_frame(4) [OF run(3)] by (simp add: marked_def)
qed

lemma parked_accounted: "parked D ev b b' \<Longrightarrow> accounted D ev b'"
  by (auto simp: parked_def accounted_def)

lemma failed_accounts:
  assumes "bindM (send_to_dlq D ev err) (\<lambda>_. ce_commit D n) w = (r, w')" and "dlq_up D"
  shows "accounted D ev (V w') \<and> group_offset D (V w') \<in> {group_offset D (V w), n}"
  using assms(1)
proof (cases rule: bindM_cases)
  case (raised e)
  then show ?thesis using dlq_effect [OF raised(1)] by simp
next
  case (continued u w1)
  then show ?thesis
    using dlq_offset [OF continued(1)] commit_offset [OF continued(2)] parked_accounted
      failed_event_effect [OF assms(1)] assms(2) by auto
qed

lemma handle_accounts:
  assumes "handle_message D msg pos w = (r, w')" and "dlq_up D"
  shows "group_offset D (V w') = group_offset D (V w) \<and> r \<noteq> Inr () \<or>
    group_offset D (V w') = pos \<and>
      (\<exists>ev. ce_loads D (km_value msg) = Inr (PDict ev) \<and> (identified ev \<longrightarrow> accounted D ev (V w')))"
  using assms(1)
proof (cases rule: handle_cases)
  case stopped
  then show ?thesis by simp
next
  case (skipped ev w1)
  then have "accounted D ev (V w')" using commit_frame(4) [OF skipped(4)] by (simp add: accounted_def marked_def)
  then show ?thesis
    using skipped(1,2) commit_offset [OF skipped(4)] commit_frame(6) [OF skipped(4)] by auto
next
  case (handled ev w1)
  then show ?thesis
    using process_event_effect [OF handled(4)] process_event_marks [OF handled(4)] by (auto simp: accounted_def)
next
  case (failed ev w1 e w2)
  then show ?thesis
    using failed_accounts [OF failed(5) assms(2)] process_event_offset [OF failed(4)] failed_event_effect [OF failed(5)] by auto
qed

lemma handle_offset:
  assumes "handle_message D msg pos w = (r, w')"
  shows "group_offset D (V w') \<in> {group_offset D (V w), pos}"
  using assms
proof (cases rule: handle_cases)
  case (skipped ev w1)
  then show ?thesis using commit_offset [OF skipped(4)] by simp
next
  case (handled ev w1)
  then show ?thesis using process_event_offset [OF handled(4)] by simp
next
  case (failed ev w1 e w2)
  have "group_offset D (V w2) \<in> {group_offset D (V w), pos}"
    using process_event_offset [OF failed(4)] failed(2) by simp
  with failed(5) show ?thesis by (cases rule: bindM_cases) (auto dest!: dlq_offset commit_offset)
qed simp

end

text \<open>A message is settled: it is an event, and if it has an id it is accounted for.\<close>

definition message_settled :: "'w consumer_env \<Rightarrow> backend \<Rightarrow> kafka_msg \<Rightarrow> bool" where
  "message_settled D b m \<longleftrightarrow> (\<exists>ev. ce_loads D (km_value m) = Inr (PDict ev) \<and> (identified ev \<longrightarrow> accounted D ev b))"

context consumer_laws
begin

lemma consume_keeps_settled: "keepsM (\<lambda>w. message_settled D (V w) m) (consume D msgs pos)"
proof -
  have "keepsM (\<lambda>w. accounted D ev (V w)) (consume D msgs pos)" for ev
    by (induction msgs arbitrary: pos) (auto intro!: keeps_intros handle_keeps_accounted)
  then show ?thesis unfolding keepsM_def message_settled_def by blast
qed

text \<open>When the messages below the committed offsets are settled, they still are after a run.\<close>

lemma consume_settles:
  assumes "consume D (deliver topic pos ps) pos w = (r, w')" and "dlq_up D" and "in_order topic"
    and "group_offset D (V w) = pos"
    and "\<forall>m \<in> set topic. km_offset m < pos (km_partition m) \<longrightarrow> message_settled D (V w) m"
  shows "\<forall>m \<in> set topic. km_offset m < group_offset D (V w') (km_partition m) \<longrightarrow> message_settled D (V w') m"
  using assms(1,4,5)
proof (induction ps arbitrary: pos w)
  case Nil
  then show ?case by (simp add: io_simps)
next
  case (Cons p ps)
  show ?case
  proof (cases "find (\<lambda>m. km_partition m = p \<and> pos p \<le> km_offset m) topic")
    case None
    then show ?thesis using Cons by simp
  next
    case (Some msg)
    let ?pos = "delivered msg pos"
    obtain q w1 where q: "handle_message D msg ?pos w = (q, w1)" by (metis surj_pair)
    have one: "consume D [msg] pos w = (q, w1)" using q by (cases q) (auto simp: bindM_def io_simps)
    have new: "km_offset m < ?pos (km_partition m) \<Longrightarrow> m = msg \<or> km_offset m < pos (km_partition m)" if "m \<in> set topic" for m
      using find_next [OF assms(3) Some that] find_next_in [OF Some] by (auto simp: delivered_def split: if_splits)
    have kept: "message_settled D (V w1) m" if "m \<in> set topic" "km_offset m < pos (km_partition m)" for m
      using keepsMD [OF consume_keeps_settled one] Cons.prems(3) that by blast
    have done1: "group_offset D (V w1) = pos \<and> q \<noteq> Inr () \<or> group_offset D (V w1) = ?pos \<and> message_settled D (V w1) msg"
      using handle_accounts [OF q assms(2)] Cons.prems(2) by (simp add: message_settled_def)
    then have w1: "\<forall>m \<in> set topic. km_offset m < group_offset D (V w1) (km_partition m) \<longrightarrow> message_settled D (V w1) m"
      using new kept by metis
    show ?thesis
    proof (cases q)
      case (Inl e)
      then have "w' = w1" using Cons.prems(1) Some q by (simp add: bindM_def)
      then show ?thesis using w1 by simp
    next
      case (Inr u)
      then have "group_offset D (V w1) = ?pos" "consume D (deliver topic ?pos ps) ?pos w1 = (r, w')"
        using done1 Cons.prems(1) Some q by (simp_all add: bindM_def)
      then show ?thesis using Cons.IH w1 by simp
    qed
  qed
qed

text \<open>A malformed message ends every run that polls its partition, and its offset stays the committed one.\<close>

lemma consume_blocked:
  assumes "consume D (deliver topic pos ps) pos w = (r, w')" and "in_order topic" and "msg \<in> set topic"
    and "ce_loads D (km_value msg) = Inl e" and "pos (km_partition msg) = km_offset msg"
    and "group_offset D (V w) (km_partition msg) = km_offset msg"
  shows "group_offset D (V w') (km_partition msg) = km_offset msg \<and> (km_partition msg \<in> set ps \<longrightarrow> r \<noteq> Inr ())"
  using assms(1,5,6)
proof (induction ps arbitrary: pos w)
  case Nil
  then show ?case by (simp add: io_simps)
next
  case (Cons p ps)
  show ?case
  proof (cases "find (\<lambda>m. km_partition m = p \<and> pos p \<le> km_offset m) topic")
    case None
    then have "p \<noteq> km_partition msg" using Cons.prems assms(3) by (auto simp: find_None_iff)
    then show ?thesis using Cons None by simp
  next
    case (Some x)
    show ?thesis
    proof (cases "p = km_partition msg")
      case True
      then have "x = msg"
        using find_next [OF assms(2) Some assms(3)] Cons.prems(2) by auto
      then have "r = Inl e \<and> w' = w"
        using Cons.prems(1) Some assms(4) by (simp add: handle_message_def bindM_def io_simps)
      then show ?thesis using Cons.prems(3) by simp
    next
      case False
      let ?pos = "delivered x pos"
      have pos: "?pos (km_partition msg) = km_offset msg"
        using find_next_in [OF Some] False Cons.prems(2) by (auto simp: delivered_def)
      obtain q w1 where q: "handle_message D x ?pos w = (q, w1)" by (metis surj_pair)
      have w1: "group_offset D (V w1) (km_partition msg) = km_offset msg"
        using handle_offset [OF q] pos Cons.prems(3) by auto
      show ?thesis
      proof (cases q)
        case (Inl e)
        then show ?thesis using Cons.prems(1) Some q w1 by (auto simp: bindM_def)
      next
        case (Inr u)
        then have rest: "consume D (deliver topic ?pos ps) ?pos w1 = (r, w')" using Cons.prems(1) Some q by (simp add: bindM_def)
        then show ?thesis using Cons.IH [OF rest pos w1] False by simp
      qed
    qed
  qed
qed

end

section \<open>Runs and restarts\<close>

context worker_laws
begin

lemma close_view: "close_worker L p w = (r, w') \<Longrightarrow> V w' = V w"
  unfolding close_worker_def by (auto elim!: bindM_cases dest!: stop_view closed_view)

text \<open>A run either did not get to the loop, or is the loop.\<close>

lemma process_cases:
  assumes "consumer_process L msgs pos w = (r, w')"
  obtains "V w' = V w" "r \<noteq> Inr ()"
    | p w1 q w2 where "V w1 = V w" "consume (worker_env L p) msgs pos w1 = (q, w2)" "V w' = V w2" "r = Inr () \<Longrightarrow> q = Inr ()"
  using assms unfolding consumer_process_def
proof (cases rule: bindM_cases)
  case (raised e)
  then show thesis using that(1) create_pool_view by auto
next
  case (continued p w0)
  have w0: "V w0 = V w" by (rule create_pool_view [OF continued(1)])
  from continued(2) show thesis
  proof (cases rule: bindM_cases)
    case (raised e)
    then show thesis using that(1) start_view w0 by auto
  next
    case (continued u w1)
    obtain q w2 where q: "consume (worker_env L p) msgs pos w1 = (q, w2)" by (metis surj_pair)
    obtain c w3 where c: "close_worker L p w2 = (c, w3)" by (metis surj_pair)
    have "w' = w3" "r = Inr () \<Longrightarrow> q = Inr ()"
      using continued(2) q c by (auto simp: finallyM_def split: sum.splits)
    then show thesis using that(2) [OF _ q] start_view [OF continued(1)] close_view [OF c] w0 by simp
  qed
qed

lemma worker_env_simps [simp]:
  "message_settled (worker_env L p) = message_settled (wk_base L)" "dlq_up (worker_env L p) = dlq_up (wk_base L)"
  "ce_settings (worker_env L p) = wk_settings L" "ce_loads (worker_env L p) = ce_loads (wk_base L)"
  by (simp_all add: worker_env_def message_settled_def [abs_def] accounted_def marked_def dlq_up_def)

lemma run_settles:
  assumes "dlq_up (wk_base L)" and "in_order topic"
    and "\<forall>m \<in> set topic. km_offset m < worker_offset L (V w) (km_partition m) \<longrightarrow> message_settled (wk_base L) (V w) m"
    and "consumer_run V L topic ps w = (r, w')"
  shows "\<forall>m \<in> set topic. km_offset m < worker_offset L (V w') (km_partition m) \<longrightarrow> message_settled (wk_base L) (V w') m"
  using assms(4)
proof (cases rule: process_cases)
  case 1
  then show ?thesis using assms(3) by simp
next
  case (2 p w1 q w2)
  then show ?thesis
    using consumer_laws.consume_settles [OF consumer 2(2)] assms(1-3) unfolding worker_env_simps by simp
qed

lemma restarts_settle:
  assumes "dlq_up (wk_base L)" and "in_order topic"
    and "\<forall>m \<in> set topic. km_offset m < worker_offset L (V w) (km_partition m) \<longrightarrow> message_settled (wk_base L) (V w) m"
  shows "\<forall>m \<in> set topic. km_offset m < worker_offset L (V (restarts V L topic pss w)) (km_partition m) \<longrightarrow>
    message_settled (wk_base L) (V (restarts V L topic pss w)) m"
  using assms(3)
proof (induction pss arbitrary: w)
  case (Cons ps pss)
  obtain r w' where run: "consumer_run V L topic ps w = (r, w')" by (metis surj_pair)
  from Cons.IH [OF run_settles [OF assms(1,2) Cons.prems run]] run show ?case by simp
qed simp

lemma run_blocked:
  assumes "in_order topic" and "msg \<in> set topic" and "ce_loads (wk_base L) (km_value msg) = Inl e"
    and "worker_offset L (V w) (km_partition msg) = km_offset msg" and "consumer_run V L topic ps w = (r, w')"
  shows "worker_offset L (V w') (km_partition msg) = km_offset msg \<and> (km_partition msg \<in> set ps \<longrightarrow> r \<noteq> Inr ())"
  using assms(5)
proof (cases rule: process_cases)
  case 1
  then show ?thesis using assms(4) by simp
next
  case (2 p w1 q w2)
  then show ?thesis
    using consumer_laws.consume_blocked [OF consumer 2(2) assms(1,2)] assms(3,4) unfolding worker_env_simps by auto
qed

lemma malformed_blocks:
  assumes "in_order topic" and "msg \<in> set topic" and "ce_loads (wk_base L) (km_value msg) = Inl e"
    and "worker_offset L (V w) (km_partition msg) = km_offset msg"
  shows "worker_offset L (V (restarts V L topic pss w)) (km_partition msg) = km_offset msg"
  using assms(4)
proof (induction pss arbitrary: w)
  case (Cons ps pss)
  obtain r w' where run: "consumer_run V L topic ps w = (r, w')" by (metis surj_pair)
  from Cons.IH run_blocked [OF assms(1-3) Cons.prems run] run show ?case by simp
qed simp

end

section \<open>The process in memory\<close>

definition mem_process :: "(string \<Rightarrow> exn + pyval) \<Rightarrow> (mem, unit) worker_libs" where
  "mem_process loads =
     \<lparr>wk_settings = default_settings, wk_base = mem_consumer True loads, wk_create_pool = (\<lambda>_ _ _. returnM ()),
      wk_acquire = (\<lambda>_. returnM ()), wk_connection = (\<lambda>_. mem_pool), wk_from_url = (\<lambda>_. mem_redis),
      wk_mongo = (\<lambda>_. mem_mongo), wk_start = (\<lambda>_ _ _ _. returnM ()), wk_stop = returnM (),
      wk_pool_close = (\<lambda>_. returnM ()), wk_redis_close = returnM (), wk_mongo_close = returnM ()\<rparr>"

lemma mem_process_env [simp]: "worker_env (mem_process loads) p = mem_consumer True loads"
  by (simp add: worker_env_def mem_process_def mem_consumer_def)

lemma mem_process_run: "consumer_process (mem_process loads) msgs pos w = consume (mem_consumer True loads) msgs pos w"
proof -
  have "close_worker (mem_process loads) p x = (Inr (), x)" for p x
    by (simp add: close_worker_def mem_process_def bindM_def io_simps)
  moreover have "wk_create_pool (mem_process loads) dsn m n x = (Inr (), x)" "wk_start (mem_process loads) t b g n x = (Inr (), x)"
    for dsn m n t b g x by (simp_all add: mem_process_def io_simps)
  ultimately show ?thesis
    by (cases "consume (mem_consumer True loads) msgs pos w") (simp add: consumer_process_def finallyM_def bindM_def)
qed

interpretation mem_process: worker_laws "mem_process loads" mem_state for loads
  by (rule worker_laws.intro)
    (simp_all add: mem_consumer.consumer_laws_axioms, simp_all add: mem_process_def io_simps)

section \<open>Properties\<close>

text \<open>
  C6. The consumer loses nothing over its whole life: however often it is started, whichever partitions
  each run gets to in whatever order and wherever it crashes, every message below the committed offset of
  its partition is an event that is marked as processed or lies in the dead letter queue, as long as the
  queue takes what it is sent, Redis keeps the markers, and the event has an id.
\<close>

theorem consumer_restarts_lose_nothing:
  assumes "worker_laws L V" and "dlq_up (wk_base L)" and "in_order topic"
    and "worker_offset L (V w) = (\<lambda>_. 0)" and "w' = restarts V L topic pss w"
    and "m \<in> set topic" and "km_offset m < worker_offset L (V w') (km_partition m)"
  shows "\<exists>ev. ce_loads (wk_base L) (km_value m) = Inr (PDict ev) \<and> (identified ev \<longrightarrow> accounted (wk_base L) ev (V w'))"
  using worker_laws.restarts_settle [OF assms(1-3), of w pss] assms(4-7) by (simp add: message_settled_def)

theorem consumer_restarts_lose_nothing_witness:
  "\<exists>w'. w' = restarts mem_state (mem_process (\<lambda>_. Inr (PDict sample_created))) [sample_msg] [[3, 0], [0]]
       (mem_init\<lparr>mem_faults := [Up, Lost, Lost, Lost]\<rparr>) \<and>
     accounted (mem_consumer True (\<lambda>_. Inr (PDict sample_created))) sample_created (mem_state w')"
proof -
  let ?L = "mem_process (\<lambda>_. Inr (PDict sample_created))" and ?w = "mem_init\<lparr>mem_faults := [Up, Lost, Lost, Lost]\<rparr>"
  let ?D = "mem_consumer True (\<lambda>_. Inr (PDict sample_created))"
  obtain w1 where run: "handle_message ?D sample_msg sample_pos ?w = (Inr (), w1)"
    by (auto simp: handle_message_def mem_consumer_def process_event_def project_to_postgres_def
        project_attempt_def sample_defs dict_simps dict_get_def mem_pool_def mem_redis_def mem_op_def
        mem_init_def bindM_def tryM_def io_simps numeral_3_eq_3 send_to_dlq_def mem_send_def Let_def
        model_dump_def)
  have base: "wk_base ?L = ?D" "wk_settings ?L = ce_settings ?D" by (simp_all add: mem_process_def mem_consumer_def)
  have off: "group_offset ?D (mem_state w1) = sample_pos"
    using mem_consumer.handle_accounts [OF run mem_consumer_dlq_up] by auto
  have one: "consumer_process ?L [sample_msg] (\<lambda>_. 0) ?w = (Inr (), w1)" "consumer_process ?L [] pos w1 = (Inr (), w1)" for pos
    using run by (simp_all add: mem_process_run bindM_def io_simps delivered_def sample_msg_def)
  have zero: "worker_offset ?L (mem_state ?w) = (\<lambda>_. 0)" by (simp add: mem_init_def)
  have del: "deliver [sample_msg] (\<lambda>_. 0) [3, 0] = [sample_msg]" "deliver [sample_msg] sample_pos [0] = []"
    by (simp_all add: sample_msg_def)
  have runs: "consumer_run mem_state ?L [sample_msg] [3, 0] ?w = (Inr (), w1)"
    "consumer_run mem_state ?L [sample_msg] [0] w1 = (Inr (), w1)"
    unfolding base(2) zero [unfolded base(2)] off del one by (rule refl)+
  have w1: "restarts mem_state ?L [sample_msg] [[3, 0], [0]] ?w = w1"
    by (simp only: restarts.simps runs snd_conv)
  from consumer_restarts_lose_nothing [OF mem_process.worker_laws_axioms _ _ zero refl, of "[sample_msg]" sample_msg "[[3, 0], [0]]"]
  have "\<exists>ev. ce_loads ?D (km_value sample_msg) = Inr (PDict ev) \<and> (identified ev \<longrightarrow> accounted ?D ev (mem_state w1))"
    unfolding w1 base using off mem_consumer_dlq_up by (simp add: sample_msg_def)
  moreover have "ce_loads ?D (km_value sample_msg) = Inr (PDict sample_created)" by (simp add: mem_consumer_def)
  moreover have "identified sample_created" by (simp add: identified_def sample_defs dict_simps)
  ultimately show ?thesis using w1 by auto
qed

text \<open>
  C37. A message that is not JSON stops the projection of its partition for good: when it is the next one
  there, the committed offset of the partition never moves again however often the process is started,
  and every run that polls the partition ends with an exception.
\<close>

theorem malformed_message_blocks_consumer:
  assumes "worker_laws L V" and "in_order topic" and "msg \<in> set topic"
    and "ce_loads (wk_base L) (km_value msg) = Inl e"
    and "worker_offset L (V w) (km_partition msg) = km_offset msg" and "w' = restarts V L topic pss w"
  shows "worker_offset L (V w') (km_partition msg) = km_offset msg \<and>
    (km_partition msg \<in> set ps \<longrightarrow> fst (consumer_run V L topic ps w') \<noteq> Inr ())"
proof -
  have off: "worker_offset L (V w') (km_partition msg) = km_offset msg"
    unfolding assms(6) by (rule worker_laws.malformed_blocks [OF assms(1-5)])
  with worker_laws.run_blocked [OF assms(1-4) off surjective_pairing] show ?thesis by blast
qed

theorem malformed_message_blocks_consumer_witness:
  "worker_offset (mem_process (\<lambda>_. Inl TypeError))
     (mem_state (restarts mem_state (mem_process (\<lambda>_. Inl TypeError)) [sample_msg] [[0], [1, 0], [0]] mem_init)) 0 = 0"
proof -
  have "sample_msg \<in> set [sample_msg]" "in_order [sample_msg]" by simp_all
  moreover have "ce_loads (wk_base (mem_process (\<lambda>_. Inl TypeError))) (km_value sample_msg) = Inl TypeError"
    by (simp add: mem_process_def mem_consumer_def)
  moreover have "worker_offset (mem_process (\<lambda>_. Inl TypeError)) (mem_state mem_init) (km_partition sample_msg) = km_offset sample_msg"
    by (simp add: mem_init_def sample_msg_def)
  ultimately show ?thesis
    using malformed_message_blocks_consumer [OF mem_process.worker_laws_axioms _ _ _ _ refl, of "[sample_msg]" sample_msg]
    by (simp add: sample_msg_def del: restarts.simps)
qed

end
