(* ===== verification/Concurrency.thy ===== *)
theory Concurrency
  imports Write_Side
begin

text \<open>
  Handlers run concurrently: between reading an order and appending the event, other requests
  may append events of the same order.  A handler is cut at its awaits into phases -- prepare
  (load, guard, make the event), append, publish -- and a step relation interleaves the phases
  of any number of requests.  The invariant: every prepared event was admitted on a prefix of
  its order's present history, so the unique version index lets it in only if that prefix is
  still the whole history.
\<close>

section \<open>The phases of a handler\<close>

definition prepare_event ::
    "'w mongo_collection \<Rightarrow> string \<Rightarrow> (order_aggregate \<Rightarrow> exn + unit) \<Rightarrow>
     (int \<Rightarrow> ('w, base_event) io) \<Rightarrow> ('w, base_event) io" where
  "prepare_event es order_id guard mk =
     bindM (load_aggregate es order_id) (\<lambda>agg.
     bindM (liftM (guard agg)) (\<lambda>_. mk (agg_version agg + 1)))"

fun prepare :: "'w platform \<Rightarrow> 'w mongo_collection \<Rightarrow> command \<Rightarrow> ('w, base_event) io" where
  "prepare P es (CreateOrder req) =
     bindM (effM (uuid4 (pf_env P))) (\<lambda>order_id.
     order_created_event (pf_env P) order_id (co_customer_id req) (co_customer_email req))"
| "prepare P es (AddItem oid req) = prepare_event es oid assert_can_add_item
     (\<lambda>v. order_item_added_event (pf_env P) oid v (ai_product_id req) (ai_product_name req)
        (ai_quantity req) (ai_unit_price req))"
| "prepare P es (ConfirmOrder oid) = prepare_event es oid assert_can_confirm
     (order_confirmed_event (pf_env P) oid)"
| "prepare P es (ProcessPayment oid req) = prepare_event es oid (pay_guard req)
     (\<lambda>v. order_payment_processed_event (pf_env P) oid v (pp_payment_id req) (pp_amount req)
        (pp_method req))"
| "prepare P es (ShipOrder oid req) = prepare_event es oid assert_can_ship
     (\<lambda>v. order_shipped_event (pf_env P) oid v (so_tracking_id req) (so_carrier req))"
| "prepare P es (CancelOrder oid req) = prepare_event es oid assert_can_cancel
     (\<lambda>v. order_cancelled_event (pf_env P) oid v (ca_reason req))"

fun success_message :: "command \<Rightarrow> string" where
  "success_message (CreateOrder req) = ''Order created''"
| "success_message (AddItem oid req) = ''Item '' @ ai_product_name req @ '' added''"
| "success_message (ConfirmOrder oid) = ''Order confirmed''"
| "success_message (ProcessPayment oid req) = ''Payment processed''"
| "success_message (ShipOrder oid req) = ''Order shipped via '' @ so_carrier req"
| "success_message (CancelOrder oid req) = ''Order cancelled''"

lemma bindM_assoc: "bindM (bindM m f) g = bindM m (\<lambda>x. bindM (f x) g)"
  by (rule ext) (auto simp: bindM_def split: prod.splits sum.splits)

text \<open>A handler that runs undisturbed runs its phases one after the other.\<close>

lemma exec_phases:
  assumes "target cmd = Some (oid, kind)"
  shows "exec_command P es pb rd cmd =
    bindM (prepare P es cmd) (\<lambda>event.
    bindM (append_es es (model_dump event)) (\<lambda>_.
    bindM (publish_via P pb event) (\<lambda>_.
    returnM \<lparr>cr_event_id = ev_event_id event, cr_aggregate_id = oid,
             cr_aggregate_version = ev_aggregate_version event, cr_message = success_message cmd\<rparr>)))"
  using assms
  by (cases cmd) (auto simp: handler_runs process_payment_run run_command_def prepare_event_def bindM_assoc)

section \<open>Interleaving\<close>

record 'w server =
  sv_world :: 'w
  sv_prepared :: "base_event list"
  sv_stored :: "base_event list"

inductive server_step ::
    "'w platform \<Rightarrow> 'w mongo_collection \<Rightarrow> 'w event_publisher \<Rightarrow> 'w redis_client \<Rightarrow>
     'w server \<Rightarrow> 'w server \<Rightarrow> bool"
  for P es pb rd where
  step_prepared: "prepare P es cmd (sv_world s) = (Inr ev, w') \<Longrightarrow>
     server_step P es pb rd s (s\<lparr>sv_world := w', sv_prepared := ev # sv_prepared s\<rparr>)"
| step_refused: "prepare P es cmd (sv_world s) = (Inl e, w') \<Longrightarrow>
     server_step P es pb rd s (s\<lparr>sv_world := w'\<rparr>)"
| step_appended: "ev \<in> set (sv_prepared s) \<Longrightarrow>
     append_es es (model_dump ev) (sv_world s) = (Inr u, w') \<Longrightarrow>
     server_step P es pb rd s (s\<lparr>sv_world := w', sv_prepared := remove1 ev (sv_prepared s),
       sv_stored := ev # sv_stored s\<rparr>)"
| step_rejected: "ev \<in> set (sv_prepared s) \<Longrightarrow>
     append_es es (model_dump ev) (sv_world s) = (Inl e, w') \<Longrightarrow>
     server_step P es pb rd s (s\<lparr>sv_world := w', sv_prepared := remove1 ev (sv_prepared s)\<rparr>)"
| step_published: "ev \<in> set (sv_stored s) \<Longrightarrow>
     publish_via P pb ev (sv_world s) = (r, w') \<Longrightarrow>
     server_step P es pb rd s (s\<lparr>sv_world := w', sv_stored := remove1 ev (sv_stored s)\<rparr>)"
| step_looked_up: "redis_get rd key (sv_world s) = (c, w') \<Longrightarrow>
     server_step P es pb rd s (s\<lparr>sv_world := w'\<rparr>)"
| step_remembered: "redis_setex rd key ttl v (sv_world s) = (r, w') \<Longrightarrow>
     server_step P es pb rd s (s\<lparr>sv_world := w'\<rparr>)"

text \<open>An event admitted on a prefix of the present history of its order.\<close>

definition prepared_ok :: "backend \<Rightarrow> base_event \<Rightarrow> bool" where
  "prepared_ok b ev \<longleftrightarrow> (\<exists>pre kind. prefix pre (order_history b (ev_aggregate_id ev)) \<and>
     decode (model_dump ev) = Some (int (length pre) + 1, kind) \<and> admits (order_run order_init pre) kind)"

lemma prepared_ok_mono:
  "prepared_ok b ev \<Longrightarrow> (\<And>a. prefix (order_history b a) (order_history b' a)) \<Longrightarrow> prepared_ok b' ev"
  unfolding prepared_ok_def by (meson prefix_order.trans)

lemma prepared_append:
  assumes "store_ok b" and "prepared_ok b ev" and "\<not> dup_key (b_indexes b) (b_docs b) (stored ev)"
    and "b_docs b' = b_docs b @ [stored ev]" and "b_indexes b' = b_indexes b"
  shows "store_step b b'"
proof -
  let ?h = "order_history b (ev_aggregate_id ev)"
  obtain pre kind where pre: "prefix pre ?h" "decode (model_dump ev) = Some (int (length pre) + 1, kind)"
    "admits (order_run order_init pre) kind"
    using assms(2) by (auto simp: prepared_ok_def)
  have "ev_aggregate_version ev = int (length pre) + 1"
    using pre(2) by (auto simp: decode_model_dump)
  then have "\<not> length pre < length ?h"
    using version_taken [OF assms(1), of ev] assms(3) by auto
  then have "pre = ?h"
    using pre(1) by (auto simp: prefix_def)
  moreover have "os_version (order_run order_init ?h) = int (length ?h)"
    using assms(1) valid_from_run_version [of order_init ?h] by (simp add: store_ok_def)
  ultimately show ?thesis
    using pre assms(3,4,5) unfolding store_step_def by (intro conjI disjI2 exI [of _ ev] exI [of _ kind]) simp_all
qed

context running_command
begin

lemma prepare_event_ok:
  assumes "prepare_event M oid guard mk w = (r, w')" and "store_ok (V w)"
  shows "V w' = V w \<and> (\<forall>ev. r = Inr ev \<longrightarrow> prepared_ok (V w) ev)"
  using assms(1) unfolding prepare_event_def
proof (cases rule: bindM_cases)
  case (raised e)
  then show ?thesis using load_cases [OF raised(1) assms(2)] by simp
next
  case (continued agg w1)
  let ?h = "order_history (V w) oid"
  have agg: "V w1 = V w" "?h \<noteq> []" "agg = agg_of (PStr oid) (order_state_of (V w) oid)"
    using load_cases [OF continued(1) assms(2)] by (auto split: if_splits)
  have ver: "os_version (order_state_of (V w) oid) = int (length ?h)"
    using assms(2) valid_from_run_version [of order_init ?h] by (simp add: store_ok_def)
  from continued(2) show ?thesis
  proof (cases rule: bindM_cases)
    case (raised e)
    then show ?thesis using agg(1) by (simp add: io_simps)
  next
    case (continued u w2)
    then have g: "guard agg = Inr ()" "w2 = w1" by (auto simp: io_simps)
    have "prepared_ok (V w) ev" if "r = Inr ev" for ev
      unfolding prepared_ok_def
      using make_ok [of "agg_version agg + 1" w2 ev w'] continued(2) that g agg ver
        guard_admits [of "order_state_of (V w) oid"]
      by (intro exI [of _ ?h] exI [of _ kind]) simp
    moreover have "V w' = V w"
      using continued(2) make_ok [of "agg_version agg + 1" w2 _ w'] make_err [of "agg_version agg + 1" w2 _ w']
        g(2) agg(1) by (cases r) auto
    ultimately show ?thesis by blast
  qed
qed

end

context write_side
begin

lemma prepare_ok:
  assumes "prepare P M cmd w = (r, w')" and "store_ok (V w)"
  shows "V w' = V w \<and> (\<forall>ev. r = Inr ev \<longrightarrow> prepared_ok (V w) ev)"
proof (cases cmd)
  case (CreateOrder req)
  then have "order_created_event (pf_env P) (fst (uuid4 (pf_env P) w)) (co_customer_id req)
      (co_customer_email req) (snd (uuid4 (pf_env P) w)) = (r, w')"
    using assms(1) by (simp add: bindM_def effM_def)
  from factories_make(1) [OF this] show ?thesis
    by (auto simp: makes_def uuid4_view prepared_ok_def intro!: exI [of _ "[]"])
next
  case (AddItem oid req)
  then show ?thesis using add.prepare_event_ok [of oid req] assms by simp
next
  case (ConfirmOrder oid)
  then show ?thesis using confirm.prepare_event_ok [of oid] assms by simp
next
  case (ProcessPayment oid req)
  then show ?thesis using pay.prepare_event_ok [of oid req] assms by simp
next
  case (ShipOrder oid req)
  then show ?thesis using ship.prepare_event_ok [of oid req] assms by simp
next
  case (CancelOrder oid req)
  then show ?thesis using cancel.prepare_event_ok [of oid req] assms by simp
qed

text \<open>Every step is a step of the store and keeps the prepared events admitted.\<close>

lemma server_step_store:
  assumes "server_step P M pub R s s'" and "store_ok (V (sv_world s))"
    and "\<forall>ev \<in> set (sv_prepared s). prepared_ok (V (sv_world s)) ev"
  shows "store_step (V (sv_world s)) (V (sv_world s')) \<and>
    (\<forall>ev \<in> set (sv_prepared s'). ev \<in> set (sv_prepared s) \<or> prepared_ok (V (sv_world s)) ev)"
  using assms(1)
proof (cases rule: server_step.cases)
  case (step_prepared cmd ev w')
  then show ?thesis using prepare_ok [OF _ assms(2)] by (auto simp: store_step_def)
next
  case (step_refused cmd e w')
  then show ?thesis using prepare_ok [OF _ assms(2)] by (auto simp: store_step_def)
next
  case (step_appended ev u w')
  then have "store_step (V (sv_world s)) (V w')"
    using assms(2,3) by (intro prepared_append [of _ ev]) (auto elim: append_cases)
  then show ?thesis using step_appended notin_set_remove1 by fastforce
next
  case (step_rejected ev e w')
  from step_rejected(3) have "store_step (V (sv_world s)) (V w')"
  proof (cases rule: append_cases)
    case (failed x)
    then show ?thesis
      using step_rejected(2) assms(2,3) prepared_append [of "V (sv_world s)" ev "V w'"]
      by (auto simp: store_step_def)
  qed (auto simp: store_step_def)
  then show ?thesis using step_rejected notin_set_remove1 by fastforce
next
  case (step_published ev r w')
  then show ?thesis by (auto simp: store_step_def elim!: publish_via_effect)
next
  case (step_looked_up key c w')
  then show ?thesis by (cases c) (auto simp: store_step_def dest: get_ok get_err)
next
  case (step_remembered key ttl v r w')
  then show ?thesis by (cases r) (auto simp: store_step_def dest!: setex_ok setex_err)
qed

lemma server_reachable:
  assumes "(server_step P M pub R)\<^sup>*\<^sup>* s s'" and "store_ok (V (sv_world s))"
    and "\<forall>ev \<in> set (sv_prepared s). prepared_ok (V (sv_world s)) ev"
  shows "store_ok (V (sv_world s')) \<and> (\<forall>ev \<in> set (sv_prepared s'). prepared_ok (V (sv_world s')) ev) \<and>
    (\<forall>a. prefix (order_history (V (sv_world s)) a) (order_history (V (sv_world s')) a))"
  using assms(1)
proof (induction rule: rtranclp_induct)
  case base
  then show ?case using assms(2,3) by simp
next
  case (step s1 s2)
  let ?b1 = "V (sv_world s1)" and ?b2 = "V (sv_world s2)"
  have st: "store_step ?b1 ?b2"
    "\<forall>ev \<in> set (sv_prepared s2). ev \<in> set (sv_prepared s1) \<or> prepared_ok ?b1 ev"
    using server_step_store [OF step.hyps(2)] step.IH by auto
  have pre: "prefix (order_history ?b1 a) (order_history ?b2 a)" for a
    using store_step_history [OF st(1)] step.IH by blast
  show ?case
    using st step.IH pre store_step_ok [OF st(1)] prepared_ok_mono [of ?b1 _ ?b2]
    by (meson prefix_order.trans)
qed

end

section \<open>Properties\<close>

text \<open>
  C2. Optimistic concurrency is safe under every interleaving: however the phases of any number
  of concurrent requests are interleaved, and whatever the services do, every order's events
  form a valid history with consecutive versions, and no recorded event is ever lost.  Checking
  the rules on a stale read is harmless, because an event built on it cannot be stored.
\<close>

theorem concurrent_requests_keep_store_valid:
  assumes "write_side M R K V P" and "store_ok (V w)"
    and "(server_step P M \<lparr>pub_producer = K, pub_redis = R\<rparr> R)\<^sup>*\<^sup>*
      \<lparr>sv_world = w, sv_prepared = [], sv_stored = []\<rparr> s"
  shows "store_ok (V (sv_world s)) \<and>
    (\<forall>a. prefix (order_history (V w) a) (order_history (V (sv_world s)) a))"
  using write_side.server_reachable [OF assms(1,3)] assms(2) by simp

text \<open>A request that has prepared its event and not yet appended it.\<close>

lemma sample_add_prepares:
  "\<exists>ev w'. prepare mem_platform mem_mongo sample_add mem_one = (Inr ev, w')"
proof -
  obtain resp w' where "bindM (prepare mem_platform mem_mongo sample_add) (\<lambda>event.
      bindM (append_es mem_mongo (model_dump event)) (\<lambda>_.
      bindM (publish_via mem_platform mem_pub event) (\<lambda>_.
      returnM \<lparr>cr_event_id = ev_event_id event, cr_aggregate_id = ''o1'',
        cr_aggregate_version = ev_aggregate_version event, cr_message = success_message sample_add\<rparr>)))
      mem_one = (Inr resp, w')"
    using sample_add_up unfolding exec_phases [OF sample_add_target] by blast
  then show ?thesis by (cases rule: bindM_cases) auto
qed

theorem concurrent_requests_keep_store_valid_witness:
  "\<exists>ev s. (server_step mem_platform mem_mongo mem_pub mem_redis)\<^sup>*\<^sup>*
      \<lparr>sv_world = mem_one, sv_prepared = [], sv_stored = []\<rparr> s \<and>
    sv_prepared s = [ev] \<and> store_ok (mem_state (sv_world s))"
proof -
  let ?s = "\<lparr>sv_world = mem_one, sv_prepared = [], sv_stored = []\<rparr>"
  obtain ev w' where "prepare mem_platform mem_mongo sample_add (sv_world ?s) = (Inr ev, w')"
    using sample_add_prepares by auto
  from step_prepared [OF this, of mem_pub mem_redis] have
    run: "(server_step mem_platform mem_mongo mem_pub mem_redis)\<^sup>*\<^sup>* ?s
      \<lparr>sv_world = w', sv_prepared = [ev], sv_stored = []\<rparr>"
    by (simp add: r_into_rtranclp)
  from concurrent_requests_keep_store_valid [OF mem_write.write_side_axioms mem_one_ok run] run
  show ?thesis by (intro exI conjI) auto
qed

end
