(* ===== verification/Py_Text.thy ===== *)
theory Py_Text
  imports Prelude
begin

text \<open>
  The parts of Python's text and calendar that the archiver's object keys and bodies use:
  decimal numbers, \<open>:02d\<close>, \<open>int(x)\<close> of a float, the year, month and day of a UTC time, and
  joining lines with a newline, with what reads them back.
\<close>

section \<open>Numbers as text\<close>

definition digit :: "nat \<Rightarrow> char" where
  "digit n = char_of (48 + n)"

fun dec :: "nat \<Rightarrow> string" where
  "dec n = (if n < 10 then [digit n] else dec (n div 10) @ [digit (n mod 10)])"

declare dec.simps [simp del]

definition dec_int :: "int \<Rightarrow> string" where
  "dec_int i = (if i < 0 then ''-'' @ dec (nat (- i)) else dec (nat i))"

definition pad2 :: "nat \<Rightarrow> string" where
  "pad2 n = (if length (dec n) < 2 then CHR ''0'' # dec n else dec n)"

text \<open>Reading a decimal number back.\<close>

definition undec :: "string \<Rightarrow> nat" where
  "undec s = foldl (\<lambda>n c. 10 * n + (of_char c - 48)) 0 s"

lemma of_char_digit: "n < 10 \<Longrightarrow> of_char (digit n) = 48 + n"
  by (simp add: digit_def)

lemma undec_dec [simp]: "undec (dec n) = n"
proof (induction n rule: dec.induct)
  case (1 n)
  then show ?case
    by (subst dec.simps) (auto simp: undec_def of_char_digit)
qed

lemma dec_inject [simp]: "dec m = dec n \<longleftrightarrow> m = n"
  by (metis undec_dec)

lemma dec_digits: "c \<in> set (dec n) \<Longrightarrow> 48 \<le> (of_char c :: nat) \<and> (of_char c :: nat) \<le> 57"
proof (induction n rule: dec.induct)
  case (1 n)
  then show ?case
    by (subst (asm) (2) dec.simps) (auto simp: of_char_digit split: if_splits)
qed

lemma dash_not_digit [simp]: "CHR ''-'' \<notin> set (dec n)" "CHR ''-'' \<notin> set (pad2 n)"
  using dec_digits [of "CHR ''-''" n] by (auto simp: pad2_def)

text \<open>\<open>int(x)\<close> of a float truncates.\<close>

fun int_of_float :: "pyfloat \<Rightarrow> exn + int" where
  "int_of_float (Fin q) = Inr (if q < 0 then \<lceil>q\<rceil> else \<lfloor>q\<rfloor>)"
| "int_of_float NaN = Inl (ValueError [Lit ''cannot convert float NaN to integer''])"
| "int_of_float _ = Inl OverflowError"

section \<open>Dates\<close>

definition leap :: "nat \<Rightarrow> bool" where
  "leap y \<longleftrightarrow> y mod 4 = 0 \<and> (y mod 100 \<noteq> 0 \<or> y mod 400 = 0)"

definition year_days :: "nat \<Rightarrow> nat" where
  "year_days y = (if leap y then 366 else 365)"

lemma year_days_pos [simp]: "0 < year_days y"
  by (simp add: year_days_def)

text \<open>The year that contains a day counted from the first day of \<open>y\<close>, and the day within it.\<close>

function year_of :: "nat \<Rightarrow> nat \<Rightarrow> nat \<times> nat" where
  "year_of y d = (if d < year_days y then (y, d) else year_of (y + 1) (d - year_days y))"
  by pat_completeness auto
termination
proof (relation "measure snd")
  show "((y + 1, d - year_days y), (y, d)) \<in> measure snd" if "\<not> d < year_days y" for y d
    using that year_days_pos [of y] by (simp add: not_less del: year_days_pos)
qed simp

declare year_of.simps [simp del]

definition month_days :: "nat \<Rightarrow> nat list" where
  "month_days y = [31, if leap y then 29 else 28, 31, 30, 31, 30, 31, 31, 30, 31, 30, 31]"

fun month_of :: "nat \<Rightarrow> nat list \<Rightarrow> nat \<Rightarrow> nat \<times> nat" where
  "month_of m [] d = (m, d + 1)"
| "month_of m (l # ls) d = (if d < l then (m, d + 1) else month_of (m + 1) ls (d - l))"

text \<open>The date of a time in seconds since 1970, for times from 1970 on.\<close>

definition civil_date :: "rat \<Rightarrow> nat \<times> nat \<times> nat" where
  "civil_date t =
     (let (y, d) = year_of 1970 (nat \<lfloor>t / 86400\<rfloor>); (m, day) = month_of 1 (month_days y) d
      in (y, m, day))"

lemma year_of_bound: "year_of y d = (y', d') \<Longrightarrow> d' < year_days y'"
  by (induction y d rule: year_of.induct) (metis year_of.simps prod.inject)

lemma month_of_bound:
  assumes "month_of m ls d = (m', d')" and "d < sum_list ls"
  shows "m \<le> m' \<and> m' < m + length ls \<and> 1 \<le> d' \<and> d' \<le> ls ! (m' - m)"
  using assms
proof (induction m ls d rule: month_of.induct)
  case (2 m l ls d)
  show ?case
  proof (cases "d < l")
    case True
    then show ?thesis using 2 by auto
  next
    case False
    then have "m + 1 \<le> m' \<and> m' < m + 1 + length ls \<and> 1 \<le> d' \<and> d' \<le> ls ! (m' - (m + 1))"
      using 2 by (intro 2) auto
    then show ?thesis by (auto simp: nth_Cons' diff_Suc split: nat.splits)
  qed
qed simp

lemma civil_date_bounds:
  assumes "civil_date t = (y, m, d)"
  shows "1 \<le> m \<and> m \<le> 12 \<and> 1 \<le> d \<and> d \<le> month_days y ! (m - 1)"
proof -
  obtain n where n: "year_of 1970 (nat \<lfloor>t / 86400\<rfloor>) = (y, n)" "month_of 1 (month_days y) n = (m, d)"
    using assms by (auto simp: civil_date_def split: prod.splits)
  have "n < sum_list (month_days y)"
    using year_of_bound [OF n(1)] by (simp add: month_days_def year_days_def split: if_splits)
  from month_of_bound [OF n(2) this] show ?thesis
    by (auto simp: month_days_def)
qed

section \<open>Lines\<close>

fun join_lines :: "string list \<Rightarrow> string" where
  "join_lines [] = []"
| "join_lines [l] = l"
| "join_lines (l # ls) = l @ CHR 0x0A # join_lines ls"

fun split_lines :: "string \<Rightarrow> string list" where
  "split_lines [] = [[]]"
| "split_lines (c # cs) =
     (if c = CHR 0x0A then [] # split_lines cs
      else (case split_lines cs of [] \<Rightarrow> [[c]] | l # ls \<Rightarrow> (c # l) # ls))"

lemma split_lines_one: "CHR 0x0A \<notin> set l \<Longrightarrow> split_lines l = [l]"
  by (induction l) auto

lemma split_lines_append: "CHR 0x0A \<notin> set l \<Longrightarrow> split_lines (l @ CHR 0x0A # s) = l # split_lines s"
  by (induction l) auto

lemma split_join_lines:
  assumes "ls \<noteq> []" and "\<And>l. l \<in> set ls \<Longrightarrow> CHR 0x0A \<notin> set l"
  shows "split_lines (join_lines ls) = ls"
  using assms
  by (induction ls rule: join_lines.induct) (auto simp: split_lines_one split_lines_append)

end
