(* ===== verification/Archiver.thy ===== *)
theory Archiver
  imports Consumer Py_Text
begin

text \<open>
  The archiver (\<open>consumers/archiver.py\<close>): it collects the events of the topic into batches,
  uploads each batch to S3 as newline-delimited JSON under a key that carries the date and the
  last offset, and commits.  Its libraries are the record \<open>archive_env\<close>.  As for the consumer,
  the messages come from any number of partitions, and \<open>commit\<close> commits for every partition the
  position after the last message that the iterator has returned.
\<close>

section \<open>Operations\<close>

record 'w archive_env =
  ar_settings :: settings
  ar_loads :: "string \<Rightarrow> exn + pyval"
  ar_dumps :: "pyval \<Rightarrow> exn + string"
  ar_env :: "'w pyenv"
  ar_list_buckets :: "('w, string list) io"
  ar_create_bucket :: "string \<Rightarrow> ('w, unit) io"
  ar_start :: "string \<Rightarrow> string \<Rightarrow> string \<Rightarrow> ('w, unit) io"
  ar_stop :: "('w, unit) io"
  ar_put_object :: "string \<Rightarrow> string \<Rightarrow> (string \<times> string) list \<Rightarrow> ('w, unit) io"
  ar_commit :: "positions \<Rightarrow> ('w, unit) io"

definition ensure_bucket :: "'w archive_env \<Rightarrow> ('w, unit) io" where
  "ensure_bucket D =
     tryM
       (bindM (ar_list_buckets D) (\<lambda>existing.
        if s3_bucket (ar_settings D) \<notin> set existing
        then ar_create_bucket D (s3_bucket (ar_settings D))
        else returnM ()))
       (\<lambda>e. returnM ())"

definition batch_key :: "rat \<Rightarrow> nat \<Rightarrow> int \<Rightarrow> string" where
  "batch_key now last_offset ts =
     (let (y, m, d) = civil_date now in
      ''year='' @ dec y @ ''/month='' @ pad2 m @ ''/day='' @ pad2 d @ ''/'' @
      ''batch-offset-'' @ dec last_offset @ ''-ts-'' @ dec_int ts @ ''.ndjson'')"

definition upload_batch_to_s3 :: "'w archive_env \<Rightarrow> pyval list \<Rightarrow> nat \<Rightarrow> ('w, string) io" where
  "upload_batch_to_s3 D events last_offset =
     bindM (effM (utcnow (ar_env D))) (\<lambda>now.
     bindM (effM (time_time (ar_env D))) (\<lambda>t.
     bindM (liftM (int_of_float t)) (\<lambda>ts.
     let s3_key = batch_key now last_offset ts in
     bindM (liftM (mapR (ar_dumps D) events)) (\<lambda>lines.
     bindM (ar_put_object D s3_key (join_lines lines)
              [(''event_count'', dec (length events)), (''last_offset'', dec last_offset)]) (\<lambda>_.
     returnM s3_key)))))"

text \<open>The local variables of \<open>archive\<close>, and the positions of its consumer.\<close>

record archiver =
  ar_batch :: "pyval list"
  ar_last_offset :: nat
  ar_positions :: positions

text \<open>Upload and commit, where both are wanted; shared by the loop and by the shutdown.\<close>

definition flush_batch :: "'w archive_env \<Rightarrow> archiver \<Rightarrow> ('w, archiver) io" where
  "flush_batch D st =
     tryM
       (bindM (upload_batch_to_s3 D (ar_batch st) (ar_last_offset st)) (\<lambda>s3_key.
        bindM (ar_commit D (ar_positions st)) (\<lambda>_.
        returnM (st\<lparr>ar_batch := []\<rparr>))))
       (\<lambda>e. returnM st)"

text \<open>One iteration of the loop, for a message that was parsed.\<close>

definition archive_event :: "'w archive_env \<Rightarrow> kafka_msg \<Rightarrow> pyval \<Rightarrow> archiver \<Rightarrow> ('w, archiver) io" where
  "archive_event D msg event st =
     (let st' = \<lparr>ar_batch = ar_batch st @ [event], ar_last_offset = km_offset msg,
                 ar_positions = delivered msg (ar_positions st)\<rparr>
      in if snapshot_batch_size (ar_settings D) \<le> length (ar_batch st') then flush_batch D st'
         else returnM st')"

text \<open>
  The loop returns the state that the \<open>finally\<close> clause sees, with the exception that ended it:
  a message that is not JSON ends the loop, after the iterator has moved past it.
\<close>

fun archive_loop :: "'w archive_env \<Rightarrow> kafka_msg list \<Rightarrow> archiver \<Rightarrow> ('w, exn option \<times> archiver) io" where
  "archive_loop D [] st = returnM (None, st)"
| "archive_loop D (msg # msgs) st =
     (case ar_loads D (km_value msg) of
        Inl e \<Rightarrow> returnM (Some e, st\<lparr>ar_positions := delivered msg (ar_positions st)\<rparr>)
      | Inr event \<Rightarrow> bindM (archive_event D msg event st) (archive_loop D msgs))"

text \<open>
  The \<open>finally\<close> block: what is left of the batch is uploaded, the consumer is stopped, and an exception
  of the loop goes on, unless stopping raises another.
\<close>

definition archive_shutdown :: "'w archive_env \<Rightarrow> exn option \<Rightarrow> archiver \<Rightarrow> ('w, unit) io" where
  "archive_shutdown D err st =
     bindM (if ar_batch st \<noteq> [] then flush_batch D st else returnM st) (\<lambda>_.
     bindM (ar_stop D) (\<lambda>_.
     case err of None \<Rightarrow> returnM () | Some e \<Rightarrow> raiseM e))"

text \<open>The consumer starts at the positions that Kafka has for the group.\<close>

definition archive :: "'w archive_env \<Rightarrow> kafka_msg list \<Rightarrow> positions \<Rightarrow> ('w, unit) io" where
  "archive D msgs pos =
     bindM (ensure_bucket D) (\<lambda>_.
     bindM (ar_start D (kafka_topic_orders (ar_settings D)) (redpanda_brokers (ar_settings D))
              (kafka_archiver_group (ar_settings D))) (\<lambda>_.
     bindM (archive_loop D msgs \<lparr>ar_batch = [], ar_last_offset = 0, ar_positions = pos\<rparr>) (\<lambda>(err, st).
     archive_shutdown D err st)))"

section \<open>Keys\<close>

text \<open>The offset can be read off a key: it is the number after the second dash.\<close>

definition key_offset :: "string \<Rightarrow> nat" where
  "key_offset key = undec (takeWhile (\<lambda>c. c \<noteq> CHR ''-'') (drop 8 (dropWhile (\<lambda>c. c \<noteq> CHR ''-'') key)))"

lemma batch_key_tail:
  "dropWhile (\<lambda>c. c \<noteq> CHR ''-'') (batch_key now n ts) = ''-offset-'' @ dec n @ ''-ts-'' @ dec_int ts @ ''.ndjson''"
proof -
  obtain y m d where date: "civil_date now = (y, m, d)"
    by (metis prod_cases3)
  let ?pre = "''year='' @ dec y @ ''/month='' @ pad2 m @ ''/day='' @ pad2 d @ ''/batch''"
  let ?post = "''-offset-'' @ dec n @ ''-ts-'' @ dec_int ts @ ''.ndjson''"
  have "CHR ''-'' \<notin> set ?pre" by simp
  then have "dropWhile (\<lambda>c. c \<noteq> CHR ''-'') (?pre @ ?post) = ?post"
    by (subst dropWhile_append2) auto
  then show ?thesis by (simp add: batch_key_def date)
qed

lemma key_offset_batch_key [simp]: "key_offset (batch_key now n ts) = n"
proof -
  have "takeWhile (\<lambda>c. c \<noteq> CHR ''-'') (dec n @ ''-ts-'' @ dec_int ts @ ''.ndjson'') = dec n"
  proof (subst takeWhile_append2)
    show "x \<noteq> CHR ''-''" if "x \<in> set (dec n)" for x
      using that dash_not_digit(1) by metis
  qed simp
  then show ?thesis by (simp add: key_offset_def batch_key_tail)
qed

lemma dec_int_inject: "dec_int i = dec_int j \<Longrightarrow> i = j"
proof -
  have "CHR ''-'' # dec m \<noteq> dec n" "dec n \<noteq> CHR ''-'' # dec m" for m n
    using dash_not_digit(1) [of n] by (metis list.set_intros(1))+
  then show "dec_int i = dec_int j \<Longrightarrow> i = j"
    by (auto simp: dec_int_def split: if_splits)
qed

lemma batch_key_inject: "batch_key now n ts = batch_key now' n' ts' \<Longrightarrow> n = n' \<and> ts = ts'"
  using batch_key_tail [of now n ts] batch_key_tail [of now' n' ts'] key_offset_batch_key
  by (metis append_same_eq same_append_eq dec_int_inject)

section \<open>The laws of the archiver's services\<close>

abbreviation archive_offset :: "'w archive_env \<Rightarrow> backend \<Rightarrow> positions" where
  "archive_offset D b \<equiv> b_offsets b (kafka_archiver_group (ar_settings D))"

locale archiver_laws = env_laws "ar_env D" V
  for D :: "'w archive_env" and V :: "'w \<Rightarrow> backend" +
  assumes list_view: "ar_list_buckets D w = (r, w') \<Longrightarrow> V w' = V w"
    and create_view: "ar_create_bucket D name w = (q, w') \<Longrightarrow> V w' = V w"
    and start_view: "ar_start D topic brokers grp w = (q, w') \<Longrightarrow> V w' = V w"
    and stop_view: "ar_stop D w = (q, w') \<Longrightarrow> V w' = V w"
    and put_any: "ar_put_object D key body meta w = (q, w') \<Longrightarrow> V w' = V w \<and> q \<noteq> Inr () \<or>
      V w' = (V w)\<lparr>b_objects := (b_objects (V w))(key \<mapsto> body)\<rparr>"
    and commit_any: "ar_commit D n w = (q, w') \<Longrightarrow> V w' = V w \<and> q \<noteq> Inr () \<or>
      V w' = (V w)\<lparr>b_offsets := (b_offsets (V w))(kafka_archiver_group (ar_settings D) := n)\<rparr>"
    and dumps_line: "ar_dumps D v = Inr s \<Longrightarrow> CHR 0x0A \<notin> set s"

text \<open>The event of a message is a line of the object under \<open>key\<close>.\<close>

definition in_object :: "'w archive_env \<Rightarrow> backend \<Rightarrow> kafka_msg \<Rightarrow> string \<Rightarrow> bool" where
  "in_object D b m key \<longleftrightarrow> (\<exists>body e s. b_objects b key = Some body \<and>
     ar_loads D (km_value m) = Inr e \<and> ar_dumps D e = Inr s \<and> s \<in> set (split_lines body))"

definition in_batch :: "'w archive_env \<Rightarrow> archiver \<Rightarrow> kafka_msg \<Rightarrow> bool" where
  "in_batch D st m \<longleftrightarrow> (\<exists>e \<in> set (ar_batch st). ar_loads D (km_value m) = Inr e)"

text \<open>
  The invariant of the loop, for a set \<open>S\<close> of keys that no later upload can use: a message it has taken
  is in the batch or in an object under such a key, and in an object at least when its offset is
  committed.
\<close>

definition archive_inv :: "'w archive_env \<Rightarrow> (string \<Rightarrow> bool) \<Rightarrow> kafka_msg list \<Rightarrow> archiver \<Rightarrow> backend \<Rightarrow> bool" where
  "archive_inv D S ms st b \<longleftrightarrow> (ar_batch st \<noteq> [] \<longrightarrow> ar_last_offset st \<in> km_offset ` set ms) \<and>
     (\<forall>m \<in> set ms. (in_batch D st m \<or> (\<exists>key. in_object D b m key \<and> S key)) \<and>
       (km_offset m < archive_offset D b (km_partition m) \<longrightarrow> (\<exists>key. in_object D b m key)))"

lemma in_object_cong: "b_objects b key = b_objects b' key \<Longrightarrow> in_object D b m key = in_object D b' m key"
  by (simp add: in_object_def)

context archiver_laws
begin

lemma ensure_bucket_view: "ensure_bucket D w = (r, w') \<Longrightarrow> r = Inr () \<and> V w' = V w"
  unfolding ensure_bucket_def
  by (auto elim!: tryM_cases bindM_cases simp: io_simps split: if_splits dest!: list_view create_view)

text \<open>An upload either did nothing, or wrote the lines under the key of its two clock readings.\<close>

lemma upload_effect:
  assumes "upload_batch_to_s3 D evs n w = (r, w')"
  obtains "V w' = V w" "\<And>k. r \<noteq> Inr k"
    | key ts lines meta q where "key = batch_key (fst (utcnow (ar_env D) w)) n ts"
      "int_of_float (fst (time_time (ar_env D) (snd (utcnow (ar_env D) w)))) = Inr ts"
      "ar_put_object D key (join_lines lines) meta (snd (time_time (ar_env D) (snd (utcnow (ar_env D) w)))) = (q, w')"
      "mapR (ar_dumps D) evs = Inr lines" "\<And>k. r = Inr k \<Longrightarrow> k = key"
      "V w' = (V w)\<lparr>b_objects := (b_objects (V w))(key \<mapsto> join_lines lines)\<rparr>"
proof -
  let ?w1 = "snd (utcnow (ar_env D) w)"
  let ?w2 = "snd (time_time (ar_env D) ?w1)"
  have w2: "V ?w2 = V w" by (simp add: time_view utcnow_view)
  show thesis
  proof (cases "int_of_float (fst (time_time (ar_env D) ?w1))")
    case (Inl e)
    then show thesis using assms w2 that(1) by (auto simp: upload_batch_to_s3_def bindM_def io_simps)
  next
    case (Inr ts)
    let ?key = "batch_key (fst (utcnow (ar_env D) w)) n ts"
    show thesis
    proof (cases "mapR (ar_dumps D) evs")
      case (Inl e)
      then show thesis using assms w2 Inr that(1) by (auto simp: upload_batch_to_s3_def bindM_def io_simps Let_def)
    next
      case lines: (Inr lines)
      obtain meta where "bindM (ar_put_object D ?key (join_lines lines) meta) (\<lambda>_. returnM ?key) ?w2 = (r, w')"
        using assms Inr lines by (simp add: upload_batch_to_s3_def bindM_def io_simps Let_def)
      then obtain q where "ar_put_object D ?key (join_lines lines) meta ?w2 = (q, w')"
        "\<And>k. r = Inr k \<Longrightarrow> k = ?key \<and> q = Inr ()"
        by (cases rule: bindM_cases) (auto simp: io_simps)
      then show thesis using put_any [of ?key "join_lines lines" meta ?w2 q w'] w2 that(1) that(2) [OF refl Inr _ lines] by auto
    qed
  qed
qed

text \<open>Every event of an uploaded batch is a line of the object.\<close>

lemma uploaded_lines:
  assumes "mapR (ar_dumps D) evs = Inr lines" and "evs \<noteq> []"
  shows "split_lines (join_lines lines) = lines" and "e \<in> set evs \<Longrightarrow> \<exists>s \<in> set lines. ar_dumps D e = Inr s"
proof -
  have ls: "lines = map (\<lambda>e. projr (ar_dumps D e)) evs" "\<And>e. e \<in> set evs \<Longrightarrow> \<exists>s. ar_dumps D e = Inr s"
    using assms(1) by (auto simp: mapR_Inr_iff)
  have "CHR 0x0A \<notin> set l" if "l \<in> set lines" for l
  proof -
    obtain e where e: "e \<in> set evs" "l = projr (ar_dumps D e)"
      using \<open>l \<in> set lines\<close> ls(1) by auto
    then have "ar_dumps D e = Inr l" using ls(2) by force
    then show ?thesis by (rule dumps_line)
  qed
  then show "split_lines (join_lines lines) = lines"
    using ls assms(2) by (intro split_join_lines) auto
  show "\<exists>s \<in> set lines. ar_dumps D e = Inr s" if "e \<in> set evs"
    using ls(2) [OF that] ls(1) that by (auto simp: image_iff intro!: bexI [of _ e])
qed

end

section \<open>Keys that are not used again\<close>

text \<open>
  The archive is safe as long as no upload replaces an object that holds other events.  The contract: of
  some keys, the \<open>spent\<close> ones, it is known that no later upload writes to them; the key of a
  finished batch is spent; and messages that \<open>fit\<close> the ones before them keep spent keys spent.
\<close>

locale archive_keys = archiver_laws D V for D :: "'w archive_env" and V :: "'w \<Rightarrow> backend" +
  fixes spent :: "kafka_msg list \<Rightarrow> archiver \<Rightarrow> 'w \<Rightarrow> string \<Rightarrow> bool"
    and fits :: "kafka_msg list \<Rightarrow> kafka_msg \<Rightarrow> bool"
  assumes spent_take: "spent ms st w key \<Longrightarrow> fits ms msg \<Longrightarrow>
      spent (ms @ [msg]) \<lparr>ar_batch = evs, ar_last_offset = km_offset msg, ar_positions = pos\<rparr> w key"
    and spent_upload: "upload_batch_to_s3 D (ar_batch st) (ar_last_offset st) w = (r, w') \<Longrightarrow> ar_batch st \<noteq> [] \<Longrightarrow>
      spent ms st w key \<Longrightarrow> spent ms st w' key \<and> b_objects (V w') key = b_objects (V w) key"
    and spent_new: "upload_batch_to_s3 D (ar_batch st) (ar_last_offset st) w = (Inr key, w') \<Longrightarrow>
      ar_last_offset st \<in> km_offset ` set ms \<Longrightarrow> spent ms (st\<lparr>ar_batch := []\<rparr>) w' key"
    and spent_commit: "ar_commit D pos w = (q, w') \<Longrightarrow> spent ms st w key \<Longrightarrow> spent ms st w' key"
    and spent_clear: "spent ms st w key \<Longrightarrow> spent ms (st\<lparr>ar_batch := []\<rparr>) w key"
    and spent_position: "spent ms (st\<lparr>ar_positions := pos\<rparr>) w key = spent ms st w key"

text \<open>Every message fits the ones that were taken before it.\<close>

fun fitting :: "(kafka_msg list \<Rightarrow> kafka_msg \<Rightarrow> bool) \<Rightarrow> kafka_msg list \<Rightarrow> kafka_msg list \<Rightarrow> bool" where
  "fitting P ms [] \<longleftrightarrow> True"
| "fitting P ms (msg # msgs) \<longleftrightarrow> P ms msg \<and> fitting P (ms @ [msg]) msgs"

context archive_keys
begin

text \<open>Uploading the batch keeps the invariant, and if it took effect, every message is in an object.\<close>

lemma upload_inv:
  assumes "upload_batch_to_s3 D (ar_batch st) (ar_last_offset st) w = (r, w')"
    and "archive_inv D (spent ms st w) ms st (V w)" and "ar_batch st \<noteq> []"
  shows "archive_inv D (spent ms st w') ms st (V w')" and "b_offsets (V w') = b_offsets (V w)"
    and "r = Inr k \<Longrightarrow> m \<in> set ms \<Longrightarrow> \<exists>key. in_object D (V w') m key \<and> spent ms (st\<lparr>ar_batch := []\<rparr>) w' key"
proof -
  have last: "ar_last_offset st \<in> km_offset ` set ms"
    using assms(2,3) by (simp add: archive_inv_def)
  have kept: "in_object D (V w') m key \<and> spent ms st w' key" if "in_object D (V w) m key" "spent ms st w key" for m key
    using that spent_upload [OF assms(1,3) that(2)] in_object_cong by metis
  have "b_offsets (V w') = b_offsets (V w) \<and> archive_inv D (spent ms st w') ms st (V w') \<and>
      (r = Inr k \<longrightarrow> (\<forall>m \<in> set ms. \<exists>key. in_object D (V w') m key \<and> spent ms (st\<lparr>ar_batch := []\<rparr>) w' key))"
    using assms(1)
  proof (cases rule: upload_effect)
    case 1
    then show ?thesis using assms(2) kept unfolding archive_inv_def by metis
  next
    case (2 key ts lines meta q)
    have new: "in_object D (V w') m key" if "in_batch D st m" for m
      using that uploaded_lines [OF 2(4) assms(3)] 2(6) by (fastforce simp: in_batch_def in_object_def)
    have inv: "archive_inv D (spent ms st w') ms st (V w')"
      using assms(2) new kept last unfolding archive_inv_def by metis
    have "\<exists>key. in_object D (V w') m key \<and> spent ms (st\<lparr>ar_batch := []\<rparr>) w' key" if "m \<in> set ms" "r = Inr k" for m
    proof (cases "in_batch D st m")
      case True
      then show ?thesis using new spent_new [OF _ last] assms(1) 2(5) [OF that(2)] that(2) by metis
    next
      case False
      then show ?thesis using inv that(1) spent_clear unfolding archive_inv_def by metis
    qed
    with inv 2(6) show ?thesis by simp
  qed
  then show "archive_inv D (spent ms st w') ms st (V w')" "b_offsets (V w') = b_offsets (V w)"
    "r = Inr k \<Longrightarrow> m \<in> set ms \<Longrightarrow> \<exists>key. in_object D (V w') m key \<and> spent ms (st\<lparr>ar_batch := []\<rparr>) w' key"
    by blast+
qed

lemma commit_inv:
  assumes "ar_commit D pos w = (r, w')" and "archive_inv D (spent ms st w) ms st (V w)"
    and "\<And>m. m \<in> set ms \<Longrightarrow> \<exists>key. in_object D (V w) m key \<and> spent ms (st\<lparr>ar_batch := []\<rparr>) w key"
  shows "archive_inv D (spent ms st w') ms st (V w')"
    and "archive_inv D (spent ms (st\<lparr>ar_batch := []\<rparr>) w') ms (st\<lparr>ar_batch := []\<rparr>) (V w')"
    and "archive_offset D (V w') \<in> {archive_offset D (V w), pos}"
proof -
  have obj: "b_objects (V w') = b_objects (V w)" and off: "archive_offset D (V w') \<in> {archive_offset D (V w), pos}"
    using commit_any [OF assms(1)] by auto
  have same: "in_object D (V w') m k = in_object D (V w) m k" for m k
    by (rule in_object_cong) (simp add: obj)
  show "archive_inv D (spent ms st w') ms st (V w')"
    using assms(2,3) spent_commit [OF assms(1)] unfolding archive_inv_def same by metis
  show "archive_inv D (spent ms (st\<lparr>ar_batch := []\<rparr>) w') ms (st\<lparr>ar_batch := []\<rparr>) (V w')"
    using assms(3) spent_commit [OF assms(1)] unfolding archive_inv_def same by (metis archiver.select_convs(1) archiver.update_convs(1) archiver.surjective)
  show "archive_offset D (V w') \<in> {archive_offset D (V w), pos}" by (rule off)
qed

lemma flush_inv:
  assumes "flush_batch D st w = (r, w')" and "archive_inv D (spent ms st w) ms st (V w)" and "ar_batch st \<noteq> []"
  obtains st' where "r = Inr st'" and "archive_inv D (spent ms st' w') ms st' (V w')" and "st' \<in> {st, st\<lparr>ar_batch := []\<rparr>}"
    and "archive_offset D (V w') \<in> {archive_offset D (V w), ar_positions st}"
proof -
  have "\<exists>st'. r = Inr st' \<and> archive_inv D (spent ms st' w') ms st' (V w') \<and> st' \<in> {st, st\<lparr>ar_batch := []\<rparr>} \<and>
      archive_offset D (V w') \<in> {archive_offset D (V w), ar_positions st}"
    using assms(1) unfolding flush_batch_def
  proof (cases rule: tryM_cases)
    case (handled e w1)
    then have st: "w1 = w'" "r = Inr st" by (auto simp: io_simps)
    from handled(1) show ?thesis
    proof (cases rule: bindM_cases)
      case (raised e)
      then show ?thesis using upload_inv(1,2) [OF raised(1) assms(2,3)] st by auto
    next
      case (continued k w2)
      note up = upload_inv [OF continued(1) assms(2,3)]
      from continued(2) show ?thesis
      proof (cases rule: bindM_cases)
        case (raised e)
        then show ?thesis using commit_inv [OF raised(1) up(1) up(3) [OF refl]] up(2) st by auto
      next
        case (continued u w3)
        then show ?thesis by (simp add: io_simps)
      qed
    qed
  next
    case (returned x)
    from returned(1) show ?thesis
    proof (cases rule: bindM_cases)
      case (continued k w2)
      note up = upload_inv [OF continued(1) assms(2,3)]
      from continued(2) show ?thesis
      proof (cases rule: bindM_cases)
        case (continued u w3)
        then show ?thesis
          using commit_inv [OF continued(1) up(1) up(3) [OF refl]] up(2) returned(2) by (auto simp: io_simps)
      qed simp
    qed simp
  qed
  then show ?thesis using that by blast
qed

text \<open>One more message.\<close>

lemma take_inv:
  assumes "ar_loads D (km_value msg) = Inr event" and "archive_inv D (spent ms st w) ms st (V w)" and "fits ms msg"
    and "archive_offset D (V w) (km_partition msg) \<le> km_offset msg"
    and "st' = \<lparr>ar_batch = ar_batch st @ [event], ar_last_offset = km_offset msg, ar_positions = pos\<rparr>"
  shows "archive_inv D (spent (ms @ [msg]) st' w) (ms @ [msg]) st' (V w)"
  unfolding archive_inv_def
proof (intro conjI ballI)
  fix m assume "m \<in> set (ms @ [msg])"
  then consider "m = msg" | "m \<in> set ms" by auto
  then have "(in_batch D st' m \<or> (\<exists>key. in_object D (V w) m key \<and> spent (ms @ [msg]) st' w key)) \<and>
      (km_offset m < archive_offset D (V w) (km_partition m) \<longrightarrow> (\<exists>key. in_object D (V w) m key))"
  proof cases
    case 1
    then show ?thesis using assms(1,4,5) by (auto simp: in_batch_def)
  next
    case 2
    then have "(in_batch D st m \<or> (\<exists>key. in_object D (V w) m key \<and> spent ms st w key)) \<and>
        (km_offset m < archive_offset D (V w) (km_partition m) \<longrightarrow> (\<exists>key. in_object D (V w) m key))"
      using assms(2) unfolding archive_inv_def by blast
    moreover have "in_batch D st m \<Longrightarrow> in_batch D st' m" using assms(5) by (auto simp: in_batch_def)
    ultimately show ?thesis using spent_take [OF _ assms(3)] assms(5) by blast
  qed
  then show "in_batch D st' m \<or> (\<exists>key. in_object D (V w) m key \<and> spent (ms @ [msg]) st' w key)"
    "km_offset m < archive_offset D (V w) (km_partition m) \<longrightarrow> (\<exists>key. in_object D (V w) m key)" by blast+
qed (simp add: assms(5))

lemma archive_event_inv:
  assumes "archive_event D msg event st w = (r, w')" and "ar_loads D (km_value msg) = Inr event"
    and "archive_inv D (spent ms st w) ms st (V w)" and "fits ms msg"
    and "archive_offset D (V w) (km_partition msg) \<le> km_offset msg"
  obtains st' where "r = Inr st'" and "archive_inv D (spent (ms @ [msg]) st' w') (ms @ [msg]) st' (V w')"
    and "ar_positions st' = delivered msg (ar_positions st)"
    and "archive_offset D (V w') \<in> {archive_offset D (V w), delivered msg (ar_positions st)}"
proof -
  let ?st = "\<lparr>ar_batch = ar_batch st @ [event], ar_last_offset = km_offset msg,
    ar_positions = delivered msg (ar_positions st)\<rparr>"
  note taken = take_inv [OF assms(2-5) refl, of "delivered msg (ar_positions st)"]
  show ?thesis
  proof (cases "snapshot_batch_size (ar_settings D) \<le> length (ar_batch ?st)")
    case True
    then have "flush_batch D ?st w = (r, w')"
      using assms(1) by (simp add: archive_event_def Let_def)
    from flush_inv [OF this taken] that show ?thesis by fastforce
  next
    case False
    then show ?thesis
      using assms(1) taken that [of ?st] by (auto simp: archive_event_def Let_def io_simps)
  qed
qed

lemma archive_loop_inv:
  assumes "archive_loop D msgs st w = (r, w')" and "archive_inv D (spent ms st w) ms st (V w)"
    and "in_order msgs" and "fitting fits ms msgs"
    and "\<And>m. m \<in> set msgs \<Longrightarrow> archive_offset D (V w) (km_partition m) \<le> km_offset m \<and>
      ar_positions st (km_partition m) \<le> km_offset m"
  shows "\<exists>err st' ms'. r = Inr (err, st') \<and> archive_inv D (spent ms' st' w') ms' st' (V w') \<and> set ms \<subseteq> set ms' \<and>
    (\<forall>m \<in> set msgs. m \<in> set ms' \<or> (\<exists>e. ar_loads D (km_value m) = Inl e) \<or>
      ar_positions st' (km_partition m) \<le> km_offset m \<and> archive_offset D (V w') (km_partition m) \<le> km_offset m)"
  using assms
proof (induction msgs arbitrary: ms st w)
  case Nil
  then show ?case by (auto simp: io_simps)
next
  case (Cons msg msgs)
  have later: "delivered msg (ar_positions st) (km_partition m) \<le> km_offset m \<and>
      archive_offset D (V w) (km_partition m) \<le> km_offset m" if "m \<in> set msgs" for m
    using that Cons.prems(3) Cons.prems(5) [of m] by (auto intro: delivered_le)
  show ?case
  proof (cases "ar_loads D (km_value msg)")
    case (Inl e)
    then have r: "r = Inr (Some e, st\<lparr>ar_positions := delivered msg (ar_positions st)\<rparr>)" "w' = w"
      using Cons.prems(1) by (auto simp: io_simps)
    have "archive_inv D (spent ms (st\<lparr>ar_positions := delivered msg (ar_positions st)\<rparr>) w) ms
        (st\<lparr>ar_positions := delivered msg (ar_positions st)\<rparr>) (V w)"
      using Cons.prems(2) by (simp add: archive_inv_def in_batch_def spent_position)
    then show ?thesis using r Inl later by fastforce
  next
    case (Inr event)
    obtain q w1 where q: "archive_event D msg event st w = (q, w1)" by (metis surj_pair)
    have first: "fits ms msg" "archive_offset D (V w) (km_partition msg) \<le> km_offset msg"
      using Cons.prems(4,5) by simp_all
    obtain st1 where st1: "q = Inr st1" "archive_inv D (spent (ms @ [msg]) st1 w1) (ms @ [msg]) st1 (V w1)"
      "ar_positions st1 = delivered msg (ar_positions st)"
      "archive_offset D (V w1) \<in> {archive_offset D (V w), delivered msg (ar_positions st)}"
      by (rule archive_event_inv [OF q Inr Cons.prems(2) first])
    have rest: "archive_loop D msgs st1 w1 = (r, w')"
      using Cons.prems(1) Inr q st1(1) by (simp add: bindM_def)
    have "archive_offset D (V w1) (km_partition m) \<le> km_offset m \<and> ar_positions st1 (km_partition m) \<le> km_offset m"
      if "m \<in> set msgs" for m
      using later [OF that] st1(3,4) by auto
    from Cons.IH [OF rest st1(2) _ _ this] Cons.prems(3,4)
    obtain err st' ms' where "r = Inr (err, st')" "archive_inv D (spent ms' st' w') ms' st' (V w')" "set (ms @ [msg]) \<subseteq> set ms'"
      "\<forall>m \<in> set msgs. m \<in> set ms' \<or> (\<exists>e. ar_loads D (km_value m) = Inl e) \<or>
        ar_positions st' (km_partition m) \<le> km_offset m \<and> archive_offset D (V w') (km_partition m) \<le> km_offset m"
      by auto
    then show ?thesis by (intro exI [of _ err] exI [of _ st'] exI [of _ ms']) simp
  qed
qed

lemma archive_safe:
  assumes "archive D msgs (archive_offset D (V w)) w = (r, w')" and "in_order msgs" and "fitting fits [] msgs"
    and "\<And>m. m \<in> set msgs \<Longrightarrow> archive_offset D (V w) (km_partition m) \<le> km_offset m"
    and "m \<in> set msgs" and "ar_loads D (km_value m) = Inr event"
    and "km_offset m < archive_offset D (V w') (km_partition m)"
  shows "\<exists>key. in_object D (V w') m key"
proof -
  let ?st0 = "\<lparr>ar_batch = [], ar_last_offset = 0, ar_positions = archive_offset D (V w)\<rparr>"
  consider "V w' = V w"
    | w1 where "V w1 = V w" "bindM (archive_loop D msgs ?st0) (\<lambda>(err, st). archive_shutdown D err st) w1 = (r, w')"
    using assms(1) unfolding archive_def
  proof (cases rule: bindM_cases)
    case (continued x w0)
    from continued(2) show thesis
      by (cases rule: bindM_cases) (use that start_view ensure_bucket_view [OF continued(1)] in metis)+
  qed (use that ensure_bucket_view in blast)
  then obtain w1 where w1: "V w1 = V w" and loop: "bindM (archive_loop D msgs ?st0) (\<lambda>(err, st). archive_shutdown D err st) w1 = (r, w')"
    using assms(4) [OF assms(5)] assms(7) by cases auto
  obtain q w2 where q: "archive_loop D msgs ?st0 w1 = (q, w2)" by (metis surj_pair)
  have "archive_inv D (spent [] ?st0 w1) [] ?st0 (V w1)" by (simp add: archive_inv_def)
  from archive_loop_inv [OF q this assms(2,3)] assms(4) w1
  obtain err st ms where st: "q = Inr (err, st)" "archive_inv D (spent ms st w2) ms st (V w2)"
    "\<forall>m \<in> set msgs. m \<in> set ms \<or> (\<exists>e. ar_loads D (km_value m) = Inl e) \<or>
      ar_positions st (km_partition m) \<le> km_offset m \<and> archive_offset D (V w2) (km_partition m) \<le> km_offset m"
    by auto
  have "archive_shutdown D err st w2 = (r, w')"
    using loop q st(1) by (simp add: bindM_def)
  then obtain q' w3 where fl: "(if ar_batch st \<noteq> [] then flush_batch D st else returnM st) w2 = (q', w3)" and w3: "V w' = V w3"
    unfolding archive_shutdown_def
    by (auto elim!: bindM_cases simp: io_simps split: option.splits dest!: stop_view)
  have "\<exists>st' S. archive_inv D S ms st' (V w') \<and> archive_offset D (V w') \<in> {archive_offset D (V w2), ar_positions st}"
  proof (cases "ar_batch st = []")
    case True
    then have "V w' = V w2" using fl w3 by (simp add: io_simps)
    then show ?thesis using st(2) by auto
  next
    case False
    then have "flush_batch D st w2 = (q', w3)" using fl by simp
    from flush_inv [OF this st(2) False] show ?thesis unfolding w3 by blast
  qed
  moreover have "m \<in> set ms \<or> ar_positions st (km_partition m) \<le> km_offset m \<and> archive_offset D (V w2) (km_partition m) \<le> km_offset m"
    using st(3) assms(5,6) by auto
  ultimately show ?thesis
    using assms(7) by (auto simp: archive_inv_def)
qed

end

text \<open>
  Two ways to keep the contract.  If no two messages have the same offset -- as within one partition --
  the offset in the key tells the batches apart.
\<close>

definition offset_spent :: "kafka_msg list \<Rightarrow> archiver \<Rightarrow> 'w \<Rightarrow> string \<Rightarrow> bool" where
  "offset_spent ms st w key \<longleftrightarrow> (\<exists>now n ts. key = batch_key now n ts \<and> n \<in> km_offset ` set ms \<and>
     (ar_batch st = [] \<or> n \<noteq> ar_last_offset st))"

definition new_offset :: "kafka_msg list \<Rightarrow> kafka_msg \<Rightarrow> bool" where
  "new_offset ms msg \<longleftrightarrow> km_offset msg \<notin> km_offset ` set ms"

lemma distinct_fitting:
  "distinct (map km_offset (ms @ msgs)) \<Longrightarrow> fitting new_offset ms msgs"
  by (induction msgs arbitrary: ms) (auto simp: new_offset_def)

sublocale archiver_laws \<subseteq> offsets: archive_keys D V offset_spent new_offset
proof
  fix st :: archiver and w r w' key and ms :: "kafka_msg list"
  assume up: "upload_batch_to_s3 D (ar_batch st) (ar_last_offset st) w = (r, w')" and "ar_batch st \<noteq> []"
    and spent: "offset_spent ms st w key"
  then obtain now n ts where key: "key = batch_key now n ts" "n \<noteq> ar_last_offset st" by (auto simp: offset_spent_def)
  have "b_objects (V w') key = b_objects (V w) key"
    using up
  proof (cases rule: upload_effect)
    case (2 key' ts' lines meta q)
    then have "key' \<noteq> key" using key batch_key_inject by blast
    then show ?thesis using 2(6) by simp
  qed simp
  then show "offset_spent ms st w' key \<and> b_objects (V w') key = b_objects (V w) key"
    using spent by (simp add: offset_spent_def)
next
  fix st :: archiver and w w' key and ms :: "kafka_msg list"
  assume "upload_batch_to_s3 D (ar_batch st) (ar_last_offset st) w = (Inr key, w')" "ar_last_offset st \<in> km_offset ` set ms"
  then show "offset_spent ms (st\<lparr>ar_batch := []\<rparr>) w' key"
    by (elim upload_effect) (auto simp: offset_spent_def)
next
  fix ms :: "kafka_msg list" and st :: archiver and w key msg evs pos
  assume "offset_spent ms st w key" "new_offset ms msg"
  then obtain now n ts where key: "key = batch_key now n ts" "n \<in> km_offset ` set ms" "n \<noteq> km_offset msg"
    unfolding offset_spent_def new_offset_def by metis
  then show "offset_spent (ms @ [msg]) \<lparr>ar_batch = evs, ar_last_offset = km_offset msg, ar_positions = pos\<rparr> w key"
    unfolding offset_spent_def by (intro exI [of _ now] exI [of _ n] exI [of _ ts]) simp
qed (auto simp: offset_spent_def)

text \<open>
  If the clock shows a new second whenever it is read, the second in the key does; \<open>T\<close> is the last second
  that was shown.
\<close>

locale ticking_archiver = archiver_laws D V for D :: "'w archive_env" and V :: "'w \<Rightarrow> backend" +
  fixes T :: "'w \<Rightarrow> int"
  assumes time_ticks: "int_of_float (fst (time_time (ar_env D) w)) = Inr ts \<Longrightarrow>
      T w < ts \<and> T (snd (time_time (ar_env D) w)) = ts"
    and time_mono: "T w \<le> T (snd (time_time (ar_env D) w))"
    and utcnow_mono: "T w \<le> T (snd (utcnow (ar_env D) w))"
    and put_mono: "ar_put_object D key body meta w = (q, w') \<Longrightarrow> T w \<le> T w'"
    and commit_mono: "ar_commit D pos w = (q, w') \<Longrightarrow> T w \<le> T w'"
begin

lemma upload_mono: "upload_batch_to_s3 D evs n w = (r, w') \<Longrightarrow> T w \<le> T w'"
proof -
  have "keepsM (\<lambda>w. t \<le> T w) (upload_batch_to_s3 D evs n)" for t
    unfolding upload_batch_to_s3_def Let_def
  proof (intro keeps_intros keepsM_effM)
    show "t \<le> T (snd (utcnow (ar_env D) w))" if "t \<le> T w" for w
      using that utcnow_mono by (rule order_trans)
    show "t \<le> T (snd (time_time (ar_env D) w))" if "t \<le> T w" for w
      using that time_mono by (rule order_trans)
    show "keepsM (\<lambda>w. t \<le> T w) (ar_put_object D key body meta)" for key body meta
      by (rule keepsMI) (rule order_trans [OF _ put_mono])
  qed
  then show "upload_batch_to_s3 D evs n w = (r, w') \<Longrightarrow> T w \<le> T w'"
    using keepsMD [where P = "\<lambda>x. T w \<le> T x"] by fast
qed

end

definition second_spent :: "('w \<Rightarrow> int) \<Rightarrow> kafka_msg list \<Rightarrow> archiver \<Rightarrow> 'w \<Rightarrow> string \<Rightarrow> bool" where
  "second_spent T ms st w key \<longleftrightarrow> (\<exists>now n ts. key = batch_key now n ts \<and> ts \<le> T w)"

lemma fitting_any: "fitting (\<lambda>_ _. True) ms msgs"
  by (induction msgs arbitrary: ms) auto

sublocale ticking_archiver \<subseteq> seconds: archive_keys D V "second_spent T" "\<lambda>_ _. True"
proof
  fix st :: archiver and w r w' key and ms :: "kafka_msg list"
  assume up: "upload_batch_to_s3 D (ar_batch st) (ar_last_offset st) w = (r, w')" and "second_spent T ms st w key"
  then obtain now n ts where key: "key = batch_key now n ts" "ts \<le> T w" by (auto simp: second_spent_def)
  have "b_objects (V w') key = b_objects (V w) key"
    using up
  proof (cases rule: upload_effect)
    case (2 key' ts' lines meta q)
    have "ts < ts'" using key(2) utcnow_mono [of w] time_ticks [OF 2(2)] by linarith
    then have "key' \<noteq> key" using key(1) 2(1) batch_key_inject by blast
    then show ?thesis using 2(6) by simp
  qed simp
  then show "second_spent T ms st w' key \<and> b_objects (V w') key = b_objects (V w) key"
    using key upload_mono [OF up] by (auto simp: second_spent_def intro: order_trans)
next
  fix st :: archiver and w w' key and ms :: "kafka_msg list"
  assume "upload_batch_to_s3 D (ar_batch st) (ar_last_offset st) w = (Inr key, w')"
  then show "second_spent T ms (st\<lparr>ar_batch := []\<rparr>) w' key"
  proof (cases rule: upload_effect)
    case (2 key' ts lines meta q)
    then show ?thesis
      unfolding second_spent_def using time_ticks [OF 2(2)] put_mono [OF 2(3)] 2(5) [OF refl] by metis
  qed blast
qed (auto simp: second_spent_def dest!: commit_mono intro: order_trans)

section \<open>Progress\<close>

text \<open>The services answer, and whatever was parsed can be written again.\<close>

definition archive_up :: "'w archive_env \<Rightarrow> bool" where
  "archive_up D \<longleftrightarrow> (\<forall>s v. ar_loads D s = Inr v \<longrightarrow> (\<exists>t. ar_dumps D v = Inr t)) \<and>
     (\<forall>key body meta w. \<exists>w'. ar_put_object D key body meta w = (Inr (), w')) \<and>
     (\<forall>pos w. \<exists>w'. ar_commit D pos w = (Inr (), w')) \<and>
     (\<forall>t b g w. \<exists>w'. ar_start D t b g w = (Inr (), w')) \<and> (\<forall>w. \<exists>w'. ar_stop D w = (Inr (), w')) \<and>
     (\<forall>w. \<exists>i. int_of_float (fst (time_time (ar_env D) w)) = Inr i)"

text \<open>The batch holds what was parsed.\<close>

definition parsed :: "'w archive_env \<Rightarrow> archiver \<Rightarrow> bool" where
  "parsed D st \<longleftrightarrow> (\<forall>v \<in> set (ar_batch st). \<exists>s. ar_loads D s = Inr v)"

context archiver_laws
begin

lemma flush_up:
  assumes "archive_up D" and "parsed D st"
  shows "\<exists>w'. flush_batch D st w = (Inr (st\<lparr>ar_batch := []\<rparr>), w') \<and> archive_offset D (V w') = ar_positions st"
proof -
  let ?w1 = "snd (time_time (ar_env D) (snd (utcnow (ar_env D) w)))"
  obtain ts where ts: "int_of_float (fst (time_time (ar_env D) (snd (utcnow (ar_env D) w)))) = Inr ts"
    using assms(1) unfolding archive_up_def by blast
  have "\<exists>t. ar_dumps D v = Inr t" if "v \<in> set (ar_batch st)" for v
    using assms(1) [unfolded archive_up_def, THEN conjunct1] assms(2) that unfolding parsed_def by blast
  then obtain ls where ls: "mapR (ar_dumps D) (ar_batch st) = Inr ls"
    by (auto simp: mapR_Inr_iff)
  obtain w2 where put: "ar_put_object D (batch_key (fst (utcnow (ar_env D) w)) (ar_last_offset st) ts)
      (join_lines ls) [(''event_count'', dec (length (ar_batch st))),
        (''last_offset'', dec (ar_last_offset st))] ?w1 = (Inr (), w2)"
    using assms(1) unfolding archive_up_def by blast
  obtain w3 where commit: "ar_commit D (ar_positions st) w2 = (Inr (), w3)"
    using assms(1) unfolding archive_up_def by blast
  have "flush_batch D st w = (Inr (st\<lparr>ar_batch := []\<rparr>), w3)"
    using ts ls put commit
    by (simp add: flush_batch_def upload_batch_to_s3_def tryM_def bindM_def io_simps Let_def)
  moreover have "archive_offset D (V w3) = ar_positions st"
    using commit_any [OF commit] by simp
  ultimately show ?thesis by blast
qed

lemma archive_event_up:
  assumes "archive_up D" and "parsed D st" and "ar_loads D (km_value msg) = Inr event"
  shows "\<exists>st' w'. archive_event D msg event st w = (Inr st', w') \<and> parsed D st' \<and>
    ar_positions st' = delivered msg (ar_positions st) \<and> (ar_batch st' = [] \<longrightarrow> archive_offset D (V w') = ar_positions st')"
proof -
  let ?st = "\<lparr>ar_batch = ar_batch st @ [event], ar_last_offset = km_offset msg,
    ar_positions = delivered msg (ar_positions st)\<rparr>"
  have "parsed D ?st" using assms(2,3) by (auto simp: parsed_def)
  with flush_up [OF assms(1) this, of w] show ?thesis
    by (auto simp: archive_event_def Let_def io_simps parsed_def)
qed

lemma archive_loop_up:
  assumes "archive_up D" and "parsed D st" and "\<And>m. m \<in> set msgs \<Longrightarrow> \<exists>e. ar_loads D (km_value m) = Inr e"
    and "ar_batch st = [] \<longrightarrow> archive_offset D (V w) = ar_positions st"
  shows "\<exists>st' w'. archive_loop D msgs st w = (Inr (None, st'), w') \<and> parsed D st' \<and>
    ar_positions st' = fold delivered msgs (ar_positions st) \<and>
    (ar_batch st' = [] \<longrightarrow> archive_offset D (V w') = ar_positions st')"
  using assms(2-4)
proof (induction msgs arbitrary: st w)
  case Nil
  then show ?case by (simp add: io_simps)
next
  case (Cons msg msgs)
  obtain e where e: "ar_loads D (km_value msg) = Inr e" using Cons.prems(2) by force
  obtain st1 w1 where st1: "archive_event D msg e st w = (Inr st1, w1)" "parsed D st1"
    "ar_positions st1 = delivered msg (ar_positions st)" "ar_batch st1 = [] \<longrightarrow> archive_offset D (V w1) = ar_positions st1"
    using archive_event_up [OF assms(1) Cons.prems(1) e, of w] by blast
  have run: "archive_loop D (msg # msgs) st w = archive_loop D msgs st1 w1"
    using e st1(1) by (simp add: bindM_def)
  from Cons.IH [OF st1(2) Cons.prems(2) st1(4)] show ?case by (simp add: run st1(3) del: archive_loop.simps)
qed

lemma archive_all:
  assumes "archive_up D" and "\<And>m. m \<in> set msgs \<Longrightarrow> \<exists>e. ar_loads D (km_value m) = Inr e"
  shows "\<exists>w'. archive D msgs (archive_offset D (V w)) w = (Inr (), w') \<and>
    archive_offset D (V w') = fold delivered msgs (archive_offset D (V w))"
proof -
  let ?st0 = "\<lparr>ar_batch = [], ar_last_offset = 0, ar_positions = archive_offset D (V w)\<rparr>"
  obtain w0 where w0: "ensure_bucket D w = (Inr (), w0)" "V w0 = V w"
    using ensure_bucket_view by (metis surj_pair)
  obtain w1 where w1: "ar_start D (kafka_topic_orders (ar_settings D)) (redpanda_brokers (ar_settings D))
      (kafka_archiver_group (ar_settings D)) w0 = (Inr (), w1)"
    using assms(1) unfolding archive_up_def by blast
  have p0: "parsed D ?st0" "archive_offset D (V w1) = ar_positions ?st0"
    using start_view [OF w1] w0(2) by (simp_all add: parsed_def)
  obtain st w2 where st: "archive_loop D msgs ?st0 w1 = (Inr (None, st), w2)" "parsed D st"
    "ar_positions st = fold delivered msgs (archive_offset D (V w))"
    "ar_batch st = [] \<longrightarrow> archive_offset D (V w2) = ar_positions st"
    using archive_loop_up [OF assms(1) p0(1) assms(2), where msgs = msgs and w = w1] p0(2) by auto
  obtain q w3 where fl: "(if ar_batch st \<noteq> [] then flush_batch D st else returnM st) w2 = (Inr q, w3)"
    "archive_offset D (V w3) = ar_positions st"
    using flush_up [OF assms(1) st(2), of w2] st(4) by (cases "ar_batch st = []") (auto simp: io_simps)
  obtain w4 where "ar_stop D w3 = (Inr (), w4)" using assms(1) unfolding archive_up_def by blast
  with fl w0 w1 st(1,3) stop_view show ?thesis by (auto simp: archive_def archive_shutdown_def bindM_def io_simps)
qed

end

context archiver_laws
begin

lemmas archive_safe_by_offset = offsets.archive_safe

end

context ticking_archiver
begin

lemmas archive_safe_by_second = seconds.archive_safe

end

text \<open>No two batches get the same key.\<close>

definition keys_differ :: "'w archive_env \<Rightarrow> ('w \<Rightarrow> backend) \<Rightarrow> ('w \<Rightarrow> int) \<Rightarrow> kafka_msg list \<Rightarrow> bool" where
  "keys_differ D V T msgs \<longleftrightarrow> distinct (map km_offset msgs) \<or> ticking_archiver D V T"

lemma archive_safe_any:
  assumes "archiver_laws D V" and "keys_differ D V T msgs" and "in_order msgs"
    and "\<And>m. m \<in> set msgs \<Longrightarrow> archive_offset D (V w) (km_partition m) \<le> km_offset m"
    and "archive D msgs (archive_offset D (V w)) w = (r, w')"
    and "m \<in> set msgs" and "ar_loads D (km_value m) = Inr event"
    and "km_offset m < archive_offset D (V w') (km_partition m)"
  shows "\<exists>key. in_object D (V w') m key"
  using assms(2) unfolding keys_differ_def
proof
  assume "distinct (map km_offset msgs)"
  then have "fitting new_offset [] msgs" by (simp add: distinct_fitting)
  from archiver_laws.archive_safe_by_offset [OF assms(1,5,3) this assms(4,6-8)] show ?thesis .
next
  assume "ticking_archiver D V T"
  from ticking_archiver.archive_safe_by_second [OF this assms(5,3) fitting_any assms(4,6-8)] show ?thesis .
qed

section \<open>The archiver in memory\<close>

text \<open>A message is its own text, and the empty text is malformed.\<close>

definition mem_archiver :: "bool \<Rightarrow> mem archive_env" where
  "mem_archiver reliable =
     \<lparr>ar_settings = default_settings\<lparr>snapshot_batch_size := 2\<rparr>,
      ar_loads = (\<lambda>s. if s = [] then Inl (ValueError [Lit ''Expecting value'']) else Inr (PStr s)),
      ar_dumps = (\<lambda>v. case v of PStr s \<Rightarrow> Inr (filter (\<lambda>c. c \<noteq> CHR 0x0A) s) | _ \<Rightarrow> Inl TypeError),
      ar_env = mem_env, ar_list_buckets = returnM [], ar_create_bucket = (\<lambda>_. returnM ()),
      ar_start = (\<lambda>_ _ _. returnM ()), ar_stop = returnM (),
      ar_put_object = (\<lambda>key body meta. mem_do reliable (\<lambda>b. b\<lparr>b_objects := (b_objects b)(key \<mapsto> body)\<rparr>)),
      ar_commit = (\<lambda>pos. mem_do reliable (\<lambda>b. b\<lparr>b_offsets :=
         (b_offsets b)(kafka_archiver_group default_settings := pos)\<rparr>))\<rparr>"

interpretation mem_archiver: archiver_laws "mem_archiver reliable" mem_state for reliable
  by (intro archiver_laws.intro archiver_laws_axioms.intro)
    (auto simp: mem_archiver_def mem_env.env_laws_axioms io_simps split: pyval.splits dest!: mem_do_any)

lemma mem_archiver_up: "archive_up (mem_archiver True)"
  by (auto simp: archive_up_def mem_archiver_def mem_do_def mem_env_def io_simps split: if_splits)

text \<open>A clock that shows another second whenever it is read.\<close>

definition mem_ticking :: "bool \<Rightarrow> mem archive_env" where
  "mem_ticking reliable = (mem_archiver reliable)\<lparr>ar_env := mem_env\<lparr>time_time :=
     (\<lambda>w. (Fin (of_nat (Suc (mem_seed w))), w\<lparr>mem_seed := Suc (mem_seed w)\<rparr>))\<rparr>\<rparr>"

lemma mem_do_seed: "mem_do reliable f w = (q, w') \<Longrightarrow> mem_seed w' = mem_seed w"
  by (auto simp: mem_do_def mem_op_def Let_def split: if_splits list.splits fault.splits)

interpretation mem_ticking: ticking_archiver "mem_ticking reliable" mem_state "\<lambda>w. int (mem_seed w)" for reliable
proof -
  have "env_laws (ar_env (mem_ticking reliable)) mem_state"
    using mem_env.env_laws_axioms by (simp add: mem_ticking_def env_laws_def)
  moreover have "archiver_laws_axioms (mem_ticking reliable) mem_state"
    using mem_archiver.archiver_laws_axioms [of reliable] by (simp add: archiver_laws_def archiver_laws_axioms_def mem_ticking_def)
  moreover have "ticking_archiver_axioms (mem_ticking reliable) (\<lambda>w. int (mem_seed w))"
  proof (rule ticking_archiver_axioms.intro)
    show "int (mem_seed w) < ts \<and> int (mem_seed (snd (time_time (ar_env (mem_ticking reliable)) w))) = ts"
      if "int_of_float (fst (time_time (ar_env (mem_ticking reliable)) w)) = Inr ts" for w ts
    proof -
      have "\<lfloor>of_nat (Suc n) :: rat\<rfloor> = int n + 1" for n by simp
      then show ?thesis using that by (simp add: mem_ticking_def split: if_splits del: of_nat_Suc)
    qed
  qed (auto simp: mem_ticking_def mem_archiver_def mem_env_def dest!: mem_do_seed)
  ultimately show "ticking_archiver (mem_ticking reliable) mem_state (\<lambda>w. int (mem_seed w))"
    by (simp add: ticking_archiver_def archiver_laws_def)
qed

lemma mem_ticking_up: "archive_up (mem_ticking True)"
  by (auto simp: archive_up_def mem_archiver_def mem_ticking_def mem_do_def mem_env_def io_simps split: if_splits)

text \<open>A topic with two partitions of two messages.\<close>

definition sample_topic :: "kafka_msg list" where
  "sample_topic = map (\<lambda>(c, p, n). \<lparr>km_value = [c], km_partition = p, km_offset = n\<rparr>)
     [(CHR ''a'', 0, 0), (CHR ''b'', 0, 1), (CHR ''c'', 1, 0), (CHR ''d'', 1, 1)]"

lemma sample_topic_order: "in_order sample_topic"
  by (simp add: sample_topic_def)

lemma sample_topic_differ: "keys_differ (mem_ticking reliable) mem_state (\<lambda>w. int (mem_seed w)) sample_topic"
  by (simp add: keys_differ_def mem_ticking.ticking_archiver_axioms)

lemma sample_topic_parsed:
  "archive_offset (mem_ticking reliable) (mem_state mem_init) (km_partition m) \<le> km_offset m"
  "m \<in> set sample_topic \<Longrightarrow> \<exists>e. ar_loads (mem_ticking reliable) (km_value m) = Inr e"
  by (auto simp: sample_topic_def mem_ticking_def mem_archiver_def mem_init_def)

lemmas archive_eval = archive_def archive_shutdown_def ensure_bucket_def sample_topic_def mem_archiver_def mem_ticking_def
  io_simps bindM_def tryM_def archive_event_def flush_batch_def upload_batch_to_s3_def mem_do_def mem_op_def
  mem_init_def mem_env_def Let_def default_settings_def delivered_def

section \<open>Properties\<close>

text \<open>
  C18. The archive is complete up to the committed offsets: whatever uploads and commits fail, and
  whenever the archiver stops, every well-formed message whose offset is committed for its partition is a
  line of an object in S3, so a restart from the committed offsets misses nothing.  The uploads must
  not use a key twice: no two messages of the run share an offset, as within one partition, or the clock
  shows another second for every upload.
\<close>

theorem committed_events_archived:
  assumes "archiver_laws D V" and "keys_differ D V T msgs" and "in_order msgs"
    and "\<And>m. m \<in> set msgs \<Longrightarrow> archive_offset D (V w) (km_partition m) \<le> km_offset m"
    and "archive D msgs (archive_offset D (V w)) w = (r, w')"
    and "m \<in> set msgs" and "ar_loads D (km_value m) = Inr event"
    and "km_offset m < archive_offset D (V w') (km_partition m)"
  shows "\<exists>key. in_object D (V w') m key"
  by (rule archive_safe_any [OF assms])

theorem committed_events_archived_witness:
  "\<exists>w'. archive (mem_ticking False) sample_topic (\<lambda>_. 0) (mem_init\<lparr>mem_faults := [Late]\<rparr>) = (Inr (), w') \<and>
     (\<forall>m \<in> set sample_topic. km_offset m < archive_offset (mem_ticking False) (mem_state w') (km_partition m) \<and>
       (\<exists>key. in_object (mem_ticking False) (mem_state w') m key))"
proof -
  let ?w = "mem_init\<lparr>mem_faults := [Late]\<rparr>"
  obtain w' where run: "archive (mem_ticking False) sample_topic (\<lambda>_. 0) ?w = (Inr (), w')"
    "\<forall>m \<in> set sample_topic. km_offset m < archive_offset (mem_ticking False) (mem_state w') (km_partition m)"
    by (simp add: archive_eval)
  have start: "archive_offset (mem_ticking False) (mem_state ?w) = (\<lambda>_. 0)" by (simp add: mem_init_def)
  then have run': "archive (mem_ticking False) sample_topic (archive_offset (mem_ticking False) (mem_state ?w)) ?w = (Inr (), w')"
    using run(1) by metis
  have low: "archive_offset (mem_ticking False) (mem_state ?w) (km_partition m) \<le> km_offset m" for m
    unfolding start by simp
  have "\<exists>key. in_object (mem_ticking False) (mem_state w') m key" if m: "m \<in> set sample_topic" for m
    using committed_events_archived [OF mem_ticking.archiver_laws_axioms sample_topic_differ sample_topic_order low run' m]
      sample_topic_parsed(2) [OF m, of False] run(2) m by blast
  with run show ?thesis by blast
qed




text \<open>
  C24. An uploaded batch reads back: the object under the returned key, split into lines and
  parsed, is the list of events in order, and the key tells the last offset.
\<close>

theorem uploaded_batch_reads_back:
  assumes "archiver_laws D V" and "events \<noteq> []"
    and "\<And>v s. v \<in> set events \<Longrightarrow> ar_dumps D v = Inr s \<Longrightarrow> ar_loads D s = Inr v"
    and "upload_batch_to_s3 D events n w = (Inr key, w')"
  shows "\<exists>body. V w' = (V w)\<lparr>b_objects := (b_objects (V w))(key \<mapsto> body)\<rparr> \<and>
    mapR (ar_loads D) (split_lines body) = Inr events \<and> key_offset key = n"
proof -
  obtain lines where up: "key_offset key = n" "mapR (ar_dumps D) events = Inr lines"
    "V w' = (V w)\<lparr>b_objects := (b_objects (V w))(key \<mapsto> join_lines lines)\<rparr>"
    by (rule archiver_laws.upload_effect [OF assms(1,4)]) auto
  have lines: "lines = map (\<lambda>v. projr (ar_dumps D v)) events"
    and ok: "\<And>v. v \<in> set events \<Longrightarrow> ar_dumps D v = Inr (projr (ar_dumps D v))"
    using up(2) by (auto simp: mapR_Inr_iff)
  have "mapR (ar_loads D) lines = Inr events"
    using assms(3) ok by (fastforce simp: lines mapR_Inr_iff intro: map_idI [symmetric])
  then show ?thesis
    using up archiver_laws.uploaded_lines(1) [OF assms(1) up(2) assms(2)] by auto
qed

theorem uploaded_batch_reads_back_witness:
  "\<exists>key w' body. upload_batch_to_s3 (mem_archiver True) [PStr ''x'', PStr ''y''] 7 mem_init = (Inr key, w') \<and>
     b_objects (mem_state w') key = Some body \<and>
     mapR (ar_loads (mem_archiver True)) (split_lines body) = Inr [PStr ''x'', PStr ''y''] \<and> key_offset key = 7"
proof -
  obtain key w' where run: "upload_batch_to_s3 (mem_archiver True) [PStr ''x'', PStr ''y''] 7 mem_init = (Inr key, w')"
    by (simp add: upload_batch_to_s3_def mem_archiver_def mem_do_def mem_init_def mem_env_def bindM_def io_simps Let_def)
  have "ar_dumps (mem_archiver True) v = Inr s \<Longrightarrow> ar_loads (mem_archiver True) s = Inr v"
    if "v \<in> set [PStr ''x'', PStr ''y'']" for v s
    using that by (auto simp: mem_archiver_def)
  from uploaded_batch_reads_back [OF mem_archiver.archiver_laws_axioms list.distinct(2) this run]
  obtain body where "mem_state w' = (mem_state mem_init)\<lparr>b_objects := (b_objects (mem_state mem_init))(key \<mapsto> body)\<rparr>"
    "mapR (ar_loads (mem_archiver True)) (split_lines body) = Inr [PStr ''x'', PStr ''y'']" "key_offset key = 7"
    by blast
  then have "b_objects (mem_state w') key = Some body \<and>
      mapR (ar_loads (mem_archiver True)) (split_lines body) = Inr [PStr ''x'', PStr ''y''] \<and> key_offset key = 7"
    by (simp del: mapR.simps)
  with run show ?thesis by blast
qed

text \<open>
  A malformed message blocks the archiver: when the next message is not JSON, the archiver
  raises without archiving or committing anything, so it meets the same message again whenever
  it is started.
\<close>

theorem malformed_message_blocks_archiver:
  assumes "archiver_laws D V" and "ar_loads D (km_value msg) = Inl e"
  shows "\<exists>e' w'. archive D (msg # msgs) pos w = (Inl e', w') \<and> V w' = V w"
proof -
  obtain w1 where w1: "ensure_bucket D w = (Inr (), w1)" "V w1 = V w"
    using archiver_laws.ensure_bucket_view [OF assms(1)] by (metis surj_pair)
  obtain q w2 where start: "ar_start D (kafka_topic_orders (ar_settings D)) (redpanda_brokers (ar_settings D))
      (kafka_archiver_group (ar_settings D)) w1 = (q, w2)" by (metis surj_pair)
  obtain p w3 where stop: "ar_stop D w2 = (p, w3)" by (metis surj_pair)
  have "V w2 = V w" "V w3 = V w"
    using archiver_laws.start_view [OF assms(1) start] archiver_laws.stop_view [OF assms(1) stop] w1(2) by simp_all
  then show ?thesis
    using w1(1) start stop assms(2) by (cases q; cases p) (auto simp: archive_def archive_shutdown_def bindM_def io_simps)
qed

theorem malformed_message_blocks_archiver_witness:
  "\<exists>e w'. archive (mem_archiver True) (\<lparr>km_value = [], km_partition = 0, km_offset = 0\<rparr> # sample_topic) (\<lambda>_. 0) mem_init = (Inl e, w') \<and>
     mem_state w' = mem_state mem_init"
proof -
  have "ar_loads (mem_archiver True) (km_value \<lparr>km_value = [], km_partition = 0, km_offset = 0\<rparr>) =
      Inl (ValueError [Lit ''Expecting value''])"
    by (simp add: mem_archiver_def)
  from malformed_message_blocks_archiver [OF mem_archiver.archiver_laws_axioms this, of sample_topic "\<lambda>_. 0" mem_init]
  show ?thesis .
qed

end
