(* ===== verification/Provenance.thy ===== *)
theory Provenance
  imports Consumer
begin

text \<open>
  Where what the read model shows comes from.  A message of the topic carries a recorded event when
  a document of the event store agrees with it on the fields of an event, as orjson prints them and
  the parser reads them back.  Rows and items are backed by the store when some recorded event says
  what each column shows.  Projecting recorded events keeps the tables backed, in whatever order
  they come and however often.
\<close>

section \<open>JSON values\<close>

text \<open>The values a JSON parser returns; the values orjson prints; and what is read of a value that orjson
  has printed, which prints a float that is not finite as null.\<close>

fun json_val :: "pyval \<Rightarrow> bool" where
  "json_val (PTime t) = False"
| "json_val (PDecimal q) = False"
| "json_val (PFloat x) = (case x of Fin _ \<Rightarrow> True | _ \<Rightarrow> False)"
| "json_val (PList vs) = list_all json_val vs"
| "json_val (PDict d) = (distinct (map fst d) \<and> list_all (\<lambda>kv. json_val (snd kv)) d)"
| "json_val _ = True"

fun printable :: "pyval \<Rightarrow> bool" where
  "printable (PTime t) = False"
| "printable (PDecimal q) = False"
| "printable (PList vs) = list_all printable vs"
| "printable (PDict d) = (distinct (map fst d) \<and> list_all (\<lambda>kv. printable (snd kv)) d)"
| "printable _ = True"

fun orj :: "pyval \<Rightarrow> pyval" where
  "orj (PFloat x) = (case x of Fin _ \<Rightarrow> PFloat x | _ \<Rightarrow> PNone)"
| "orj (PList vs) = PList (map orj vs)"
| "orj (PDict d) = PDict (map (\<lambda>kv. (fst kv, orj (snd kv))) d)"
| "orj v = v"

lemma json_val_orj: "printable v \<Longrightarrow> json_val (orj v)"
proof (induction v rule: orj.induct)
  case (3 d)
  then show ?case by (auto simp: list_all_iff comp_def)
qed (auto simp: list_all_iff split: pyfloat.splits)

lemma orj_json_val [simp]: "json_val v \<Longrightarrow> orj v = v"
proof (induction v rule: orj.induct)
  case (3 d)
  then have "map (\<lambda>kv. (fst kv, orj (snd kv))) d = map id d"
    by (intro map_cong) (auto simp: list_all_iff)
  then show ?case by simp
qed (auto simp: list_all_iff intro: map_idI split: pyfloat.splits)

lemma map_of_map_snd: "map_of (map (\<lambda>kv. (fst kv, f (snd kv))) d) k = map_option f (map_of d k)"
  by (induction d) auto

lemma json_val_dict_set:
  assumes "json_val (PDict d)" and "json_val v"
  shows "json_val (PDict (dict_set d k v))"
proof -
  have "list_all (\<lambda>kv. json_val (snd kv)) (AList.update k v d)"
    using assms by (induction d) auto
  then show ?thesis
    using assms(1) by (simp add: dict_set_def distinct_update)
qed

lemma json_val_item: "json_val (PDict d) \<Longrightarrow> map_of d k = Some v \<Longrightarrow> json_val v"
  by (auto simp: list_all_iff dest!: map_of_SomeD)

section \<open>Recorded events\<close>

definition event_keys :: "string list" where
  "event_keys = [''event_id'', ''event_type'', ''aggregate_id'', ''aggregate_version'', ''occurred_at'',
     ''correlation_id'', ''payload'']"

definition recorded_event :: "pydict list \<Rightarrow> pydict \<Rightarrow> bool" where
  "recorded_event ds ev \<longleftrightarrow> json_val (PDict ev) \<and>
     (\<exists>d \<in> set ds. \<forall>k \<in> set event_keys. map_of ev k = map_option orj (map_of d k))"

text \<open>The documents say that an order had this event at this version.\<close>

definition says :: "pydict list \<Rightarrow> string \<Rightarrow> int \<Rightarrow> order_event \<Rightarrow> bool" where
  "says ds a v e \<longleftrightarrow> (\<exists>d \<in> set ds. map_of d ''aggregate_id'' = Some (PStr a) \<and> decode d = Some (v, e))"

definition row_backed :: "pydict list \<Rightarrow> order_row \<Rightarrow> bool" where
  "row_backed ds r \<longleftrightarrow>
     (\<exists>v. says ds (or_order_id r) v (Created (or_customer_id r) (or_customer_email r))) \<and>
     (\<exists>e. says ds (or_order_id r) (or_version r) e) \<and>
     (\<exists>v e. says ds (or_order_id r) v e \<and> or_status r = order_status_value (next_status PENDING e)) \<and>
     (\<forall>p. or_payment_id r = Some p \<longrightarrow> (\<exists>v. says ds (or_order_id r) v (Paid p))) \<and>
     (\<forall>t. or_tracking_id r = Some t \<longrightarrow> (\<exists>v. says ds (or_order_id r) v (Shipped t)))"

definition item_backed :: "pydict list \<Rightarrow> item_row \<Rightarrow> bool" where
  "item_backed ds i \<longleftrightarrow>
     (\<exists>v it x. says ds (ir_order_id i) v (ItemAdded it) \<and> it_product_id it = ir_product_id i \<and>
        it_quantity it = ir_quantity i \<and> it_line_total it = Fin x \<and> ir_line_total i = round_scale 2 x) \<and>
     (\<exists>v it x. says ds (ir_order_id i) v (ItemAdded it) \<and> it_product_id it = ir_product_id i \<and>
        it_product_name it = ir_product_name i \<and> it_unit_price it = Fin x \<and> ir_unit_price i = round_scale 2 x)"

definition tables_backed :: "pydict list \<Rightarrow> pgdb \<Rightarrow> bool" where
  "tables_backed ds db \<longleftrightarrow> (\<forall>r \<in> set (pg_orders db). row_backed ds r) \<and> (\<forall>i \<in> set (pg_items db). item_backed ds i)"

text \<open>The documents of a later state: none is lost, and none changes but for its expiry.\<close>

definition docs_kept :: "pydict list \<Rightarrow> pydict list \<Rightarrow> bool" where
  "docs_kept ds ds' \<longleftrightarrow> (\<forall>d \<in> set ds. \<exists>d' \<in> set ds'. \<forall>k. k \<noteq> ''expires_at'' \<longrightarrow> map_of d' k = map_of d k)"

lemma docs_kept_refl [simp]: "docs_kept ds ds"
  by (auto simp: docs_kept_def)

lemma docs_kept_append [simp]: "docs_kept ds (ds @ es)"
  by (auto simp: docs_kept_def)

lemma docs_kept_trans: "docs_kept a b \<Longrightarrow> docs_kept b c \<Longrightarrow> docs_kept a c"
  unfolding docs_kept_def by metis

definition same_docs :: "pydict list \<Rightarrow> pydict list \<Rightarrow> bool" where
  "same_docs = list_all2 (\<lambda>d d'. \<forall>k. k \<noteq> ''expires_at'' \<longrightarrow> map_of d' k = map_of d k)"

lemma same_docs_kept: "same_docs ds ds' \<Longrightarrow> docs_kept ds ds'"
  unfolding same_docs_def docs_kept_def by (induction rule: list_all2_induct) auto

lemma same_docs_back: "same_docs ds ds' \<Longrightarrow> d' \<in> set ds' \<Longrightarrow>
    \<exists>d \<in> set ds. \<forall>k. k \<noteq> ''expires_at'' \<longrightarrow> map_of d' k = map_of d k"
  unfolding same_docs_def by (induction rule: list_all2_induct) auto

lemma same_docs_stamp: "length hit = length (b_docs b) \<Longrightarrow> same_docs (b_docs b) (b_docs (stamp_docs a t hit b))"
  by (auto simp: same_docs_def stamp_docs_def list_all2_conv_all_nth dict_simps)

lemma same_docs_map:
  assumes "same_docs ds ds'" and "\<And>d d'. (\<forall>k. k \<noteq> ''expires_at'' \<longrightarrow> map_of d' k = map_of d k) \<Longrightarrow> f d' = f d"
  shows "map f ds' = map f ds"
  using assms(1) unfolding same_docs_def
  by (induction rule: list_all2_induct) (use assms(2) in auto)

lemma same_docs_filter:
  assumes "same_docs ds ds'" and "\<And>d d'. (\<forall>k. k \<noteq> ''expires_at'' \<longrightarrow> map_of d' k = map_of d k) \<Longrightarrow> P d' = P d"
  shows "same_docs (filter P ds) (filter P ds')"
  using assms(1) unfolding same_docs_def
  by (induction rule: list_all2_induct) (use assms(2) in auto)

lemma same_doc_decode:
  assumes "\<forall>k. k \<noteq> ''expires_at'' \<longrightarrow> map_of d' k = map_of d k"
  shows "decode d' = decode d" "doc_version d' = doc_version d" "wf_doc d' = wf_doc d" "version_key d' = version_key d"
    "matches (''aggregate_id'', a) d' = matches (''aggregate_id'', a) d"
proof -
  show dec: "decode d' = decode d" by (rule decode_cong) (use assms in auto)
  show "doc_version d' = doc_version d" "wf_doc d' = wf_doc d" "version_key d' = version_key d"
    "matches (''aggregate_id'', a) d' = matches (''aggregate_id'', a) d"
    using assms dec by (simp_all add: doc_version_def wf_doc_def decode_str_def version_key_def matches_def)
qed

text \<open>The expiry of documents is invisible to the event store.\<close>

lemma same_docs_history:
  assumes "same_docs (b_docs b) (b_docs b')"
  shows "order_history b' a = order_history b a"
proof -
  have agg: "same_docs (agg_docs b a) (agg_docs b' a)"
    unfolding agg_docs_def by (rule same_docs_filter [OF assms same_doc_decode(5)])
  have "map (\<lambda>d. (doc_version d, the (decode d))) (agg_docs b' a) = map (\<lambda>d. (doc_version d, the (decode d))) (agg_docs b a)"
    by (rule same_docs_map [OF agg]) (simp only: same_doc_decode)
  then have "map snd (sort_key fst (map (\<lambda>d. (doc_version d, the (decode d))) (agg_docs b' a))) =
      map snd (sort_key fst (map (\<lambda>d. (doc_version d, the (decode d))) (agg_docs b a)))"
    by simp
  then show ?thesis
    unfolding order_history_def history_def by (simp add: sort_key_map comp_def)
qed

lemma same_docs_store:
  assumes "same_docs (b_docs b) (b_docs b')" and "b_indexes b' = b_indexes b"
  shows "store_ok b' = store_ok b"
proof -
  have "map version_key (b_docs b') = map version_key (b_docs b)"
    "map (\<lambda>d. map_of d ''event_id'') (b_docs b') = map (\<lambda>d. map_of d ''event_id'') (b_docs b)"
    "map wf_doc (b_docs b') = map wf_doc (b_docs b)"
    by (rule same_docs_map [OF assms(1)]; simp add: same_doc_decode)+
  moreover have "(\<forall>d \<in> set ds. wf_doc d) \<longleftrightarrow> False \<notin> set (map wf_doc ds)" for ds by auto
  ultimately show ?thesis
    unfolding store_ok_def store_keys_def by (simp add: same_docs_history [OF assms(1)] assms(2) del: set_map)
qed

lemma recorded_event_mono: "recorded_event ds ev \<Longrightarrow> docs_kept ds ds' \<Longrightarrow> recorded_event ds' ev"
proof -
  have "''expires_at'' \<notin> set event_keys" by (simp add: event_keys_def)
  then show "recorded_event ds ev \<Longrightarrow> docs_kept ds ds' \<Longrightarrow> recorded_event ds' ev"
    unfolding recorded_event_def docs_kept_def by metis
qed

lemma says_mono: "says ds a v e \<Longrightarrow> docs_kept ds ds' \<Longrightarrow> says ds' a v e"
proof -
  assume "says ds a v e" "docs_kept ds ds'"
  then obtain d d' where d: "map_of d ''aggregate_id'' = Some (PStr a)" "decode d = Some (v, e)" "d' \<in> set ds'"
    "\<And>k. k \<noteq> ''expires_at'' \<Longrightarrow> map_of d' k = map_of d k"
    by (auto simp: says_def docs_kept_def)
  have "decode d' = decode d" by (rule decode_cong) (use d(4) in auto)
  moreover have "map_of d' ''aggregate_id'' = map_of d ''aggregate_id''" using d(4) by simp
  ultimately show ?thesis using d unfolding says_def by (intro bexI [of _ d']) simp_all
qed

lemma tables_backed_mono:
  assumes "tables_backed ds db" and "docs_kept ds ds'"
  shows "tables_backed ds' db"
proof -
  have mono: "says ds a v e \<Longrightarrow> says ds' a v e" for a v e
    by (rule says_mono [OF _ assms(2)])
  have "row_backed ds' r" if "row_backed ds r" for r
    using that unfolding row_backed_def by (intro conjI) (blast intro: mono)+
  moreover have "item_backed ds' i" if "item_backed ds i" for i
    using that unfolding item_backed_def by (intro conjI) (blast intro: mono)+
  ultimately show ?thesis using assms(1) by (simp add: tables_backed_def)
qed

section \<open>Projecting recorded events\<close>

lemma update_orders_backed:
  assumes "update_orders oid f db = Inr db'" and "tables_backed ds db"
    and "\<And>r r'. oid = Some (or_order_id r) \<Longrightarrow> row_backed ds r \<Longrightarrow> f r = Inr r' \<Longrightarrow> row_backed ds r'"
  shows "tables_backed ds db'"
proof -
  have "row_backed ds (projr (f r))" if r: "r \<in> set (pg_orders db)" "oid = Some (or_order_id r)" for r
  proof -
    obtain r' where "f r = Inr r'" using assms(1) r by (auto simp: update_orders_Inr)
    then show ?thesis using assms(2) assms(3) [OF r(2), of r'] r(1) by (simp add: tables_backed_def)
  qed
  then show ?thesis using assms(1,2) unfolding update_orders_Inr tables_backed_def by auto
qed

lemma set_status_backed:
  assumes "set_status (Some a) st f (Some v) now db = Inr db'" and "tables_backed ds db"
    and "says ds a v e" and "st = order_status_value (next_status PENDING e)"
    and "\<And>r. row_backed ds r \<Longrightarrow> or_order_id r = a \<Longrightarrow> row_backed ds (f r) \<and> or_order_id (f r) = a"
  shows "tables_backed ds db'"
proof (rule update_orders_backed [OF assms(1) [unfolded set_status_def] assms(2)])
  fix r r' assume "Some a = Some (or_order_id r)" "row_backed ds r"
    and run: "bindR (not_null (Some v)) (\<lambda>v. Inr ((f r)\<lparr>or_status := st, or_version := v, or_updated_at := Some now\<rparr>)) = Inr r'"
  then have "row_backed ds (f r)" "or_order_id (f r) = a" using assms(5) [of r] by simp_all
  moreover have "r' = (f r)\<lparr>or_status := st, or_version := v, or_updated_at := Some now\<rparr>"
    using run by (simp add: not_null_def)
  ultimately show "row_backed ds r'"
    using assms(3,4) unfolding row_backed_def by auto
qed

lemma insert_order_backed:
  assumes "insert_order (Some a) (Some c) (Some m) (Some v) now db = Inr db'" and "tables_backed ds db"
    and "says ds a v (Created c m)"
  shows "tables_backed ds db'"
proof -
  have "row_backed ds (new_row a c m v now)"
    using assms(3) unfolding row_backed_def
    by (auto simp: new_row_def intro!: exI [of _ v] exI [of _ "Created c m"])
  then show ?thesis using assms(1,2) by (auto simp: insert_order_Inr tables_backed_def split: if_splits)
qed

lemma upsert_item_backed:
  assumes "upsert_item (Some a) (Some (it_product_id it)) (Some (it_product_name it)) (Some (it_quantity it)) (Some u) (Some l) db = Inr db'"
    and "tables_backed ds db" and "says ds a v (ItemAdded it)" and "it_unit_price it = Fin u" and "it_line_total it = Fin l"
  shows "tables_backed ds db'"
proof -
  let ?new = "\<lparr>ir_order_id = a, ir_product_id = it_product_id it, ir_product_name = it_product_name it,
    ir_quantity = it_quantity it, ir_unit_price = round_scale 2 u, ir_line_total = round_scale 2 l\<rparr>"
  have "item_backed ds ?new"
    using assms(3-5) unfolding item_backed_def by (auto intro!: exI [of _ v] exI [of _ it])
  moreover have "item_backed ds (put_item a (it_product_id it) (it_quantity it) (round_scale 2 l) i)" if "item_backed ds i" for i
    using that assms(3,5) unfolding item_backed_def put_item_def by auto blast
  ultimately show ?thesis
    using assms(1,2) unfolding upsert_item_Inr by (auto simp: tables_backed_def put_items_def split: if_splits)
qed

lemma set_total_backed:
  assumes "set_total (Some a) (Some v) now db = Inr db'" and "tables_backed ds db" and "says ds a v e"
  shows "tables_backed ds db'"
proof (rule update_orders_backed [OF assms(1) [unfolded set_total_def] assms(2)])
  fix r r' assume a: "Some a = Some (or_order_id r)" and r: "row_backed ds r"
    and run: "bindR (numeric_col 12 2 (item_sum db (or_order_id r))) (\<lambda>amt. bindR (not_null (Some v)) (\<lambda>v.
        Inr (r\<lparr>or_total_amount := amt, or_version := v, or_updated_at := Some now\<rparr>))) = Inr r'"
  then obtain amt where "r' = r\<lparr>or_total_amount := amt, or_version := v, or_updated_at := Some now\<rparr>"
    by (auto simp: bindR_Inr_iff not_null_def)
  then show "row_backed ds r'" using a r assms(3) unfolding row_backed_def by auto
qed

lemma wf_doc_id: "wf_doc d \<Longrightarrow> \<exists>a. map_of d ''aggregate_id'' = Some (PStr a)"
  unfolding wf_doc_def decode_str_def by (cases "map_of d ''aggregate_id''"; cases "the (map_of d ''aggregate_id'')") auto

context codec_laws
begin

lemma project_backed:
  assumes "project_doc A ev now db = Inr db'" and "recorded_event ds ev" and "\<forall>d \<in> set ds. wf_doc d"
    and "tables_backed ds db"
  shows "tables_backed ds db'"
proof -
  obtain d where d: "d \<in> set ds" "\<And>k. k \<in> set event_keys \<Longrightarrow> map_of ev k = map_option orj (map_of d k)"
    using assms(2) by (auto simp: recorded_event_def)
  then have wf: "wf_doc d" using assms(3) by blast
  obtain a where a: "map_of d ''aggregate_id'' = Some (PStr a)"
    using wf_doc_id [OF wf] by blast
  obtain v t p e where t: "map_of d ''aggregate_version'' = Some (PInt v)" "map_of d ''event_type'' = Some (PStr t)"
    "map_of d ''payload'' = Some (PDict p)" "decode_payload t p = Some e" "decode d = Some (v, e)"
    using wf by (auto simp: wf_doc_def decode_Some)
  have says: "says ds a v e"
    using a t(5) d(1) by (auto simp: says_def)
  let ?p = "PDict (map (\<lambda>kv. (fst kv, orj (snd kv))) p)"
  have run: "project_statements A (PStr t) (PStr a) ?p (PInt v) now db = Inr db'"
    using assms(1) d(2) [of "''aggregate_id''"] d(2) [of "''aggregate_version''"] d(2) [of "''event_type''"]
      d(2) [of "''payload''"] a t by (simp add: project_doc_def dict_item_def event_keys_def)
  have item: "dict_item (map (\<lambda>kv. (fst kv, orj (snd kv))) p) k = Inr (orj x)" if "map_of p k = Some x" for k x
    using that by (simp add: dict_item_def map_of_map_snd)
  have st: "tables_backed ds db'" if "set_status (Some a) st f (Some v) now db = Inr db'"
    "st = order_status_value (next_status PENDING e)"
    "\<And>r. row_backed ds r \<Longrightarrow> or_order_id r = a \<Longrightarrow> row_backed ds (f r) \<and> or_order_id (f r) = a" for st f
    using set_status_backed [OF that(1) assms(4) says that(2)] that(3) by blast
  have num: "\<exists>q. u = Fin q \<and> x = q" if "enc_numeric A (orj (PFloat u)) = Inr (Some x)" for u x
    using that numeric_float numeric_null by (cases u) auto
  note red = bindR_Inr_iff item dict_simps
  note run = run [unfolded project_statements_def] and dec = decode_payload_SomeD [OF t(4)]
  show ?thesis
  proof (cases e)
    case (Created c m)
    then have "insert_order (Some a) (Some c) (Some m) (Some v) now db = Inr db'"
      using run dec by (auto simp: red dest!: text_any int4_any)
    then show ?thesis using insert_order_backed [OF _ assms(4)] says Created by blast
  next
    case (ItemAdded it)
    have it: "map_of p ''product_id'' = Some (PStr (it_product_id it))" "map_of p ''product_name'' = Some (PStr (it_product_name it))"
      "map_of p ''quantity'' = Some (PInt (it_quantity it))" "map_of p ''unit_price'' = Some (PFloat (it_unit_price it))"
      "map_of p ''line_total'' = Some (PFloat (it_line_total it))" and ty: "t = event_type_value ORDER_ITEM_ADDED"
      using dec ItemAdded by (simp_all add: decode_item_Some)
    have "\<exists>oid pid name q u l db1 ver. enc_text A (PStr a) = Inr oid \<and> enc_text A (PStr (it_product_id it)) = Inr pid \<and>
        enc_text A (PStr (it_product_name it)) = Inr name \<and> enc_int4 A (PInt (it_quantity it)) = Inr q \<and>
        enc_numeric A (orj (PFloat (it_unit_price it))) = Inr u \<and> enc_numeric A (orj (PFloat (it_line_total it))) = Inr l \<and>
        upsert_item oid pid name q u l db = Inr db1 \<and> enc_int4 A (PInt v) = Inr ver \<and> set_total oid ver now db1 = Inr db'"
      using run by (simp add: ty item [OF it(1)] item [OF it(2)] item [OF it(3)] item [OF it(4)] item [OF it(5)]
        bindR_Inr_iff dict_simps del: orj.simps(1))
    then obtain q u l db1 where up: "upsert_item (Some a) (Some (it_product_id it)) (Some (it_product_name it)) q u l db = Inr db1"
      "set_total (Some a) (Some v) now db1 = Inr db'" "q = Some (it_quantity it)"
      "enc_numeric A (orj (PFloat (it_unit_price it))) = Inr u" "enc_numeric A (orj (PFloat (it_line_total it))) = Inr l"
      using text_any int4_any by (metis (no_types, lifting))
    then obtain u' l' where ul: "u = Some u'" "l = Some l'" by (auto simp: upsert_item_Inr)
    have "it_unit_price it = Fin u'" "it_line_total it = Fin l'"
      using num up(4,5) ul by blast+
    then have "tables_backed ds db1"
      using upsert_item_backed [OF up(1) [unfolded up(3) ul] assms(4) says [unfolded ItemAdded]] by blast
    then show ?thesis using set_total_backed [OF up(2) _ says] by blast
  next
    case Confirmed
    then show ?thesis using run dec by (auto simp: red dest!: text_any int4_any intro: st)
  next
    case (Paid x)
    then have "set_status (Some a) ''PAID'' (\<lambda>r. r\<lparr>or_payment_id := Some x\<rparr>) (Some v) now db = Inr db'"
      using run dec by (auto simp: red dest!: text_any int4_any)
    then show ?thesis
      by (rule st) (use says Paid in \<open>auto simp: row_backed_def\<close>)
  next
    case (Shipped x)
    then have "set_status (Some a) ''SHIPPED'' (\<lambda>r. r\<lparr>or_tracking_id := Some x\<rparr>) (Some v) now db = Inr db'"
      using run dec by (auto simp: red dest!: text_any int4_any)
    then show ?thesis
      by (rule st) (use says Shipped in \<open>auto simp: row_backed_def\<close>)
  next
    case Delivered
    then show ?thesis using run dec by (auto simp: red dest!: text_any int4_any intro: st)
  next
    case Cancelled
    then show ?thesis using run dec by (auto simp: red dest!: text_any int4_any intro: st)
  qed
qed

end

end
