(* ===== verification/System.thy ===== *)
theory System
  imports Concurrency Retry_Handler Archiver Pipeline Provenance
begin

text \<open>
  The running system: the API's requests in their phases, the projection consumer, the retry Lambda,
  the archiver and the queries, interleaved in any order over the same services.  One invariant ties
  them together: the store is valid, every message on the topic and in the dead letter queue carries
  a recorded event that was retried at most three times, the read model shows nothing that was not
  recorded, and only documents of closed orders are marked to expire.
\<close>

section \<open>What the other components keep\<close>

text \<open>
  An invariant that a run of the retry handler keeps: what it has to be closed under.  \<open>Q\<close> holds of
  the events and retry counts that the messages of the queue carry.
\<close>

definition carries :: "'w lambda_env \<Rightarrow> (pydict \<Rightarrow> pyval \<Rightarrow> bool) \<Rightarrow> sqs_message \<Rightarrow> bool" where
  "carries L Q m \<longleftrightarrow> (\<forall>body ev. le_loads L (sm_body m) = Inr (PDict body) \<longrightarrow>
     map_of body ''event'' = Some (PDict ev) \<longrightarrow> Q ev (dict_get body ''retry_count'' (PInt 0)))"

definition lambda_keeps ::
    "'w lambda_env \<Rightarrow> (string \<Rightarrow> string \<Rightarrow> kafka_record) \<Rightarrow> (pydict \<Rightarrow> pyval \<Rightarrow> bool) \<Rightarrow> (backend \<Rightarrow> bool) \<Rightarrow> bool" where
  "lambda_keeps L rec Q I \<longleftrightarrow>
     (\<forall>b m. I b \<longrightarrow> m \<in> set (b_dlq b) \<longrightarrow> carries L Q m) \<and>
     (\<forall>b ms. I b \<longrightarrow> set ms \<subseteq> set (b_dlq b) \<longrightarrow> I (b\<lparr>b_dlq := ms\<rparr>)) \<and>
     (\<forall>b obj. I b \<longrightarrow> I (b\<lparr>b_objects := obj\<rparr>)) \<and>
     (\<forall>b ev n n' data. I b \<longrightarrow> Q ev n \<longrightarrow> py_ge n MAX_RETRIES = Inr False \<longrightarrow> py_succ n = Inr n' \<longrightarrow>
        le_dumps L (proxy_body (dict_get ev ''aggregate_id'' (PStr ''unknown'')) (PDict (dict_set ev ''retry_count'' n'))) = Inr data \<longrightarrow>
        I (b\<lparr>b_topic := b_topic b @ [rec (proxy_url L) data]\<rparr>))"

context lambda_laws
begin

lemma urlopen_keeps:
  assumes "\<And>b. I b \<Longrightarrow> I (b\<lparr>b_topic := b_topic b @ [rec url data]\<rparr>)"
  shows "keepsM (\<lambda>w. I (V w)) (le_urlopen L url data)"
  by (rule keepsMI, case_tac r) (auto dest!: urlopen_ok urlopen_err intro: assms)

lemma dispose_keeps:
  assumes "lambda_keeps L rec Q I" and "Q ev n"
  shows "keepsM (\<lambda>w. I (V w)) (dispose L ev n err)"
proof -
  have put: "keepsM (\<lambda>w. I (V w)) (le_put_object L key body)" for key body
    using assms(1) by (intro keepsMI) (auto dest!: put_any simp: lambda_keeps_def)
  have send: "keepsM (\<lambda>w. I (V w)) (publish_to_kafka_via_proxy L (le_kafka_topic L)
      (dict_get ev ''aggregate_id'' (PStr ''unknown'')) (PDict (dict_set ev ''retry_count'' n')))"
    if "py_ge n MAX_RETRIES = Inr False" "py_succ n = Inr n'" for n'
    unfolding publish_to_kafka_via_proxy_def proxy_url_def [symmetric]
    using assms that by (intro keepsM_liftM_bind keeps_intros urlopen_keeps) (auto simp: lambda_keeps_def)
  show ?thesis
    unfolding dispose_def Let_def
    by (intro keepsM_liftM_bind keepsM_if keepsM_bindM keepsM_tryM keepsM_pure keepsM_effM put send)
      (simp_all add: time_view)
qed

lemma retry_message_keeps:
  assumes "lambda_keeps L rec Q I" and "carries L Q m"
  shows "keepsM (\<lambda>w. I (V w)) (retry_message L m)"
proof -
  have del: "keepsM (\<lambda>w. I (V w)) (le_delete L rh)" for rh
    using assms(1) by (intro keepsMI) (auto dest!: delete_any simp: lambda_keeps_def)
  show ?thesis
    unfolding retry_message_def
    by (intro keepsM_liftM_bind, rename_tac b e, case_tac b; case_tac e)
      (auto simp: dict_simps dict_item_def split: option.splits
        intro!: keepsM_pure keepsM_bindM del dispose_keeps [OF assms(1) assms(2) [unfolded carries_def, rule_format]])
qed

lemma handler_keeps:
  assumes "lambda_keeps L rec Q I"
  shows "keepsM (\<lambda>w. I (V w)) (handler L)"
  unfolding handler_def
proof (rule keepsM_bindM_where [where Q = "\<lambda>ms. \<forall>m \<in> set ms. carries L Q m"])
  fix w r w' assume "I (V w)" "le_receive L 10 w = (r, w')"
  then show "I (V w') \<and> (\<forall>ms. r = Inr ms \<longrightarrow> (\<forall>m \<in> set ms. carries L Q m))"
    using assms unfolding lambda_keeps_def by (cases r) (auto dest!: receive_ok receive_err)
next
  fix ms assume ok: "\<forall>m \<in> set ms. carries L Q m"
  have "keepsM (\<lambda>w. I (V w)) (retry_messages L ms i j)" for i j
    using ok by (induction ms arbitrary: i j) (auto intro!: keeps_intros retry_message_keeps [OF assms])
  then show "keepsM (\<lambda>w. I (V w)) (if ms = [] then returnM [(''retried'', PInt 0)] else retry_messages L ms 0 0)"
    by (simp add: keepsM_pure)
qed

end

context archiver_laws
begin

lemma archive_keeps:
  assumes "\<And>b obj. I b \<Longrightarrow> I (b\<lparr>b_objects := obj\<rparr>)" and "\<And>b offs. I b \<Longrightarrow> I (b\<lparr>b_offsets := offs\<rparr>)"
  shows "keepsM (\<lambda>w. I (V w)) (archive D msgs pos)"
proof -
  have bucket: "keepsM (\<lambda>w. I (V w)) (ensure_bucket D)"
    unfolding ensure_bucket_def
    by (intro keeps_intros keepsMI) (auto dest!: list_view create_view)
  have put: "keepsM (\<lambda>w. I (V w)) (ar_put_object D key body meta)" for key body meta
    using assms(1) by (intro keepsMI) (auto dest!: put_any)
  have commit: "keepsM (\<lambda>w. I (V w)) (ar_commit D n)" for n
    using assms(2) by (intro keepsMI) (auto dest!: commit_any)
  have upload: "keepsM (\<lambda>w. I (V w)) (upload_batch_to_s3 D evs n)" for evs n
    unfolding upload_batch_to_s3_def Let_def
    by (intro keeps_intros keepsM_effM put) (simp_all add: utcnow_view time_view)
  have flush: "keepsM (\<lambda>w. I (V w)) (flush_batch D st)" for st
    unfolding flush_batch_def by (intro keeps_intros upload commit)
  have loop: "keepsM (\<lambda>w. I (V w)) (archive_loop D msgs st)" for st
    by (induction msgs arbitrary: st)
      (auto simp: archive_event_def Let_def intro!: keeps_intros flush split: sum.splits)
  have start: "keepsM (\<lambda>w. I (V w)) (ar_start D t b g)" and stop: "keepsM (\<lambda>w. I (V w)) (ar_stop D)" for t b g
    by (auto intro!: keepsMI dest!: start_view stop_view)
  show ?thesis
    unfolding archive_def archive_shutdown_def
    by (intro keepsM_bindM bucket start loop) (auto intro!: keeps_intros flush stop split: option.splits)
qed

end

context query_laws
begin

lemma fetch_keeps: "keepsM (\<lambda>w. I (V w)) (qe_fetch Q f)"
  by (rule keepsMI, case_tac r) (auto dest!: fetch_ok fetch_err)

lemma get_order_keeps:
  assumes "\<And>b kv. I b \<Longrightarrow> I (b\<lparr>b_kv := kv\<rparr>)"
  shows "keepsM (\<lambda>w. I (V w)) (get_order Q oid)"
proof -
  have get: "keepsM (\<lambda>w. I (V w)) (redis_get (qe_redis Q) key)" for key
    by (rule keepsMI, case_tac r) (auto dest!: get_ok get_err)
  have setex: "keepsM (\<lambda>w. I (V w)) (redis_setex (qe_redis Q) key n v)" for key n v
    by (rule keepsMI, case_tac r) (auto dest!: setex_ok setex_err intro: assms)
  show ?thesis
    unfolding get_order_def get_order_read_def get_order_store_def
    by (auto intro!: keeps_intros get setex fetch_keeps split: option.splits list.splits sum.splits)
qed

lemma list_orders_keeps: "keepsM (\<lambda>w. I (V w)) (list_orders Q status cust n off)"
  unfolding list_orders_def Let_def by (auto intro!: keeps_intros fetch_keeps split: prod.splits)

lemma get_stats_keeps: "keepsM (\<lambda>w. I (V w)) (get_stats Q)"
  unfolding get_stats_def by (auto intro!: keeps_intros fetch_keeps split: list.splits)

end


context mongo_laws
begin

lemma get_order_events_keeps: "keepsM (\<lambda>w. I (V w)) (get_order_events M oid)"
proof -
  have "keepsM (\<lambda>w. I (V w)) (find_sorted M f k asc n)" for f k asc n
    by (rule keepsMI, case_tac r) (auto dest!: find_ok find_err)
  then show ?thesis
    unfolding get_order_events_def get_events_def by (intro keeps_intros)
qed

end

section \<open>The system\<close>

text \<open>The processes with the clients each of them has.\<close>

record 'w system =
  sy_platform :: "'w platform"
  sy_mongo :: "'w mongo_collection"
  sy_producer :: "'w kafka_producer"
  sy_redis :: "'w redis_client"
  sy_consumer :: "'w consumer_env"
  sy_lambda :: "'w lambda_env"
  sy_archiver :: "'w archive_env"
  sy_query :: "'w query_env"

abbreviation sy_publisher :: "'w system \<Rightarrow> 'w event_publisher" where
  "sy_publisher S \<equiv> \<lparr>pub_producer = sy_producer S, pub_redis = sy_redis S\<rparr>"

text \<open>
  A step: a phase of some request, the consumer on some message of the topic (Kafka may deliver a
  message again), a run of the Lambda, a run of the archiver, or a query.
\<close>

inductive system_step :: "('w \<Rightarrow> backend) \<Rightarrow> 'w system \<Rightarrow> 'w server \<Rightarrow> 'w server \<Rightarrow> bool" for V S where
  requested: "server_step (sy_platform S) (sy_mongo S) (sy_publisher S) (sy_redis S) s s' \<Longrightarrow> system_step V S s s'"
| consumed: "r \<in> set (b_topic (V (sv_world s))) \<Longrightarrow> km_value msg = kr_value r \<Longrightarrow>
     handle_message (sy_consumer S) msg pos (sv_world s) = (q, w') \<Longrightarrow> system_step V S s (s\<lparr>sv_world := w'\<rparr>)"
| retried: "handler (sy_lambda S) (sv_world s) = (ret, w') \<Longrightarrow> system_step V S s (s\<lparr>sv_world := w'\<rparr>)"
| archived: "archive (sy_archiver S) msgs pos (sv_world s) = (q, w') \<Longrightarrow> system_step V S s (s\<lparr>sv_world := w'\<rparr>)"
| queried: "get_order (sy_query S) oid (sv_world s) = (v, w') \<Longrightarrow> system_step V S s (s\<lparr>sv_world := w'\<rparr>)"
| listed: "list_orders (sy_query S) status cust n off (sv_world s) = (vs, w') \<Longrightarrow> system_step V S s (s\<lparr>sv_world := w'\<rparr>)"
| counted: "get_stats (sy_query S) (sv_world s) = (d, w') \<Longrightarrow> system_step V S s (s\<lparr>sv_world := w'\<rparr>)"
| traced: "get_order_events (sy_mongo S) oid (sv_world s) = (ds, w') \<Longrightarrow> system_step V S s (s\<lparr>sv_world := w'\<rparr>)"

section \<open>The invariant\<close>

text \<open>An order that has reached its end, and an event on its way with its retry count.\<close>

definition closed_order :: "pydict list \<Rightarrow> string \<Rightarrow> bool" where
  "closed_order ds a \<longleftrightarrow> (\<exists>v. says ds a v Delivered \<or> says ds a v Cancelled)"

definition retries_ok :: "pydict \<Rightarrow> bool" where
  "retries_ok ev \<longleftrightarrow> (\<exists>i. 0 \<le> i \<and> i \<le> MAX_RETRIES \<and> dict_get ev ''retry_count'' (PInt 0) = PInt i)"

definition circulating :: "pydict list \<Rightarrow> pydict \<Rightarrow> bool" where
  "circulating ds ev \<longleftrightarrow> recorded_event ds ev \<and> retries_ok ev"

definition expiry_ok :: "pydict list \<Rightarrow> bool" where
  "expiry_ok ds \<longleftrightarrow> (\<forall>d \<in> set ds. \<forall>a. map_of d ''expires_at'' \<noteq> None \<longrightarrow>
     map_of d ''aggregate_id'' = Some (PStr a) \<longrightarrow> closed_order ds a)"

definition topic_ok :: "'w consumer_env \<Rightarrow> pydict list \<Rightarrow> kafka_record \<Rightarrow> bool" where
  "topic_ok D ds r \<longleftrightarrow> (\<forall>ev. ce_loads D (kr_value r) = Inr (PDict ev) \<longrightarrow> circulating ds ev)"

definition dlq_ok :: "'w lambda_env \<Rightarrow> pydict list \<Rightarrow> sqs_message \<Rightarrow> bool" where
  "dlq_ok L ds = carries L (\<lambda>ev n. circulating ds ev \<and> n = dict_get ev ''retry_count'' (PInt 0))"

definition system_ok :: "'w system \<Rightarrow> backend \<Rightarrow> bool" where
  "system_ok S b \<longleftrightarrow> store_ok b \<and> rm_inv (b_tables b) \<and> columns_ok (b_tables b) \<and>
     tables_backed (b_docs b) (b_tables b) \<and> expiry_ok (b_docs b) \<and>
     (\<forall>r \<in> set (b_topic b). topic_ok (sy_consumer S) (b_docs b) r) \<and>
     (\<forall>m \<in> set (b_dlq b). dlq_ok (sy_lambda S) (b_docs b) m)"

text \<open>The events that requests hold: not yet stored, and stored but not yet published.\<close>

definition event_stored :: "pydict list \<Rightarrow> base_event \<Rightarrow> bool" where
  "event_stored ds ev \<longleftrightarrow> (\<exists>d \<in> set ds. \<forall>k \<in> set event_keys. map_of d k = map_of (model_dump ev) k)"

definition server_ok :: "('w \<Rightarrow> backend) \<Rightarrow> 'w system \<Rightarrow> 'w server \<Rightarrow> bool" where
  "server_ok V S s \<longleftrightarrow> system_ok S (V (sv_world s)) \<and>
     (\<forall>ev \<in> set (sv_prepared s). prepared_ok (V (sv_world s)) ev \<and> printable (PDict (ev_payload ev))) \<and>
     (\<forall>ev \<in> set (sv_stored s). event_stored (b_docs (V (sv_world s))) ev \<and> printable (PDict (ev_payload ev)))"

lemma circulating_mono: "circulating ds ev \<Longrightarrow> docs_kept ds ds' \<Longrightarrow> circulating ds' ev"
  unfolding circulating_def using recorded_event_mono by blast

lemma closed_order_mono: "closed_order ds a \<Longrightarrow> docs_kept ds ds' \<Longrightarrow> closed_order ds' a"
  unfolding closed_order_def using says_mono by blast

lemma event_stored_mono:
  assumes "event_stored ds ev" and "docs_kept ds ds'"
  shows "event_stored ds' ev"
proof -
  have "''expires_at'' \<notin> set event_keys" by (simp add: event_keys_def)
  then show ?thesis using assms unfolding event_stored_def docs_kept_def by metis
qed

lemma dlq_ok_mono: "dlq_ok L ds m \<Longrightarrow> docs_kept ds ds' \<Longrightarrow> dlq_ok L ds' m"
  unfolding dlq_ok_def carries_def using circulating_mono by blast

text \<open>More documents, or documents that are marked to expire, break nothing else.\<close>

lemma system_ok_docs:
  assumes "system_ok S b" and "docs_kept (b_docs b) ds" and "store_ok (b\<lparr>b_docs := ds\<rparr>)" and "expiry_ok ds"
  shows "system_ok S (b\<lparr>b_docs := ds\<rparr>)"
  using assms tables_backed_mono [OF _ assms(2)] circulating_mono [OF _ assms(2)] dlq_ok_mono [where L = "sy_lambda S", OF _ assms(2)]
  unfolding system_ok_def topic_ok_def by auto

lemma system_ok_frame:
  "system_ok S b \<Longrightarrow> system_ok S (b\<lparr>b_kv := kv\<rparr>)"
  "system_ok S b \<Longrightarrow> system_ok S (b\<lparr>b_offsets := offs\<rparr>)"
  "system_ok S b \<Longrightarrow> system_ok S (b\<lparr>b_objects := obj\<rparr>)"
  unfolding system_ok_def by (auto simp: store_ok_cong [of "b\<lparr>b_kv := kv\<rparr>" b]
    store_ok_cong [of "b\<lparr>b_offsets := offs\<rparr>" b] store_ok_cong [of "b\<lparr>b_objects := obj\<rparr>" b])

lemma system_ok_dlq:
  assumes "system_ok S b" and "\<And>m. m \<in> set ms \<Longrightarrow> m \<in> set (b_dlq b) \<or> dlq_ok (sy_lambda S) (b_docs b) m"
  shows "system_ok S (b\<lparr>b_dlq := ms\<rparr>)"
  using assms unfolding system_ok_def by (auto simp: store_ok_cong [of "b\<lparr>b_dlq := ms\<rparr>" b])

lemma system_ok_topic:
  assumes "system_ok S b" and "\<And>r. r \<in> set rs \<Longrightarrow> r \<in> set (b_topic b) \<or> topic_ok (sy_consumer S) (b_docs b) r"
  shows "system_ok S (b\<lparr>b_topic := rs\<rparr>)"
  using assms unfolding system_ok_def by (auto simp: store_ok_cong [of "b\<lparr>b_topic := rs\<rparr>" b])

section \<open>Every step keeps the invariant\<close>

text \<open>
  What the processes rely on between them: the consumer reads what the publisher has printed, the
  Lambda reads what the consumer has put into the queue, and the value of the record that the proxy
  appends is the value in the request.
\<close>

locale system_laws =
  ws: write_side "sy_mongo S" "sy_redis S" "sy_producer S" V "sy_platform S" +
  cs: consumer_laws "sy_consumer S" V + ls: lambda_laws "sy_lambda S" V rec +
  ar: archiver_laws "sy_archiver S" V + qs: query_laws "sy_query S" V
  for S :: "'w system" and V :: "'w \<Rightarrow> backend" and rec +
  assumes read_printed: "printable v \<Longrightarrow> pf_dumps (sy_platform S) v = Inr s \<Longrightarrow> ce_loads (sy_consumer S) s = Inr (orj v)"
    and read_parked: "json_val v \<Longrightarrow> ce_dumps (sy_consumer S) v = Inr s \<Longrightarrow> le_loads (sy_lambda S) s = Inr v"
    and read_proxied: "json_val v \<Longrightarrow> le_dumps (sy_lambda S) (proxy_body key v) = Inr data \<Longrightarrow>
      ce_loads (sy_consumer S) (kr_value (rec (proxy_url (sy_lambda S)) data)) = Inr v"

lemma recorded_terminal:
  assumes "recorded_event ds ev" and "terminal_event ev" and "\<forall>d \<in> set ds. wf_doc d"
  shows "\<exists>a. dict_get ev ''aggregate_id'' (PStr ''unknown'') = PStr a \<and> closed_order ds a"
proof -
  obtain d where d: "d \<in> set ds" "\<And>k. k \<in> set event_keys \<Longrightarrow> map_of ev k = map_option orj (map_of d k)"
    using assms(1) by (auto simp: recorded_event_def)
  have wf: "wf_doc d" using d(1) assms(3) by blast
  obtain a where a: "map_of d ''aggregate_id'' = Some (PStr a)"
    using wf_doc_id [OF wf] by blast
  obtain v t p e where t: "map_of d ''event_type'' = Some (PStr t)" "decode_payload t p = Some e" "decode d = Some (v, e)"
    using wf by (auto simp: wf_doc_def decode_Some)
  have "t = event_type_value ORDER_DELIVERED \<or> t = event_type_value ORDER_CANCELLED"
    using assms(2) d(2) [of "''event_type''"] t(1) by (simp add: terminal_event_def dict_get_def event_keys_def)
  then have "e = Delivered \<or> e = Cancelled"
    using decode_payload_SomeD [OF t(2)] by (cases e) auto
  then have "closed_order ds a"
    using a t(3) d(1) by (auto simp: closed_order_def says_def)
  then show ?thesis using d(2) [of "''aggregate_id''"] a by (auto simp: dict_get_def event_keys_def)
qed

lemma expiry_ok_stamp:
  assumes "expiry_ok (b_docs b)" and "closed_order (b_docs b) a" and "length hit = length (b_docs b)"
  shows "expiry_ok (b_docs (stamp_docs (PStr a) t hit b))"
proof -
  let ?ds = "b_docs (stamp_docs (PStr a) t hit b)"
  have kept: "docs_kept (b_docs b) ?ds"
    by (rule same_docs_kept [OF same_docs_stamp [OF assms(3)]])
  have "closed_order (b_docs b) x"
    if hyp: "d \<in> set ?ds" "map_of d ''expires_at'' \<noteq> None" "map_of d ''aggregate_id'' = Some (PStr x)" for d x
  proof -
    obtain d0 h where z: "(d0, h) \<in> set (zip (b_docs b) hit)" and d: "d = (if h \<and> matches (''aggregate_id'', PStr a) d0
        then dict_set d0 ''expires_at'' (PTime t) else d0)"
      using hyp(1) unfolding stamp_docs_def by auto
    show ?thesis
      using hyp assms(1,2) set_zip_leftD [OF z] d by (auto simp: expiry_ok_def matches_def dict_simps split: if_splits)
  qed
  then show ?thesis
    using closed_order_mono [OF _ kept] unfolding expiry_ok_def by blast
qed

lemma json_val_dlq_body: "json_val (PDict ev) \<Longrightarrow> retries_ok ev \<Longrightarrow> json_val (dlq_body ev err)"
  by (auto simp: dlq_body_def retries_ok_def)

context system_laws
begin

lemma consumer_keeps_system:
  "consumer_keeps (sy_consumer S) ev (\<lambda>b. system_ok S b \<and> circulating (b_docs b) ev)"
  unfolding consumer_keeps_def
proof (intro conjI allI impI; (elim conjE)?)
  fix b now db assume ok: "system_ok S b" "circulating (b_docs b) ev" and now: "pg_time now"
    and run: "project_doc (pg_codec_of (ce_pool (sy_consumer S))) ev now (b_tables b) = Inr db"
  have "tables_backed (b_docs b) db"
    using cs.project_backed [OF run] ok by (simp add: system_ok_def circulating_def store_ok_def)
  then show "system_ok S (b\<lparr>b_tables := db\<rparr>)"
    using ok project_doc_inv [OF run] cs.project_doc_columns [OF run _ now]
    by (simp add: system_ok_def store_ok_cong [of "b\<lparr>b_tables := db\<rparr>" b])
next
  fix b t and hit :: "bool list" assume ok: "system_ok S b" "circulating (b_docs b) ev" and trm: "terminal_event ev"
    and len: "length hit = length (b_docs b)"
  let ?a = "dict_get ev ''aggregate_id'' (PStr ''unknown'')"
  let ?b = "stamp_docs ?a t hit b"
  have same: "same_docs (b_docs b) (b_docs ?b)" by (rule same_docs_stamp [OF len])
  note kept = same_docs_kept [OF same]
  obtain a where a: "?a = PStr a" "closed_order (b_docs b) a"
    using recorded_terminal [of "b_docs b" ev] trm ok unfolding system_ok_def circulating_def store_ok_def by blast
  have b: "?b = b\<lparr>b_docs := b_docs ?b\<rparr>" by (simp add: stamp_docs_def)
  have "store_ok ?b" "expiry_ok (b_docs ?b)"
    using same_docs_store [OF same] expiry_ok_stamp [OF _ a(2) len, of t] ok a(1)
    by (simp_all add: system_ok_def stamp_docs_def)
  then show "system_ok S ?b"
    using system_ok_docs [OF ok(1) kept] b by metis
  show "circulating (b_docs ?b) ev" by (rule circulating_mono [OF ok(2) kept])
next
  fix b and m :: sqs_message and err assume ok: "system_ok S b" "circulating (b_docs b) ev"
    and m: "ce_dumps (sy_consumer S) (dlq_body ev err) = Inr (sm_body m)"
  have "le_loads (sy_lambda S) (sm_body m) = Inr (dlq_body ev err)"
    using ok(2) by (intro read_parked [OF _ m] json_val_dlq_body) (auto simp: circulating_def recorded_event_def)
  then have "dlq_ok (sy_lambda S) (b_docs b) m"
    using ok(2) by (auto simp: dlq_ok_def carries_def dlq_body_def dict_get_def)
  then show "system_ok S (b\<lparr>b_dlq := b_dlq b @ [m]\<rparr>)"
    by (intro system_ok_dlq [OF ok(1)]) auto
qed (auto intro: system_ok_frame)

lemma lambda_keeps_system:
  "lambda_keeps (sy_lambda S) rec (\<lambda>ev n. circulating ds ev \<and> n = dict_get ev ''retry_count'' (PInt 0))
     (\<lambda>b. system_ok S b \<and> b_docs b = ds)"
  unfolding lambda_keeps_def
proof (intro conjI allI impI; (elim conjE)?)
  fix b and m :: sqs_message assume "system_ok S b" "b_docs b = ds" "m \<in> set (b_dlq b)"
  then show "carries (sy_lambda S) (\<lambda>ev n. circulating ds ev \<and> n = dict_get ev ''retry_count'' (PInt 0)) m"
    by (auto simp: system_ok_def dlq_ok_def)
next
  fix b ev n n' data
  assume ok: "system_ok S b" "b_docs b = ds" "circulating ds ev" and n: "n = dict_get ev ''retry_count'' (PInt 0)"
    and ge: "py_ge n MAX_RETRIES = Inr False" "py_succ n = Inr n'"
    and data: "le_dumps (sy_lambda S) (proxy_body (dict_get ev ''aggregate_id'' (PStr ''unknown''))
      (PDict (dict_set ev ''retry_count'' n'))) = Inr data"
  obtain i where i: "n = PInt i" "0 \<le> i" "i < MAX_RETRIES" "n' = PInt (i + 1)"
    using ok(3) n ge by (auto simp: circulating_def retries_ok_def)
  have js: "json_val (PDict (dict_set ev ''retry_count'' n'))"
    using ok(3) i(4) by (intro json_val_dict_set) (auto simp: circulating_def recorded_event_def)
  have "\<forall>k \<in> set event_keys. map_of (dict_set ev ''retry_count'' n') k = map_of ev k"
    by (simp add: event_keys_def dict_simps)
  then have "circulating ds (dict_set ev ''retry_count'' n')"
    using ok(3) i js by (auto simp: circulating_def recorded_event_def retries_ok_def dict_get_def dict_simps)
  then have "topic_ok (sy_consumer S) (b_docs b) (rec (proxy_url (sy_lambda S)) data)"
    using read_proxied [OF js data] ok(2) by (simp add: topic_ok_def)
  then show "system_ok S (b\<lparr>b_topic := b_topic b @ [rec (proxy_url (sy_lambda S)) data]\<rparr>)"
    by (intro system_ok_topic [OF ok(1)]) auto
qed (auto intro: system_ok_frame system_ok_dlq)

end

text \<open>The events that commands make have payloads that orjson prints.\<close>

lemma BaseEvent_payload: "BaseEvent E t a v p w = (Inr ev, w') \<Longrightarrow> ev_payload ev = p"
  by (erule BaseEvent_shape) simp

lemma timed_payload:
  "bindM (effM (time_time E)) (\<lambda>t. BaseEvent E k a v (p t)) w = (Inr ev, w') \<Longrightarrow> \<exists>t. ev_payload ev = p t"
  by (auto simp: bindM_def effM_def dest: BaseEvent_payload)

lemma factories_printable:
  "order_created_event E a c m w = (Inr ev, w') \<Longrightarrow> printable (PDict (ev_payload ev))"
  "order_item_added_event E a v pid nm q pr w = (Inr ev, w') \<Longrightarrow> printable (PDict (ev_payload ev))"
  "order_confirmed_event E a v w = (Inr ev, w') \<Longrightarrow> printable (PDict (ev_payload ev))"
  "order_payment_processed_event E a v pid x y w = (Inr ev, w') \<Longrightarrow> printable (PDict (ev_payload ev))"
  "order_shipped_event E a v tr y w = (Inr ev, w') \<Longrightarrow> printable (PDict (ev_payload ev))"
  "order_cancelled_event E a v y w = (Inr ev, w') \<Longrightarrow> printable (PDict (ev_payload ev))"
  unfolding order_created_event_def order_item_added_event_def order_confirmed_event_def
    order_payment_processed_event_def order_shipped_event_def order_cancelled_event_def
  by (auto simp: io_simps dest!: BaseEvent_payload timed_payload elim!: bindM_cases)

lemma prepare_printable:
  assumes "prepare P M cmd w = (Inr ev, w')"
  shows "printable (PDict (ev_payload ev))"
  using assms
  by (cases cmd) (auto simp: prepare_event_def simp del: printable.simps dest: factories_printable elim!: bindM_cases)

lemma model_dump_orj:
  assumes "event_stored ds ev" and "printable (PDict (ev_payload ev))" and "orj (PDict (model_dump ev)) = PDict d"
  shows "circulating ds d"
proof -
  have d: "d = map (\<lambda>kv. (fst kv, orj (snd kv))) (model_dump ev)" using assms(3) by simp
  have "printable (PDict (model_dump ev))" using assms(2) by (simp add: model_dump_def)
  then have "json_val (PDict d)" using json_val_orj assms(3) by metis
  moreover have "map_of d k = map_option orj (map_of (model_dump ev) k)" for k
    unfolding d by (rule map_of_map_snd)
  moreover have "map_of (model_dump ev) ''retry_count'' = None" by (simp add: model_dump_def)
  ultimately show ?thesis
    using assms(1) unfolding circulating_def recorded_event_def event_stored_def retries_ok_def
    by (metis MAX_RETRIES_def dict_get_def option.simps(4,8) order.refl zero_le_numeral)
qed

lemma event_stored_snoc: "event_stored (ds @ [stored ev]) ev"
proof -
  have "\<forall>k \<in> set event_keys. map_of (stored ev) k = map_of (model_dump ev) k"
    by (simp add: event_keys_def stored_def dict_simps)
  then show ?thesis by (auto simp: event_stored_def)
qed

lemma expiry_ok_snoc:
  assumes "expiry_ok ds"
  shows "expiry_ok (ds @ [stored ev])"
proof -
  have "map_of (stored ev) ''expires_at'' = None"
    by (simp add: stored_def dict_simps model_dump_def)
  then show ?thesis
    using assms closed_order_mono [OF _ docs_kept_append] unfolding expiry_ok_def by auto
qed

lemma system_ok_snoc:
  assumes "system_ok S b" and "store_ok (b\<lparr>b_docs := b_docs b @ [stored ev]\<rparr>)"
  shows "system_ok S (b\<lparr>b_docs := b_docs b @ [stored ev]\<rparr>)"
  using assms by (intro system_ok_docs expiry_ok_snoc) (auto simp: system_ok_def)

context system_laws
begin

lemma publish_system:
  assumes "publish_via (sy_platform S) (sy_publisher S) ev w = (r, w')" and "system_ok S (V w)"
    and "event_stored (b_docs (V w)) ev" and "printable (PDict (ev_payload ev))"
  shows "system_ok S (V w') \<and> b_docs (V w') = b_docs (V w)"
proof -
  obtain val k m where k: "k = 0 \<or> to_kafka_bytes (pf_dumps (sy_platform S)) ev = Inr val"
    and v: "V w' = sent (event_record (pf_settings (sy_platform S)) ev val) (published_key ev) k m (V w)"
    using ws.publish_record [of 3 "pf_settings (sy_platform S)" "pf_dumps (sy_platform S)" ev w r w'] assms(1)
    by (auto simp: publish_def ws.retry_documented)
  let ?rec = "event_record (pf_settings (sy_platform S)) ev val"
  have "topic_ok (sy_consumer S) (b_docs (V w)) ?rec" if "k \<noteq> 0"
  proof -
    have "pf_dumps (sy_platform S) (PDict (model_dump ev)) = Inr val" using k that by (simp add: to_kafka_bytes_def)
    moreover have "printable (PDict (model_dump ev))" using assms(4) by (simp add: model_dump_def)
    ultimately have "ce_loads (sy_consumer S) (kr_value ?rec) = Inr (orj (PDict (model_dump ev)))"
      using read_printed by (simp add: event_record_def del: printable.simps orj.simps)
    then show ?thesis using model_dump_orj [OF assms(3,4)] by (simp add: topic_ok_def)
  qed
  then have "system_ok S ((V w)\<lparr>b_topic := b_topic (V w) @ replicate k ?rec\<rparr>)"
    by (intro system_ok_topic [OF assms(2)]) auto
  from system_ok_frame(1) [OF this] show ?thesis
    unfolding v sent_def by (auto split: if_splits)
qed

end

context system_laws
begin

text \<open>What a phase of a request does to the backend: nothing, a stored event, or a publication.\<close>

lemma append_system:
  assumes "append_es (sy_mongo S) (model_dump ev) w = (r, w')" and "system_ok S (V w)" and "store_ok (V w')"
  shows "system_ok S (V w') \<and> docs_kept (b_docs (V w)) (b_docs (V w')) \<and>
    (r = Inr () \<longrightarrow> event_stored (b_docs (V w')) ev)"
proof -
  have put: "system_ok S (V w') \<and> docs_kept (b_docs (V w)) (b_docs (V w')) \<and> event_stored (b_docs (V w')) ev"
    if v: "V w' = (V w)\<lparr>b_docs := b_docs (V w) @ [stored ev]\<rparr>"
    using system_ok_snoc [OF assms(2), of ev] assms(3) by (simp add: v event_stored_snoc)
  from assms(1) show ?thesis
    by (cases rule: ws.append_cases) (use put assms(2) in auto)
qed

lemma server_step_keeps:
  assumes "server_step (sy_platform S) (sy_mongo S) (sy_publisher S) (sy_redis S) s s'" and "server_ok V S s"
  shows "server_ok V S s' \<and> (\<forall>a. prefix (order_history (V (sv_world s)) a) (order_history (V (sv_world s')) a))"
proof -
  let ?b = "V (sv_world s)" and ?b' = "V (sv_world s')"
  have ok: "system_ok S ?b" "store_ok ?b" and pr: "\<forall>ev \<in> set (sv_prepared s). prepared_ok ?b ev \<and> printable (PDict (ev_payload ev))"
    and st: "\<forall>ev \<in> set (sv_stored s). event_stored (b_docs ?b) ev \<and> printable (PDict (ev_payload ev))"
    using assms(2) by (auto simp: server_ok_def system_ok_def)
  have step: "store_step ?b ?b'" and pr': "\<forall>ev \<in> set (sv_prepared s'). ev \<in> set (sv_prepared s) \<or> prepared_ok ?b ev"
    using ws.server_step_store [OF assms(1) ok(2)] pr by auto
  have ok': "store_ok ?b'" and pre: "prefix (order_history ?b a) (order_history ?b' a)" for a
    using store_step_ok [OF step ok(2)] store_step_history [OF step ok(2)] by auto
  have prepared: "\<forall>ev \<in> set (sv_prepared s'). prepared_ok ?b' ev"
    using pr pr' prepared_ok_mono [OF _ pre] by blast
  have "system_ok S ?b' \<and> (\<forall>ev \<in> set (sv_prepared s'). printable (PDict (ev_payload ev))) \<and>
    (\<forall>ev \<in> set (sv_stored s'). event_stored (b_docs ?b') ev \<and> printable (PDict (ev_payload ev)))"
    using assms(1)
  proof (cases rule: server_step.cases)
    case (step_prepared cmd ev w')
    then show ?thesis
      using ws.prepare_ok [OF _ ok(2)] ok pr st prepare_printable [OF step_prepared(2)] by (auto simp del: printable.simps)
  next
    case (step_refused cmd e w')
    then show ?thesis using ws.prepare_ok [OF _ ok(2)] ok pr st by auto
  next
    case (step_appended ev u w')
    have "printable (PDict (ev_payload x))" if "x = ev \<or> x \<in> set (remove1 ev (sv_prepared s))" for x
      using that pr step_appended(2) notin_set_remove1 by metis
    then show ?thesis
      using append_system [OF step_appended(3) ok(1)] ok' st event_stored_mono step_appended(1)
      by (auto simp del: printable.simps)
  next
    case (step_rejected ev e w')
    have "printable (PDict (ev_payload x))" if "x \<in> set (remove1 ev (sv_prepared s))" for x
      using that pr notin_set_remove1 by metis
    then show ?thesis
      using append_system [OF step_rejected(3) ok(1)] ok' st event_stored_mono step_rejected(1)
      by (auto simp del: printable.simps)
  next
    case (step_published ev r w')
    have "event_stored (b_docs ?b) x \<and> printable (PDict (ev_payload x))" if "x \<in> set (remove1 ev (sv_stored s))" for x
      using that st notin_set_remove1 by metis
    then show ?thesis
      using publish_system [OF step_published(3) ok(1)] st pr step_published(1,2) by (auto simp del: printable.simps)
  next
    case (step_looked_up key c w')
    then have "V w' = ?b" by (cases c) (auto dest: ws.get_ok ws.get_err)
    then show ?thesis using step_looked_up ok st pr by simp
  next
    case (step_remembered key ttl v r w')
    then have "system_ok S (V w') \<and> b_docs (V w') = b_docs ?b"
      using ok(1) by (cases r) (auto dest!: ws.setex_ok ws.setex_err intro: system_ok_frame)
    then show ?thesis using step_remembered st pr by simp
  qed
  then show ?thesis using prepared pre by (auto simp: server_ok_def simp del: printable.simps)
qed

end

lemma server_ok_world:
  assumes "server_ok V S s" and "system_ok S (V w')" and "b_docs (V w') = b_docs (V (sv_world s))"
  shows "server_ok V S (s\<lparr>sv_world := w'\<rparr>) \<and> order_history (V w') = order_history (V (sv_world s))"
proof -
  have "order_history (V w') = order_history (V (sv_world s))"
    using order_history_cong [OF assms(3)] by blast
  then show ?thesis using assms prepared_ok_mono [of "V (sv_world s)" _ "V w'"] by (auto simp: server_ok_def)
qed

context system_laws
begin

lemma frame_keeps:
  assumes "keepsM (\<lambda>w. system_ok S (V w) \<and> b_docs (V w) = b_docs (V (sv_world s))) m" and "server_ok V S s"
    and "m (sv_world s) = (r, w')"
  shows "server_ok V S (s\<lparr>sv_world := w'\<rparr>) \<and> order_history (V w') = order_history (V (sv_world s))"
proof -
  have "system_ok S (V w') \<and> b_docs (V w') = b_docs (V (sv_world s))"
    using keepsMD [OF assms(1,3)] assms(2) by (simp add: server_ok_def)
  then show ?thesis using server_ok_world [OF assms(2)] by blast
qed

lemma consumed_keeps:
  assumes "r \<in> set (b_topic (V (sv_world s)))" and "km_value msg = kr_value r"
    and "handle_message (sy_consumer S) msg pos (sv_world s) = (q, w')" and "server_ok V S s"
  shows "server_ok V S (s\<lparr>sv_world := w'\<rparr>) \<and> order_history (V w') = order_history (V (sv_world s))"
proof -
  let ?b = "V (sv_world s)"
  define I where "I b \<longleftrightarrow> system_ok S b \<and> same_docs (b_docs ?b) (b_docs b)" for b
  have same_refl: "same_docs ds ds" for ds by (simp add: same_docs_def list_all2_refl)
  have same_trans: "same_docs x y \<Longrightarrow> same_docs y z \<Longrightarrow> same_docs x z" for x y z
    unfolding same_docs_def by (erule (1) list_all2_trans [rotated]) simp
  have keep: "consumer_keeps (sy_consumer S) ev I" if ev: "ce_loads (sy_consumer S) (km_value msg) = Inr (PDict ev)" for ev
  proof -
    have circ: "circulating (b_docs b) ev" if "I b" for b
      using circulating_mono [OF _ same_docs_kept] that ev assms(1,2,4)
      unfolding I_def server_ok_def system_ok_def topic_ok_def by metis
    show ?thesis
      using consumer_keeps_system [of ev] circ same_trans [OF _ same_docs_stamp]
      unfolding consumer_keeps_def I_def by (auto simp: stamp_docs_def)
  qed
  have "I (V w')"
    using keepsMD [OF cs.handle_keeps [OF keep] assms(3)] assms(4) same_refl
    by (simp add: I_def server_ok_def)
  then have ok: "system_ok S (V w')" and same: "same_docs (b_docs ?b) (b_docs (V w'))" by (simp_all add: I_def)
  have hist: "order_history (V w') = order_history ?b"
    using same_docs_history [OF same] by blast
  then show ?thesis
    using assms(4) ok prepared_ok_mono [of ?b _ "V w'"] event_stored_mono [OF _ same_docs_kept [OF same]]
    by (auto simp: server_ok_def)
qed

lemma system_step_keeps:
  assumes "system_step V S s s'" and "server_ok V S s"
  shows "server_ok V S s' \<and> (\<forall>a. prefix (order_history (V (sv_world s)) a) (order_history (V (sv_world s')) a))"
  using assms(1)
proof (cases rule: system_step.cases)
  case requested
  then show ?thesis using server_step_keeps assms(2) by blast
next
  case (consumed r msg q w')
  then show ?thesis using consumed_keeps [OF consumed(2-4) assms(2)] by simp
next
  case (retried ret w')
  then show ?thesis using frame_keeps [OF ls.handler_keeps [OF lambda_keeps_system] assms(2)] by simp
next
  case (archived msgs pos q w')
  then show ?thesis using frame_keeps [OF ar.archive_keeps assms(2)] by (simp add: system_ok_frame)
next
  case (queried oid v w')
  then show ?thesis using frame_keeps [OF qs.get_order_keeps assms(2)] by (simp add: system_ok_frame)
next
  case (listed status cust n off vs w')
  then show ?thesis using frame_keeps [OF qs.list_orders_keeps assms(2)] by simp
next
  case (counted d w')
  then show ?thesis using frame_keeps [OF qs.get_stats_keeps assms(2)] by simp
next
  case (traced oid ds w')
  then show ?thesis using frame_keeps [OF ws.get_order_events_keeps assms(2)] by simp
qed

lemma system_reachable:
  assumes "(system_step V S)\<^sup>*\<^sup>* s s'" and "server_ok V S s"
  shows "server_ok V S s' \<and> (\<forall>a. prefix (order_history (V (sv_world s)) a) (order_history (V (sv_world s')) a))"
  using assms(1)
proof (induction rule: rtranclp_induct)
  case base
  then show ?case using assms(2) by simp
next
  case (step s1 s2)
  then show ?case using system_step_keeps [of s1 s2] by (meson prefix_order.trans)
qed

end

section \<open>What the invariant says of histories\<close>

lemma says_history:
  assumes "says (b_docs b) a v e"
  shows "(v, e) \<in> set (order_history b a)"
proof -
  obtain d where d: "d \<in> set (agg_docs b a)" "decode d = Some (v, e)"
    using assms by (auto simp: says_def agg_docs_def matches_def)
  then show ?thesis unfolding order_history_def history_def by (auto intro!: image_eqI [of _ _ d])
qed

lemma history_says:
  assumes "(v, e) \<in> set (order_history b a)" and "store_ok b"
  shows "says (b_docs b) a v e"
proof -
  obtain d where d: "d \<in> set (agg_docs b a)" "the (decode d) = (v, e)"
    using assms(1) by (auto simp: order_history_def history_def)
  then have "decode d = Some (v, e)" using agg_docs_decode [of b d a] assms(2) by (auto simp: store_ok_def)
  then show ?thesis using d(1) by (auto simp: says_def agg_docs_def matches_def)
qed

lemma history_split:
  assumes "valid_history h" and "(v, e) \<in> set h"
  obtains pre post where "h = pre @ (v, e) # post" "valid_history pre" "v = int (length pre) + 1"
    "admits (order_run order_init pre) e" "valid_from (order_run order_init (pre @ [(v, e)])) post"
proof -
  obtain pre post where h: "h = pre @ (v, e) # post" using assms(2) by (meson split_list)
  moreover have "valid_history pre" "v = os_version (order_run order_init pre) + 1"
    "admits (order_run order_init pre) e" "valid_from (order_run order_init (pre @ [(v, e)])) post"
    using assms(1) unfolding h valid_from_append order_run_append by auto
  ultimately show thesis using that valid_from_run_version [of order_init pre] by simp
qed

text \<open>The status an event leads to was the status of its order.\<close>

lemma history_status:
  assumes "valid_history h" and "(v, e) \<in> set h"
  shows "\<exists>pre. prefix pre h \<and> pre \<noteq> [] \<and> os_status (order_run order_init pre) = next_status PENDING e"
  using assms
proof (cases rule: history_split)
  case (1 pre post)
  have "next_status (os_status (order_run order_init pre)) e = next_status PENDING e"
    using 1(4) by (cases e) auto
  then show ?thesis using 1(1) by (intro exI [of _ "pre @ [(v, e)]"]) (simp add: order_run_append)
qed

lemma history_closed:
  assumes "valid_history h" and "(v, e) \<in> set h" and "e = Delivered \<or> e = Cancelled"
  shows "os_status (order_run order_init h) = CANCELLED"
  using assms(1,2)
proof (cases rule: history_split)
  case (1 pre post)
  then have e: "e = Cancelled" using assms(3) by auto
  let ?s = "order_run order_init (pre @ [(v, e)])"
  have "CANCELLED \<le> os_status (order_run ?s post)"
    using valid_from_status_le [OF 1(5)] e 1(3) by (simp add: order_run_append)
  then show ?thesis
    unfolding 1(1) using antisym [of "os_status (order_run ?s post)" CANCELLED] by (simp add: order_run_append)
qed

section \<open>The system in memory\<close>

text \<open>The record the proxy appends has as its value the value of the request's only record.\<close>

definition proxied_value :: "string \<Rightarrow> string" where
  "proxied_value data =
     (case loads data of
        Inr (PDict [(_, PList [PDict [_, (_, v)]])]) \<Rightarrow> enc v
      | _ \<Rightarrow> [])"

definition proxy_rec :: "string \<Rightarrow> string \<Rightarrow> kafka_record" where
  "proxy_rec url data = \<lparr>kr_topic = url, kr_key = [], kr_value = proxied_value data, kr_headers = []\<rparr>"

definition mem_system :: "mem system" where
  "mem_system =
     \<lparr>sy_platform = mem_platform\<lparr>pf_dumps := \<lambda>v. Inr (enc (orj v))\<rparr>, sy_mongo = mem_mongo,
      sy_producer = mem_kafka, sy_redis = mem_redis,
      sy_consumer = (mem_consumer False loads)\<lparr>ce_dumps := \<lambda>v. Inr (enc v)\<rparr>,
      sy_lambda = (mem_lambda loads)\<lparr>le_dumps := \<lambda>v. Inr (enc v),
        le_urlopen := \<lambda>url data. mem_op (\<lambda>b. (Inr 200, b\<lparr>b_topic := b_topic b @ [proxy_rec url data]\<rparr>))\<rparr>,
      sy_archiver = mem_archiver False, sy_query = mem_query False\<rparr>"

lemma consumer_laws_dumps: "consumer_laws D V \<Longrightarrow> consumer_laws (D\<lparr>ce_dumps := f\<rparr>) V"
  by (simp add: consumer_laws_def consumer_laws_axioms_def)

interpretation mem_system: system_laws mem_system mem_state proxy_rec
proof (intro system_laws.intro system_laws_axioms.intro)
  show "write_side (sy_mongo mem_system) (sy_redis mem_system) (sy_producer mem_system) mem_state (sy_platform mem_system)"
    using mem_write.write_side_axioms by (simp add: mem_system_def write_side_def)
  show "consumer_laws (sy_consumer mem_system) mem_state"
    using consumer_laws_dumps [OF mem_consumer.consumer_laws_axioms] by (simp add: mem_system_def)
  show "lambda_laws (sy_lambda mem_system) mem_state proxy_rec"
  proof (intro lambda_laws.intro lambda_laws_axioms.intro)
    show "env_laws (le_env (sy_lambda mem_system)) mem_state"
      by (simp add: mem_system_def mem_lambda.env_laws_axioms)
  next
    fix n w ms w' assume "le_receive (sy_lambda mem_system) n w = (Inr ms, w')"
    then show "mem_state w' = mem_state w \<and> set ms \<subseteq> set (b_dlq (mem_state w)) \<and> length ms \<le> n"
      using mem_lambda.receive_ok [of loads] by (simp add: mem_system_def)
  next
    fix n w e w' assume "le_receive (sy_lambda mem_system) n w = (Inl e, w')"
    then show "mem_state w' = mem_state w"
      using mem_lambda.receive_err [of loads] by (simp add: mem_system_def)
  next
    fix rh w r w' assume "le_delete (sy_lambda mem_system) rh w = (r, w')"
    then show "mem_state w' = mem_state w \<and> r \<noteq> Inr () \<or>
        mem_state w' = (mem_state w)\<lparr>b_dlq := filter (\<lambda>m. sm_receipt m \<noteq> rh) (b_dlq (mem_state w))\<rparr>"
      using mem_lambda.delete_any [of loads] by (simp add: mem_system_def)
  next
    fix key body w r w' assume "le_put_object (sy_lambda mem_system) key body w = (r, w')"
    then show "mem_state w' = mem_state w \<and> r \<noteq> Inr () \<or>
        mem_state w' = (mem_state w)\<lparr>b_objects := (b_objects (mem_state w))(key \<mapsto> body)\<rparr>"
      using mem_lambda.put_any [of loads] by (simp add: mem_system_def)
  qed (auto simp: mem_system_def dest!: mem_op_Inr mem_op_Inl)
  show "archiver_laws (sy_archiver mem_system) mem_state"
    by (simp add: mem_system_def mem_archiver.archiver_laws_axioms)
  show "query_laws (sy_query mem_system) mem_state"
    by (simp add: mem_system_def mem_query.query_laws_axioms)
qed (auto simp: mem_system_def mem_consumer_def mem_lambda_def proxy_rec_def proxied_value_def proxy_body_def
    simp del: enc.simps)

text \<open>A sample order whose first event is stored and on the topic, but not yet projected.\<close>

definition sample_record :: kafka_record where
  "sample_record = event_record default_settings sample_first (enc (orj (PDict (model_dump sample_first))))"

definition mem_published :: mem where
  "mem_published = mem_one\<lparr>mem_state := (mem_state mem_one)\<lparr>b_topic := [sample_record]\<rparr>\<rparr>"

lemma sample_record_value: "loads (kr_value sample_record) = Inr (orj (PDict (model_dump sample_first)))"
  by (simp add: sample_record_def event_record_def del: orj.simps enc.simps)

lemma mem_published_ok: "system_ok mem_system (mem_state mem_published)"
proof -
  have "circulating (b_docs (mem_state mem_one)) ev"
    if "loads (kr_value sample_record) = Inr (PDict ev)" for ev
    using that sample_record_value model_dump_orj [of "[] @ [stored sample_first]" sample_first ev]
      event_stored_snoc [of "[]" sample_first]
    by (simp add: sample_first_def sample_event_def del: orj.simps)
  then have "topic_ok (sy_consumer mem_system) (b_docs (mem_state mem_one)) sample_record"
    by (simp add: topic_ok_def mem_system_def mem_consumer_def)
  moreover have "expiry_ok (b_docs (mem_state mem_one))"
    using expiry_ok_snoc [of "[]" sample_first] by (simp add: expiry_ok_def)
  moreover have "b_tables (mem_state mem_one) = no_rows" "b_dlq (mem_state mem_one) = []"
    by (simp_all add: mem_one_def mem_ready_eq mem_init_def)
  ultimately show ?thesis
    using mem_one_ok store_ok_cong [of "mem_state mem_published" "mem_state mem_one"]
    by (simp add: system_ok_def mem_published_def no_rows_inv tables_backed_def columns_ok_def)
qed

lemma consumer_up_dumps: "consumer_up D V live \<Longrightarrow> consumer_up (D\<lparr>ce_dumps := f\<rparr>) V live"
  by (simp add: consumer_up_def consumer_up_axioms_def consumer_laws_dumps)

lemma sample_projects:
  "\<exists>db. project_doc mem_codec (map (\<lambda>kv. (fst kv, orj (snd kv))) (model_dump sample_first)) now no_rows = Inr db \<and>
     map or_order_id (pg_orders db) = [''o1'']"
  by (simp add: project_doc_def sample_first_def sample_event_def model_dump_def dict_simps project_statements_def
      mem_codec_def insert_order_def not_null_def text_ok_def numeric_col_def round_scale_def has_order_def int4_def new_row_def)

lemma mem_published_step:
  "\<exists>w'. system_step mem_state mem_system \<lparr>sv_world = mem_published, sv_prepared = [], sv_stored = []\<rparr>
      \<lparr>sv_world = w', sv_prepared = [], sv_stored = []\<rparr> \<and>
    map or_order_id (pg_orders (b_tables (mem_state w'))) = [''o1'']"
proof -
  let ?s = "\<lparr>sv_world = mem_published, sv_prepared = [], sv_stored = []\<rparr>"
  let ?msg = "\<lparr>km_value = kr_value sample_record, km_partition = 0, km_offset = 0\<rparr>"
  have loads: "ce_loads (sy_consumer mem_system) (km_value ?msg) = Inr (PDict (map (\<lambda>kv. (fst kv, orj (snd kv))) (model_dump sample_first)))"
    using sample_record_value by (simp add: mem_system_def mem_consumer_def)
  let ?ev = "map (\<lambda>kv. (fst kv, orj (snd kv))) (model_dump sample_first)"
  have up: "consumer_up (sy_consumer mem_system) mem_state (\<lambda>w. mem_faults w = [])"
    using consumer_up_dumps [OF mem_consumer_up.consumer_up_axioms] by (simp add: mem_system_def)
  have start: "mem_faults mem_published = []" "b_tables (mem_state mem_published) = no_rows"
    "b_kv (mem_state mem_published) = Map.empty"
    by (simp_all add: mem_published_def mem_one_def mem_ready_eq mem_init_def)
  have codec: "pg_codec_of (ce_pool (sy_consumer mem_system)) = mem_codec"
    by (simp add: mem_system_def mem_consumer_def mem_pool_def)
  have pr: "\<exists>db. project_doc (pg_codec_of (ce_pool (sy_consumer mem_system))) ?ev now (b_tables (mem_state mem_published)) = Inr db" for now
    using sample_projects [of now] unfolding codec start(2) by blast
  have agg: "map_of ?ev ''aggregate_id'' = Some (PStr ''o1'')"
    by (simp add: model_dump_def)
  have "cache_coherent (mem_query False) (mem_state mem_published)" "text_ok ''o1''"
    "processed_key (sy_consumer mem_system) ?ev \<notin> dom (b_kv (mem_state mem_published))"
    by (simp_all add: cache_coherent_def text_ok_def start(3))
  from consumer_up.handle_up [OF up start(1) pr loads this(3) agg this(2,1)]
  obtain w' now where run: "handle_message (sy_consumer mem_system) ?msg sample_pos mem_published = (Inr (), w')"
    and db: "project_doc mem_codec ?ev now no_rows = Inr (b_tables (mem_state w'))"
    unfolding codec start(2) by blast
  have "map or_order_id (pg_orders (b_tables (mem_state w'))) = [''o1'']"
    using sample_projects [of now] unfolding db by blast
  moreover have "system_step mem_state mem_system ?s (?s\<lparr>sv_world := w'\<rparr>)"
    using run by (intro consumed [of sample_record _ _ ?msg]) (simp_all add: mem_published_def)
  ultimately show ?thesis by auto
qed

section \<open>Properties\<close>

text \<open>
  C1. The whole system is safe under every interleaving: whatever requests, deliveries, retries,
  archive runs and queries happen in whatever order, and however the services fail, every order's
  events stay a valid history that only grows; every message on the topic and in the dead letter
  queue carries a recorded event that was retried at most three times; the read model keeps its
  invariant and shows only recorded facts; and only closed orders are marked to expire.
\<close>

theorem system_keeps_invariant:
  assumes "system_laws S V rec" and "system_ok S (V w)"
    and "(system_step V S)\<^sup>*\<^sup>* \<lparr>sv_world = w, sv_prepared = [], sv_stored = []\<rparr> s"
  shows "system_ok S (V (sv_world s)) \<and>
    (\<forall>a. prefix (order_history (V w) a) (order_history (V (sv_world s)) a))"
  using system_laws.system_reachable [OF assms(1,3)] assms(2) by (simp add: server_ok_def)

theorem system_keeps_invariant_witness:
  "\<exists>s. (system_step mem_state mem_system)\<^sup>*\<^sup>* \<lparr>sv_world = mem_published, sv_prepared = [], sv_stored = []\<rparr> s \<and>
     system_ok mem_system (mem_state (sv_world s)) \<and> b_topic (mem_state mem_published) \<noteq> []"
proof -
  obtain w' where "system_step mem_state mem_system \<lparr>sv_world = mem_published, sv_prepared = [], sv_stored = []\<rparr>
      \<lparr>sv_world = w', sv_prepared = [], sv_stored = []\<rparr>"
    using mem_published_step by blast
  then have run: "(system_step mem_state mem_system)\<^sup>*\<^sup>* \<lparr>sv_world = mem_published, sv_prepared = [], sv_stored = []\<rparr>
      \<lparr>sv_world = w', sv_prepared = [], sv_stored = []\<rparr>"
    by (rule r_into_rtranclp)
  from system_keeps_invariant [OF mem_system.system_laws_axioms mem_published_ok run] run
  show ?thesis by (auto simp: mem_published_def)
qed

text \<open>
  C3. The read model never shows what did not happen: in every state the system can reach, a row of
  the orders table belongs to an order whose first event created it with that customer; its version
  is not ahead of the event store; its status was the status of the order at some point of its
  recorded history; and its payment and tracking numbers are those of recorded events.
\<close>

theorem read_model_shows_recorded_history:
  assumes "system_laws S V rec" and "system_ok S (V w)"
    and "(system_step V S)\<^sup>*\<^sup>* \<lparr>sv_world = w, sv_prepared = [], sv_stored = []\<rparr> s"
    and "r \<in> set (pg_orders (b_tables (V (sv_world s))))" and "h = order_history (V (sv_world s)) (or_order_id r)"
  shows "hd h = (1, Created (or_customer_id r) (or_customer_email r)) \<and>
    1 \<le> or_version r \<and> or_version r \<le> int (length h) \<and>
    (\<exists>pre. prefix pre h \<and> pre \<noteq> [] \<and> or_status r = order_status_value (os_status (order_run order_init pre))) \<and>
    (\<forall>p. or_payment_id r = Some p \<longrightarrow> (\<exists>v. (v, Paid p) \<in> set h)) \<and>
    (\<forall>t. or_tracking_id r = Some t \<longrightarrow> (\<exists>v. (v, Shipped t) \<in> set h))"
proof -
  let ?b = "V (sv_world s)"
  have ok: "system_ok S ?b"
    using system_laws.system_reachable [OF assms(1,3)] assms(2) by (simp add: server_ok_def)
  then have valid: "valid_history h" and row: "row_backed (b_docs ?b) r"
    using assms(4) by (auto simp: system_ok_def store_ok_def tables_backed_def assms(5))
  have says: "(v, e) \<in> set h" if "says (b_docs ?b) (or_order_id r) v e" for v e
    unfolding assms(5) by (rule says_history [OF that])
  obtain v1 v2 e2 v3 e3 where rb: "(v1, Created (or_customer_id r) (or_customer_email r)) \<in> set h"
    "(or_version r, e2) \<in> set h" "(v3, e3) \<in> set h" "or_status r = order_status_value (next_status PENDING e3)"
    using row says unfolding row_backed_def by blast
  have "hd h = (1, Created (or_customer_id r) (or_customer_email r))"
    using valid rb(1)
  proof (cases rule: history_split)
    case (1 pre post)
    then have "pre = []" using valid_from_run_version [OF 1(2)] by simp
    then show ?thesis using 1(1,3) by simp
  qed
  moreover have "1 \<le> or_version r \<and> or_version r \<le> int (length h)"
    using valid rb(2) by (cases rule: history_split) auto
  moreover have "\<exists>pre. prefix pre h \<and> pre \<noteq> [] \<and> or_status r = order_status_value (os_status (order_run order_init pre))"
    using history_status [OF valid rb(3)] rb(4) by metis
  ultimately show ?thesis using row says unfolding row_backed_def by blast
qed

theorem read_model_shows_recorded_history_witness:
  "\<exists>s r. (system_step mem_state mem_system)\<^sup>*\<^sup>* \<lparr>sv_world = mem_published, sv_prepared = [], sv_stored = []\<rparr> s \<and>
     r \<in> set (pg_orders (b_tables (mem_state (sv_world s)))) \<and>
     hd (order_history (mem_state (sv_world s)) (or_order_id r)) = (1, Created (or_customer_id r) (or_customer_email r))"
proof -
  obtain w' where step: "system_step mem_state mem_system \<lparr>sv_world = mem_published, sv_prepared = [], sv_stored = []\<rparr>
      \<lparr>sv_world = w', sv_prepared = [], sv_stored = []\<rparr>"
    and rows: "map or_order_id (pg_orders (b_tables (mem_state w'))) = [''o1'']"
    using mem_published_step by (elim exE conjE) (rule that)
  let ?r = "hd (pg_orders (b_tables (mem_state w')))"
  from rows have "pg_orders (b_tables (mem_state w')) \<noteq> []" by auto
  then have r: "?r \<in> set (pg_orders (b_tables (mem_state w')))" by (rule hd_in_set)
  have run: "(system_step mem_state mem_system)\<^sup>*\<^sup>* \<lparr>sv_world = mem_published, sv_prepared = [], sv_stored = []\<rparr>
      \<lparr>sv_world = w', sv_prepared = [], sv_stored = []\<rparr>"
    using step by (rule r_into_rtranclp)
  from read_model_shows_recorded_history [OF mem_system.system_laws_axioms mem_published_ok run _ refl, of ?r] r run
  show ?thesis by (intro exI [of _ "\<lparr>sv_world = w', sv_prepared = [], sv_stored = []\<rparr>"] exI [of _ ?r]) simp
qed

end
