(* ===== verification/Event_Schema.thy ===== *)
theory Event_Schema
  imports System
begin

text \<open>
  The types of the documents in the event store: the annotations of \<open>BaseEvent\<close> and, for every type
  of event, the fields that its factory puts into the payload.  The aggregate, the projection and the
  archiver take the documents apart without checking them; that they may do so is the invariant of
  this theory, for every interleaving of the processes.
\<close>

section \<open>Types of values\<close>

datatype py_type = TStr | TInt | TFloat | TTime | TList py_type | TDict "(string \<times> py_type) list"

fun of_type :: "pyval \<Rightarrow> py_type \<Rightarrow> bool"
  and fields_of_type :: "pydict \<Rightarrow> (string \<times> py_type) list \<Rightarrow> bool" where
  "of_type (PStr s) TStr = True"
| "of_type (PInt i) TInt = True"
| "of_type (PFloat x) TFloat = True"
| "of_type (PTime x) TTime = True"
| "of_type (PList vs) (TList t) = list_all (\<lambda>v. of_type v t) vs"
| "of_type (PDict d) (TDict fs) = fields_of_type d fs"
| "of_type v t = False"
| "fields_of_type [] [] = True"
| "fields_of_type ((k, v) # d) ((k', t) # fs) = (k = k' \<and> of_type v t \<and> fields_of_type d fs)"
| "fields_of_type d fs = False"

text \<open>The payloads, as the factories of \<open>api/models/events.py\<close> build them.\<close>

definition item_schema :: py_type where
  "item_schema = TDict [(''product_id'', TStr), (''product_name'', TStr), (''quantity'', TInt),
     (''unit_price'', TFloat), (''line_total'', TFloat)]"

fun payload_schema :: "event_type \<Rightarrow> py_type" where
  "payload_schema ORDER_CREATED = TDict [(''customer_id'', TStr), (''customer_email'', TStr),
     (''items'', TList item_schema), (''total_amount'', TFloat)]"
| "payload_schema ORDER_ITEM_ADDED = item_schema"
| "payload_schema ORDER_CONFIRMED = TDict [(''confirmed_at'', TFloat)]"
| "payload_schema ORDER_PAYMENT_PROCESSED = TDict [(''payment_id'', TStr), (''amount'', TFloat),
     (''method'', TStr), (''processed_at'', TFloat)]"
| "payload_schema ORDER_SHIPPED = TDict [(''tracking_id'', TStr), (''carrier'', TStr), (''shipped_at'', TFloat)]"
| "payload_schema ORDER_DELIVERED = TDict []"
| "payload_schema ORDER_CANCELLED = TDict [(''reason'', TStr), (''cancelled_at'', TFloat)]"

text \<open>The annotated fields of \<open>BaseEvent\<close>, the key that MongoDB adds, and the expiry.\<close>

definition BaseEvent_fields :: "event_type \<Rightarrow> (string \<times> py_type) list" where
  "BaseEvent_fields t = [(''event_id'', TStr), (''event_type'', TStr), (''aggregate_id'', TStr),
     (''aggregate_version'', TInt), (''occurred_at'', TFloat), (''correlation_id'', TStr), (''payload'', payload_schema t)]"

definition document_fields :: "event_type \<Rightarrow> (string \<times> py_type) list" where
  "document_fields t = BaseEvent_fields t @ [(''_id'', TStr)]"

definition typed_document :: "pydict \<Rightarrow> bool" where
  "typed_document d \<longleftrightarrow>
     (\<exists>t. map_of d ''event_type'' = Some (PStr (event_type_value t)) \<and>
          (\<forall>(k, u) \<in> set (document_fields t). \<exists>v. map_of d k = Some v \<and> of_type v u)) \<and>
     (\<forall>v. map_of d ''expires_at'' = Some v \<longrightarrow> of_type v TTime) \<and>
     fst ` set d \<subseteq> insert ''expires_at'' (fst ` set (document_fields ORDER_CREATED))"

definition typed_store :: "backend \<Rightarrow> bool" where
  "typed_store b \<longleftrightarrow> (\<forall>d \<in> set (b_docs b). typed_document d)"

definition typed_event :: "base_event \<Rightarrow> bool" where
  "typed_event ev \<longleftrightarrow> of_type (PDict (ev_payload ev)) (payload_schema (ev_event_type ev))"

section \<open>Every event that is made is typed\<close>

lemma BaseEvent_typed:
  "BaseEvent E t a v p w = (Inr ev, w') \<Longrightarrow> of_type (PDict p) (payload_schema t) \<Longrightarrow> typed_event ev"
  by (erule BaseEvent_shape) (simp add: typed_event_def)

lemma timed_typed:
  "bindM (effM (time_time E)) (\<lambda>x. BaseEvent E t a v (p x)) w = (Inr ev, w') \<Longrightarrow>
     (\<And>x. of_type (PDict (p x)) (payload_schema t)) \<Longrightarrow> typed_event ev"
  by (auto simp: bindM_def effM_def dest: BaseEvent_typed simp del: of_type.simps)

lemma factories_typed:
  "order_created_event E a c m w = (Inr ev, w') \<Longrightarrow> typed_event ev"
  "order_item_added_event E a v pid nm q pr w = (Inr ev, w') \<Longrightarrow> typed_event ev"
  "order_confirmed_event E a v w = (Inr ev, w') \<Longrightarrow> typed_event ev"
  "order_payment_processed_event E a v pid x y w = (Inr ev, w') \<Longrightarrow> typed_event ev"
  "order_shipped_event E a v tr y w = (Inr ev, w') \<Longrightarrow> typed_event ev"
  "order_cancelled_event E a v y w = (Inr ev, w') \<Longrightarrow> typed_event ev"
  unfolding order_created_event_def order_item_added_event_def order_confirmed_event_def
    order_payment_processed_event_def order_shipped_event_def order_cancelled_event_def
  by (auto simp: io_simps item_schema_def elim!: bindM_InrE BaseEvent_typed timed_typed)

lemma prepare_typed:
  assumes "prepare P M cmd w = (Inr ev, w')"
  shows "typed_event ev"
  using assms by (cases cmd) (auto simp: prepare_event_def dest: factories_typed elim!: bindM_cases)

lemma stored_typed: "typed_event ev \<Longrightarrow> typed_document (stored ev)"
  by (auto simp: typed_event_def typed_document_def stored_def model_dump_def document_fields_def BaseEvent_fields_def
      dict_simps dict_set_def simp del: of_type.simps(6) intro!: exI [of _ "ev_event_type ev"])

lemma stamped_typed:
  assumes "typed_document d"
  shows "typed_document (dict_set d ''expires_at'' (PTime t))"
proof -
  have "fst ` set (dict_set d k v) \<subseteq> insert k F" if "fst ` set d \<subseteq> insert k F" for k v F
    using that unfolding dict_set_def by (induction d) auto
  moreover have "fst ` set d \<subseteq> insert ''expires_at'' (fst ` set (document_fields ORDER_CREATED))"
    using assms unfolding typed_document_def by simp
  ultimately have "fst ` set (dict_set d ''expires_at'' (PTime t)) \<subseteq> insert ''expires_at'' (fst ` set (document_fields ORDER_CREATED))"
    by simp
  moreover obtain k where k: "map_of d ''event_type'' = Some (PStr (event_type_value k))"
      "\<forall>(f, u) \<in> set (document_fields k). \<exists>v. map_of d f = Some v \<and> of_type v u"
    using assms unfolding typed_document_def by blast
  have "map_of (dict_set d ''expires_at'' (PTime t)) f = map_of d f" if "(f, u) \<in> set (document_fields k)" for f u
    using that by (auto simp: document_fields_def BaseEvent_fields_def dict_simps)
  then have "\<forall>(f, u) \<in> set (document_fields k). \<exists>v. map_of (dict_set d ''expires_at'' (PTime t)) f = Some v \<and> of_type v u"
    using k(2) by auto
  ultimately show ?thesis
    using k(1) unfolding typed_document_def by (auto simp: dict_simps)
qed

section \<open>Every step keeps the types\<close>

definition server_typed :: "('w \<Rightarrow> backend) \<Rightarrow> 'w server \<Rightarrow> bool" where
  "server_typed V s \<longleftrightarrow> typed_store (V (sv_world s)) \<and> (\<forall>ev \<in> set (sv_prepared s). typed_event ev)"

lemma typed_store_cong: "b_docs b = b_docs b' \<Longrightarrow> typed_store b = typed_store b'"
  by (simp add: typed_store_def)

lemma typed_consumer_keeps: "consumer_keeps D ev typed_store"
proof -
  have "typed_store (stamp_docs a t hit b)" if "typed_store b" for a t hit b
    using that by (auto simp: typed_store_def stamp_docs_def dest!: set_zip_leftD intro!: stamped_typed)
  then show ?thesis by (simp add: consumer_keeps_def) (simp add: typed_store_def)
qed

context system_laws
begin

lemma append_typed:
  assumes "append_es (sy_mongo S) (model_dump ev) w = (r, w')" and "typed_store (V w)" and "typed_event ev"
  shows "typed_store (V w')"
  using assms(1) by (cases rule: ws.append_cases) (use assms(2) stored_typed [OF assms(3)] in \<open>auto simp: typed_store_def\<close>)

lemma publish_docs:
  assumes "publish_via (sy_platform S) (sy_publisher S) ev w = (r, w')"
  shows "b_docs (V w') = b_docs (V w)"
proof -
  obtain val k m where "k = 0 \<or> to_kafka_bytes (pf_dumps (sy_platform S)) ev = Inr val"
    and v: "V w' = sent (event_record (pf_settings (sy_platform S)) ev val) (published_key ev) k m (V w)"
    using ws.publish_record [of 3 "pf_settings (sy_platform S)" "pf_dumps (sy_platform S)" ev w r w'] assms
    by (auto simp: publish_def ws.retry_documented)
  then show ?thesis by (simp add: sent_def)
qed

lemma request_typed:
  assumes "server_step (sy_platform S) (sy_mongo S) (sy_publisher S) (sy_redis S) s s'" and "server_typed V s"
    and "store_ok (V (sv_world s))"
  shows "server_typed V s'"
  using assms(1)
proof (cases rule: server_step.cases)
  case (step_prepared cmd ev w')
  then show ?thesis
    using ws.prepare_ok [OF _ assms(3)] assms(2) prepare_typed [OF step_prepared(2)] by (auto simp: server_typed_def)
next
  case (step_refused cmd e w')
  then show ?thesis using ws.prepare_ok [OF _ assms(3)] assms(2) by (auto simp: server_typed_def)
next
  case (step_appended ev u w')
  then show ?thesis using append_typed assms(2) set_remove1_subset [of ev "sv_prepared s"] by (auto simp: server_typed_def)
next
  case (step_rejected ev e w')
  then show ?thesis using append_typed assms(2) set_remove1_subset [of ev "sv_prepared s"] by (auto simp: server_typed_def)
next
  case (step_published ev r w')
  then have "b_docs (V w') = b_docs (V (sv_world s))" using publish_docs by blast
  then show ?thesis using step_published(1) assms(2) typed_store_cong [of "V w'"] by (simp add: server_typed_def)
next
  case (step_looked_up key c w')
  then have "V w' = V (sv_world s)" by (cases c) (auto dest: ws.get_ok ws.get_err)
  then show ?thesis using step_looked_up assms(2) by (simp add: server_typed_def)
next
  case (step_remembered key ttl v r w')
  then have "b_docs (V w') = b_docs (V (sv_world s))" by (cases r) (auto dest!: ws.setex_ok ws.setex_err)
  then show ?thesis using step_remembered(1) assms(2) typed_store_cong [of "V w'"] by (simp add: server_typed_def)
qed

lemma system_step_typed:
  assumes "system_step V S s s'" and "server_typed V s" and "server_ok V S s"
  shows "server_typed V s'"
proof -
  have docs: "server_typed V (s\<lparr>sv_world := w'\<rparr>)" if "b_docs (V w') = b_docs (V (sv_world s))" for w'
    using typed_store_cong [OF that] assms(2) by (simp add: server_typed_def)
  from assms(1) show ?thesis
  proof (cases rule: system_step.cases)
    case requested
    then show ?thesis using request_typed assms(2,3) by (auto simp: server_ok_def system_ok_def)
  next
    case (consumed r msg pos q w')
    then show ?thesis using keepsMD [OF cs.handle_keeps [OF typed_consumer_keeps]] assms(2) by (simp add: server_typed_def)
  next
    case (retried ret w')
    have "system_ok S (V w') \<and> b_docs (V w') = b_docs (V (sv_world s))"
      using keepsMD [OF ls.handler_keeps [OF lambda_keeps_system] retried(2)] assms(3) by (simp add: server_ok_def)
    then show ?thesis using docs retried(1) by blast
  next
    case (archived msgs pos q w')
    then show ?thesis
      using keepsMD [OF ar.archive_keeps [where I = typed_store]] assms(2) by (simp add: server_typed_def typed_store_def)
  next
    case (queried oid v w')
    then show ?thesis
      using keepsMD [OF qs.get_order_keeps [where I = typed_store]] assms(2) by (simp add: server_typed_def typed_store_def)
  next
    case (listed status cust n off vs w')
    then show ?thesis using keepsMD [OF qs.list_orders_keeps [where I = typed_store]] assms(2) by (simp add: server_typed_def)
  next
    case (counted d w')
    then show ?thesis using keepsMD [OF qs.get_stats_keeps [where I = typed_store]] assms(2) by (simp add: server_typed_def)
  next
    case (traced oid ds w')
    then show ?thesis using keepsMD [OF ws.get_order_events_keeps [where I = typed_store]] assms(2) by (simp add: server_typed_def)
  qed
qed

lemma reachable_typed:
  assumes "(system_step V S)\<^sup>*\<^sup>* s s'" and "server_typed V s" and "server_ok V S s"
  shows "server_typed V s'"
  using assms(1)
proof (induction rule: rtranclp_induct)
  case (step s1 s2)
  then show ?case using system_step_typed system_reachable [OF step(1) assms(3)] by blast
qed (rule assms(2))

end

section \<open>Properties\<close>

text \<open>
  C8. The event store is typed: however the requests, the consumer, the Lambda, the archiver and the
  queries interleave and whatever fails, every document in the event store has the annotated fields of
  \<open>BaseEvent\<close> with values of their types, the payload that belongs to its event type with every
  field of its type, a time as its expiry if it has one, and no other field.
\<close>

theorem stored_events_typed:
  assumes "system_laws S V rec" and "server_ok V S s" and "typed_store (V (sv_world s))" and "sv_prepared s = []"
    and "(system_step V S)\<^sup>*\<^sup>* s s'"
  shows "typed_store (V (sv_world s'))"
  using system_laws.reachable_typed [OF assms(1,5) _ assms(2)] assms(3,4) by (simp add: server_typed_def)

theorem stored_events_typed_witness:
  "\<exists>w'. (system_step mem_state mem_system)\<^sup>*\<^sup>* \<lparr>sv_world = mem_published, sv_prepared = [], sv_stored = []\<rparr>
     \<lparr>sv_world = w', sv_prepared = [], sv_stored = []\<rparr> \<and> typed_store (mem_state w') \<and> b_docs (mem_state w') \<noteq> []"
proof -
  let ?s = "\<lparr>sv_world = mem_published, sv_prepared = [], sv_stored = []\<rparr>"
  obtain w' where run: "(system_step mem_state mem_system)\<^sup>*\<^sup>* ?s \<lparr>sv_world = w', sv_prepared = [], sv_stored = []\<rparr>"
    using mem_published_step by blast
  have ok: "server_ok mem_state mem_system ?s" using mem_published_ok by (simp add: server_ok_def)
  have "typed_event sample_first"
    by (simp add: typed_event_def sample_first_def sample_event_def)
  then have "typed_store (mem_state mem_published)"
    using stored_typed by (simp add: typed_store_def mem_published_def mem_one_state)
  with stored_events_typed [OF mem_system.system_laws_axioms ok _ _ run] have "typed_store (mem_state w')" by simp
  moreover have "prefix (order_history (mem_state mem_published) ''o1'') (order_history (mem_state w') ''o1'')"
    using mem_system.system_reachable [OF run ok] by simp
  then have "order_history (mem_state w') ''o1'' \<noteq> []"
    using mem_one_history order_history_cong [of "mem_state mem_published" "mem_state mem_one" "''o1''"]
    by (auto simp: mem_published_def)
  then have "b_docs (mem_state w') \<noteq> []" by (auto simp: order_history_def agg_docs_def history_def)
  ultimately show ?thesis using run by blast
qed

end
