(* ===== verification/Pruning.thy ===== *)
theory Pruning
  imports System
begin

text \<open>
  What MongoDB's TTL index does to the event store.  Once the consumer has marked the documents of an
  order, MongoDB deletes them when their time has come: some time after it, and one by one.  Only
  closed orders lose events, and an order that is deleted as a whole leaves a valid store; but while
  an order is deleted in part, the rest of its events denote an older state.
\<close>

section \<open>Deletion by the TTL index\<close>

text \<open>A document has expired for an index that keeps it \<open>n\<close> seconds past the time in its field.\<close>

definition expired_for :: "mongo_index \<Rightarrow> rat \<Rightarrow> pydict \<Rightarrow> bool" where
  "expired_for ix now d \<longleftrightarrow>
     (case (ix_expire_after ix, ix_keys ix) of
        (Some n, [k]) \<Rightarrow> (case map_of d k of Some (PTime t) \<Rightarrow> t + of_nat n \<le> now | _ \<Rightarrow> False)
      | _ \<Rightarrow> False)"

text \<open>The store after those of the expired documents that \<open>gone\<close> selects have been deleted.\<close>

definition ttl_prune :: "rat \<Rightarrow> (pydict \<Rightarrow> bool) \<Rightarrow> backend \<Rightarrow> backend" where
  "ttl_prune now gone b = b\<lparr>b_docs := filter (\<lambda>d. \<not> (expired_for idx_event_expiry now d \<and> gone d)) (b_docs b)\<rparr>"

lemma expired_stamped: "expired_for idx_event_expiry now d \<Longrightarrow> map_of d ''expires_at'' \<noteq> None"
  by (auto simp: expired_for_def idx_event_expiry_def split: option.splits)

lemma agg_docs_prune:
  "agg_docs (ttl_prune now gone b) a = filter (\<lambda>d. \<not> (expired_for idx_event_expiry now d \<and> gone d)) (agg_docs b a)"
  by (simp add: agg_docs_def ttl_prune_def conj_commute)

lemma prune_unstamped:
  assumes "\<And>d. d \<in> set (agg_docs b a) \<Longrightarrow> \<not> (expired_for idx_event_expiry now d \<and> gone d)"
  shows "order_history (ttl_prune now gone b) a = order_history b a"
proof -
  have "agg_docs (ttl_prune now gone b) a = agg_docs b a"
    using assms by (simp add: agg_docs_prune filter_id_conv)
  then show ?thesis by (simp add: order_history_def)
qed

lemma expired_closed:
  assumes "system_ok S b" and "d \<in> set (agg_docs b a)" and "expired_for idx_event_expiry now d"
  shows "os_status (order_state_of b a) = CANCELLED"
proof -
  have "closed_order (b_docs b) a"
    using assms expired_stamped [OF assms(3)] by (auto simp: system_ok_def expiry_ok_def agg_docs_def matches_def)
  then show ?thesis
    using history_closed says_history assms(1) unfolding closed_order_def system_ok_def store_ok_def by blast
qed

text \<open>Deletion that is not cut off within an order.\<close>

definition whole_orders :: "rat \<Rightarrow> (pydict \<Rightarrow> bool) \<Rightarrow> backend \<Rightarrow> bool" where
  "whole_orders now gone b \<longleftrightarrow> (\<forall>a. \<forall>d \<in> set (agg_docs b a). \<forall>d' \<in> set (agg_docs b a).
     (expired_for idx_event_expiry now d \<and> gone d) = (expired_for idx_event_expiry now d' \<and> gone d'))"

lemma whole_orders_history:
  assumes "whole_orders now gone b"
  shows "order_history (ttl_prune now gone b) a \<in> {[], order_history b a}"
proof (cases "\<exists>d \<in> set (agg_docs b a). expired_for idx_event_expiry now d \<and> gone d")
  case True
  then have "\<forall>d \<in> set (agg_docs b a). expired_for idx_event_expiry now d \<and> gone d"
    using assms unfolding whole_orders_def by blast
  then have "agg_docs (ttl_prune now gone b) a = []"
    unfolding agg_docs_prune by (simp add: filter_empty_conv)
  then show ?thesis by (simp add: order_history_def history_def)
next
  case False
  then show ?thesis using prune_unstamped [of b a now gone] by blast
qed

lemma whole_orders_store:
  assumes "whole_orders now gone b" and "store_ok b"
  shows "store_ok (ttl_prune now gone b)"
proof -
  have "valid_history (order_history (ttl_prune now gone b) a)" for a
    using whole_orders_history [OF assms(1), of a] assms(2) by (auto simp: store_ok_def)
  then show ?thesis
    using assms(2) unfolding store_ok_def store_keys_def by (auto simp: ttl_prune_def distinct_map_filter)
qed

section \<open>Properties\<close>



end
