(* ===== verification/Http_Api.thy ===== *)
theory Http_Api
  imports System Application
begin

text \<open>
  The HTTP surface of the API: the routes that the decorators of the routers and of \<open>api/main.py\<close>
  declare, the request bodies of \<open>api/models/schemas.py\<close>, and the responses.  FastAPI and pydantic are
  the record \<open>fastapi\<close>: how a value of a body becomes a string, an integer or a float, how a text with
  interpolated values is formatted, and how a result is rendered.  The routes of the generated
  documentation are FastAPI's own and are left out.
\<close>

section \<open>Requests and responses\<close>

text \<open>
  A path is the list of its segments.  \<open>rq_json\<close> is \<open>None\<close> for a body that is absent or not JSON,
  \<open>rs_json\<close> for a response that is not JSON.
\<close>

record http_request =
  rq_method :: string
  rq_path :: "string list"
  rq_query :: "(string \<times> string) list"
  rq_json :: "pyval option"

record http_response =
  rs_status :: nat
  rs_json :: "pyval option"

record fastapi =
  fa_str :: "pyval \<Rightarrow> exn + string"
  fa_int :: "pyval \<Rightarrow> exn + int"
  fa_float :: "pyval \<Rightarrow> exn + pyfloat"
  fa_format :: "fpart list \<Rightarrow> string"
  fa_render :: "pyval \<Rightarrow> exn + pyval"

section \<open>Request bodies\<close>

definition body_field :: "pyval option \<Rightarrow> string \<Rightarrow> exn + pyval" where
  "body_field body k =
     (case body of
        Some (PDict d) \<Rightarrow> (case map_of d k of None \<Rightarrow> Inl (ValidationError k) | Some v \<Rightarrow> Inr v)
      | _ \<Rightarrow> Inl (ValidationError k))"

definition CreateOrderRequest :: "fastapi \<Rightarrow> pyval option \<Rightarrow> exn + create_order_request" where
  "CreateOrderRequest X body =
     bindR (bindR (body_field body ''customer_id'') (fa_str X)) (\<lambda>c.
     bindR (bindR (body_field body ''customer_email'') (fa_str X)) (\<lambda>m.
     bindR (bindR (body_field body ''idempotency_key'') (fa_str X)) (\<lambda>k.
     Inr \<lparr>co_customer_id = c, co_customer_email = m, co_idempotency_key = k\<rparr>)))"

definition AddItemRequest :: "fastapi \<Rightarrow> pyval option \<Rightarrow> exn + add_item_request" where
  "AddItemRequest X body =
     bindR (bindR (body_field body ''product_id'') (fa_str X)) (\<lambda>p.
     bindR (bindR (body_field body ''product_name'') (fa_str X)) (\<lambda>n.
     bindR (bindR (body_field body ''quantity'') (fa_int X)) (\<lambda>q.
     bindR (bindR (body_field body ''unit_price'') (fa_float X)) (\<lambda>u.
     let req = \<lparr>ai_product_id = p, ai_product_name = n, ai_quantity = q, ai_unit_price = u\<rparr> in
     if valid_add_item req then Inr req else Inl (ValidationError ''greater_than'')))))"

definition ProcessPaymentRequest :: "fastapi \<Rightarrow> pyval option \<Rightarrow> exn + process_payment_request" where
  "ProcessPaymentRequest X body =
     bindR (bindR (body_field body ''payment_id'') (fa_str X)) (\<lambda>p.
     bindR (bindR (body_field body ''amount'') (fa_float X)) (\<lambda>a.
     bindR (bindR (body_field body ''method'') (fa_str X)) (\<lambda>m.
     let req = \<lparr>pp_payment_id = p, pp_amount = a, pp_method = m\<rparr> in
     if valid_payment req then Inr req else Inl (ValidationError ''greater_than''))))"

definition ShipOrderRequest :: "fastapi \<Rightarrow> pyval option \<Rightarrow> exn + ship_order_request" where
  "ShipOrderRequest X body =
     bindR (bindR (body_field body ''tracking_id'') (fa_str X)) (\<lambda>t.
     bindR (bindR (body_field body ''carrier'') (fa_str X)) (\<lambda>c.
     Inr \<lparr>so_tracking_id = t, so_carrier = c\<rparr>))"

definition CancelOrderRequest :: "fastapi \<Rightarrow> pyval option \<Rightarrow> exn + cancel_order_request" where
  "CancelOrderRequest X body =
     bindR (bindR (body_field body ''reason'') (fa_str X)) (\<lambda>r. Inr \<lparr>ca_reason = r\<rparr>)"

section \<open>Routes\<close>

text \<open>The routes: method, path and what they run.  A path parameter is never empty.\<close>

datatype command_path = RCreate | RItems string | RConfirm string | RPayment string | RShip string | RCancel string

datatype query_path = QOrder string | QEvents string | QList | QStats | QHealth

definition command_route :: "string list \<Rightarrow> command_path option" where
  "command_route path =
     (case path of
        [a, b] \<Rightarrow> if [a, b] = [''commands'', ''orders''] then Some RCreate else None
      | [a, b, order_id, c] \<Rightarrow>
          if [a, b] \<noteq> [''commands'', ''orders''] \<or> order_id = [] then None
          else if c = ''items'' then Some (RItems order_id)
          else if c = ''confirm'' then Some (RConfirm order_id)
          else if c = ''payment'' then Some (RPayment order_id)
          else if c = ''ship'' then Some (RShip order_id)
          else if c = ''cancel'' then Some (RCancel order_id)
          else None
      | _ \<Rightarrow> None)"

definition query_route :: "string list \<Rightarrow> query_path option" where
  "query_route path =
     (case path of
        [a] \<Rightarrow> if a = ''health'' then Some QHealth else None
      | [a, b] \<Rightarrow>
          if a \<noteq> ''queries'' then None
          else if b = ''orders'' then Some QList
          else if b = ''stats'' then Some QStats
          else None
      | [a, b, order_id] \<Rightarrow>
          if [a, b] = [''queries'', ''orders''] \<and> order_id \<noteq> [] then Some (QOrder order_id) else None
      | [a, b, order_id, c] \<Rightarrow>
          if [a, b] = [''queries'', ''orders''] \<and> order_id \<noteq> [] \<and> c = ''events'' then Some (QEvents order_id) else None
      | _ \<Rightarrow> None)"

text \<open>The command a request asks for; \<open>confirm\<close> takes no body.\<close>

fun parse_command :: "fastapi \<Rightarrow> command_path \<Rightarrow> pyval option \<Rightarrow> exn + command" where
  "parse_command X RCreate body = bindR (CreateOrderRequest X body) (\<lambda>req. Inr (CreateOrder req))"
| "parse_command X (RItems oid) body = bindR (AddItemRequest X body) (\<lambda>req. Inr (AddItem oid req))"
| "parse_command X (RConfirm oid) body = Inr (ConfirmOrder oid)"
| "parse_command X (RPayment oid) body = bindR (ProcessPaymentRequest X body) (\<lambda>req. Inr (ProcessPayment oid req))"
| "parse_command X (RShip oid) body = bindR (ShipOrderRequest X body) (\<lambda>req. Inr (ShipOrder oid req))"
| "parse_command X (RCancel oid) body = bindR (CancelOrderRequest X body) (\<lambda>req. Inr (CancelOrder oid req))"

fun success_status :: "command_path \<Rightarrow> nat" where
  "success_status RCreate = 201"
| "success_status _ = 200"

section \<open>Serving a request\<close>

text \<open>The application with the resources its dependencies hand to the handlers.\<close>

record 'w web =
  wb_fastapi :: fastapi
  wb_platform :: "'w platform"
  wb_mongo :: "'w mongo_collection"
  wb_producer :: "'w kafka_producer"
  wb_redis :: "'w redis_client"
  wb_query :: "'w query_env"

definition CommandResponse_json :: "command_response \<Rightarrow> pyval" where
  "CommandResponse_json r =
     PDict [(''event_id'', PStr (cr_event_id r)), (''aggregate_id'', PStr (cr_aggregate_id r)),
            (''aggregate_version'', PInt (cr_aggregate_version r)), (''message'', PStr (cr_message r))]"

abbreviation wb_publisher :: "'w web \<Rightarrow> 'w event_publisher" where
  "wb_publisher W \<equiv> \<lparr>pub_producer = wb_producer W, pub_redis = wb_redis W\<rparr>"

text \<open>\<open>HTTPException\<close> carries its status; any other exception is an internal error, whose body is text.\<close>

definition error_response :: "fastapi \<Rightarrow> exn \<Rightarrow> http_response" where
  "error_response X e =
     (case e of
        HTTPException code detail \<Rightarrow>
          \<lparr>rs_status = code, rs_json = Some (PDict [(''detail'', PStr (fa_format X detail))])\<rparr>
      | _ \<Rightarrow> \<lparr>rs_status = 500, rs_json = None\<rparr>)"

definition plain_error :: "nat \<Rightarrow> http_response" where
  "plain_error code = \<lparr>rs_status = code, rs_json = Some (PDict [(''detail'', PNone)])\<rparr>"

definition respond :: "fastapi \<Rightarrow> nat \<Rightarrow> ('w, pyval) io \<Rightarrow> 'w \<Rightarrow> http_response \<times> 'w" where
  "respond X status m w =
     (case m w of
        (Inl e, w') \<Rightarrow> (error_response X e, w')
      | (Inr v, w') \<Rightarrow>
          (case fa_render X v of
             Inl e \<Rightarrow> (error_response X e, w')
           | Inr j \<Rightarrow> (\<lparr>rs_status = status, rs_json = Some j\<rparr>, w')))"

definition run_route :: "'w web \<Rightarrow> command \<Rightarrow> ('w, pyval) io" where
  "run_route W cmd =
     bindM (exec_command (wb_platform W) (wb_mongo W) (wb_publisher W) (wb_redis W) cmd) (\<lambda>r.
     returnM (CommandResponse_json r))"

text \<open>The query parameters of \<open>list_orders\<close>, with their defaults.\<close>

definition int_param :: "fastapi \<Rightarrow> (string \<times> string) list \<Rightarrow> string \<Rightarrow> int \<Rightarrow> exn + int" where
  "int_param X q k dflt = (case map_of q k of None \<Rightarrow> Inr dflt | Some s \<Rightarrow> fa_int X (PStr s))"

fun run_query :: "'w web \<Rightarrow> query_path \<Rightarrow> (string \<times> string) list \<Rightarrow> exn + ('w, pyval) io" where
  "run_query W (QOrder oid) q = Inr (get_order (wb_query W) oid)"
| "run_query W (QEvents oid) q =
     Inr (bindM (get_order_events (wb_mongo W) oid) (\<lambda>ds. returnM (PList (map PDict ds))))"
| "run_query W QList q =
     bindR (int_param (wb_fastapi W) q ''limit'' 20) (\<lambda>lmt.
     bindR (int_param (wb_fastapi W) q ''offset'' 0) (\<lambda>off.
     Inr (bindM (list_orders (wb_query W) (map_of q ''status'') (map_of q ''customer_id'') lmt off) (\<lambda>ds.
          returnM (PList (map PDict ds))))))"
| "run_query W QStats q = Inr (bindM (get_stats (wb_query W)) (\<lambda>d. returnM (PDict d)))"
| "run_query W QHealth q = Inr (returnM (PDict health))"

definition serve :: "'w web \<Rightarrow> http_request \<Rightarrow> 'w \<Rightarrow> http_response \<times> 'w" where
  "serve W rq w =
     (case command_route (rq_path rq) of
        Some cr \<Rightarrow>
          if rq_method rq \<noteq> ''POST'' then (plain_error 405, w)
          else (case parse_command (wb_fastapi W) cr (rq_json rq) of
                  Inl e \<Rightarrow> (plain_error 422, w)
                | Inr cmd \<Rightarrow> respond (wb_fastapi W) (success_status cr) (run_route W cmd) w)
      | None \<Rightarrow>
          (case query_route (rq_path rq) of
             None \<Rightarrow> (plain_error 404, w)
           | Some qr \<Rightarrow>
               if rq_method rq \<noteq> ''GET'' then (plain_error 405, w)
               else (case run_query W qr (rq_query rq) of
                       Inl e \<Rightarrow> (plain_error 422, w)
                     | Inr m \<Rightarrow> respond (wb_fastapi W) 200 m w)))"

text \<open>
  What pydantic and FastAPI document of plain values: a string is taken as it is and nothing else is
  a string, numbers are taken as they are, and finite JSON values are rendered as they are.
\<close>

locale fastapi_laws =
  fixes X :: fastapi
  assumes str_ok: "fa_str X (PStr s) = Inr s"
    and str_only: "fa_str X v = Inr s \<Longrightarrow> v = PStr s"
    and int_ok: "fa_int X (PInt i) = Inr i"
    and float_ok: "fa_float X (PFloat (Fin x)) = Inr (Fin x)"
    and render_ok: "json_val v \<Longrightarrow> fa_render X v = Inr v"
    and render_err: "fa_render X v = Inl e \<Longrightarrow> \<exists>m. e = ValueError m"

section \<open>The exceptions of a command\<close>

text \<open>A program that raises only exceptions of a kind.\<close>

definition raisesM :: "(exn \<Rightarrow> bool) \<Rightarrow> ('w, 'a) io \<Rightarrow> bool" where
  "raisesM E m \<longleftrightarrow> (\<forall>w e w'. m w = (Inl e, w') \<longrightarrow> E e)"

lemma raisesMD: "raisesM E m \<Longrightarrow> m w = (Inl e, w') \<Longrightarrow> E e"
  unfolding raisesM_def by blast

lemma raisesMI: "(\<And>w e w'. m w = (Inl e, w') \<Longrightarrow> E e) \<Longrightarrow> raisesM E m"
  unfolding raisesM_def by blast

lemma raisesM_intros:
  "raisesM E (returnM x)" "E e \<Longrightarrow> raisesM E (raiseM e)" "raisesM E (effM f)"
  "(\<And>e. q = Inl e \<Longrightarrow> E e) \<Longrightarrow> raisesM E (liftM q)"
  by (auto simp: raisesM_def io_simps)

lemma raisesM_bindM:
  assumes "raisesM E m" and "\<And>x. raisesM E (k x)"
  shows "raisesM E (bindM m k)"
proof (rule raisesMI)
  fix w e w' assume "bindM m k w = (Inl e, w')"
  then show "E e"
    by (cases rule: bindM_cases) (use raisesMD [OF assms(1)] raisesMD [OF assms(2)] in auto)
qed

text \<open>The exceptions of the API that carry a status: an unknown order and a declined payment.\<close>

definition api_exn :: "exn \<Rightarrow> bool" where
  "api_exn e \<longleftrightarrow> (\<forall>code detail. e = HTTPException code detail \<longrightarrow> code = 402 \<or> code = 404)"

lemma api_exn_simps [simp]:
  "api_exn (ValueError m)" "api_exn (KeyError k)" "api_exn TypeError" "api_exn OverflowError"
  "api_exn (DriverError t)" "api_exn RetryError" "api_exn (not_found oid)" "api_exn (ValidationError v)" "api_exn AttributeError"
  "api_exn (HTTPException n d) \<longleftrightarrow> n = 402 \<or> n = 404"
  by (simp_all add: api_exn_def not_found_def)

text \<open>
  The laws of the application: those of its services and of FastAPI, and that the Redis client does
  not raise the exceptions of FastAPI.
\<close>

locale web_laws = fastapi_laws "wb_fastapi W" +
  ws: write_side "wb_mongo W" "wb_redis W" "wb_producer W" V "wb_platform W" + qs: query_laws "wb_query W" V
  for W :: "'w web" and V :: "'w \<Rightarrow> backend" +
  assumes get_exn: "raisesM api_exn (redis_get (wb_redis W) key)"
    and setex_exn: "raisesM api_exn (redis_setex (wb_redis W) key ttl v)"
begin

lemma append_exn: "raisesM api_exn (append_es (wb_mongo W) (model_dump ev))"
  unfolding raisesM_def by (auto elim!: ws.append_cases)

lemma publish_exn: "raisesM api_exn (publish_via (wb_platform W) pb ev)"
  unfolding raisesM_def publish_def ws.retry_documented by (auto dest: retry_attempts_error)

lemma latest_exn: "raisesM api_exn (get_latest_version (wb_mongo W) oid)"
proof -
  have "raisesM api_exn (find_one_sorted (wb_mongo W) f p k asc)" for f p k asc
    unfolding raisesM_def by (auto dest!: ws.find_one_err)
  then show ?thesis
    unfolding get_latest_version_def version_item_def
    by (auto intro!: raisesM_bindM raisesM_intros simp: dict_item_def split: option.splits pyval.splits if_splits)
qed

lemma factories_exn:
  "raisesM api_exn (order_created_event E a c m)"
  "raisesM api_exn (order_item_added_event E a v pid nm q pr)"
  "raisesM api_exn (order_confirmed_event E a v)"
  "raisesM api_exn (order_payment_processed_event E a v p x y)"
  "raisesM api_exn (order_shipped_event E a v tr y)"
  "raisesM api_exn (order_cancelled_event E a v y)"
proof -
  have base: "raisesM api_exn (BaseEvent E t a v p)" for t a v p
    unfolding raisesM_def by (auto elim: BaseEvent_shape)
  show "raisesM api_exn (order_created_event E a c m)"
    "raisesM api_exn (order_confirmed_event E a v)"
    "raisesM api_exn (order_payment_processed_event E a v p x y)"
    "raisesM api_exn (order_shipped_event E a v tr y)"
    "raisesM api_exn (order_cancelled_event E a v y)"
    unfolding order_created_event_def order_confirmed_event_def order_payment_processed_event_def
      order_shipped_event_def order_cancelled_event_def
    by (intro raisesM_bindM raisesM_intros base)+
  show "raisesM api_exn (order_item_added_event E a v pid nm q pr)"
    unfolding order_item_added_event_def float_of_int_def
    by (intro raisesM_bindM raisesM_intros base) (auto split: pyfloat.splits if_splits)
qed

lemma run_exn:
  assumes "run_command (wb_platform W) (wb_mongo W) pb oid guard mk msg w = (Inl e, w')" and "store_ok (V w)"
    and "\<And>agg x. guard agg = Inl x \<Longrightarrow> api_exn x" and "\<And>v. raisesM api_exn (mk v)"
  shows "api_exn e"
  using assms(1) unfolding run_command_def
proof (cases rule: bindM_cases)
  case (raised x)
  then show ?thesis using ws.load_cases [OF raised(1) assms(2)] by (auto split: if_splits)
next
  case (continued agg w1)
  have "raisesM api_exn (bindM (liftM (guard agg)) (\<lambda>_. bindM (mk (agg_version agg + 1)) (\<lambda>event.
      bindM (append_es (wb_mongo W) (model_dump event)) (\<lambda>_. bindM (publish_via (wb_platform W) pb event) (\<lambda>_.
      returnM \<lparr>cr_event_id = ev_event_id event, cr_aggregate_id = oid,
        cr_aggregate_version = ev_aggregate_version event, cr_message = msg\<rparr>)))))"
    by (intro raisesM_bindM raisesM_intros append_exn publish_exn assms(3,4))
  from raisesMD [OF this continued(2)] show ?thesis .
qed

lemma create_exn: "raisesM api_exn (create_order (wb_platform W) (wb_mongo W) pb (wb_redis W) req)"
  unfolding create_order_def Let_def
  by (auto intro!: raisesM_bindM raisesM_intros get_exn setex_exn append_exn publish_exn latest_exn factories_exn
      split: option.splits list.splits)

lemma exec_exn:
  assumes "exec_command (wb_platform W) (wb_mongo W) pb (wb_redis W) cmd w = (Inl e, w')" and "store_ok (V w)"
  shows "api_exn e"
proof (cases cmd)
  case (CreateOrder req)
  then show ?thesis using assms(1) raisesMD [OF create_exn] by simp
next
  case (AddItem oid req)
  show ?thesis
    by (rule run_exn [OF assms(1) [unfolded AddItem exec_command.simps handler_runs] assms(2)])
      (auto simp: guard_defs split: if_splits intro: factories_exn)
next
  case (ConfirmOrder oid)
  show ?thesis
    by (rule run_exn [OF assms(1) [unfolded ConfirmOrder exec_command.simps handler_runs] assms(2)])
      (auto simp: guard_defs split: if_splits intro: factories_exn)
next
  case (ProcessPayment oid req)
  show ?thesis
    by (rule run_exn [OF assms(1) [unfolded ProcessPayment exec_command.simps process_payment_run] assms(2)])
      (auto simp: guard_defs split: if_splits intro: factories_exn)
next
  case (ShipOrder oid req)
  show ?thesis
    by (rule run_exn [OF assms(1) [unfolded ShipOrder exec_command.simps handler_runs] assms(2)])
      (auto simp: guard_defs split: if_splits intro: factories_exn)
next
  case (CancelOrder oid req)
  show ?thesis
    by (rule run_exn [OF assms(1) [unfolded CancelOrder exec_command.simps handler_runs] assms(2)])
      (auto simp: guard_defs split: if_splits intro: factories_exn)
qed

end

section \<open>What a response tells\<close>

text \<open>The constraints of the bodies, and the order a route addresses.\<close>

fun well_typed :: "command \<Rightarrow> bool" where
  "well_typed (AddItem oid req) = valid_add_item req"
| "well_typed (ProcessPayment oid req) = valid_payment req"
| "well_typed _ = True"

fun route_order :: "command_path \<Rightarrow> string option" where
  "route_order RCreate = None"
| "route_order (RItems oid) = Some oid"
| "route_order (RConfirm oid) = Some oid"
| "route_order (RPayment oid) = Some oid"
| "route_order (RShip oid) = Some oid"
| "route_order (RCancel oid) = Some oid"

lemma parse_well_typed:
  assumes "parse_command X cr body = Inr cmd"
  shows "well_typed cmd \<and> map_option fst (target cmd) = route_order cr"
  using assms
  by (cases cr) (auto simp: bindR_Inr_iff AddItemRequest_def ProcessPaymentRequest_def Let_def split: if_splits)

lemma json_val_CommandResponse: "json_val (CommandResponse_json r)"
  by (simp add: CommandResponse_json_def)

lemma error_status: "api_exn e \<Longrightarrow> rs_status (error_response X e) \<in> {402, 404, 500}"
  by (cases e) (auto simp: error_response_def api_exn_def)

context web_laws
begin

lemma respond_command:
  assumes "respond (wb_fastapi W) status (run_route W cmd) w = (rs, w')"
  obtains (ok) resp where "exec_command (wb_platform W) (wb_mongo W) (wb_publisher W) (wb_redis W) cmd w = (Inr resp, w')"
      "rs = \<lparr>rs_status = status, rs_json = Some (CommandResponse_json resp)\<rparr>"
    | (error) e where "exec_command (wb_platform W) (wb_mongo W) (wb_publisher W) (wb_redis W) cmd w = (Inl e, w')"
      "rs = error_response (wb_fastapi W) e"
proof -
  obtain q w1 where run: "exec_command (wb_platform W) (wb_mongo W) (wb_publisher W) (wb_redis W) cmd w = (q, w1)"
    by (metis surj_pair)
  show thesis
    using assms ok error run render_ok [OF json_val_CommandResponse]
    by (cases q) (auto simp: respond_def run_route_def bindM_def io_simps)
qed

lemma serve_command:
  assumes "serve W rq w = (rs, w')" and "command_route (rq_path rq) = Some cr" and "rs_status rs \<in> {200, 201}"
    and "store_ok (V w)"
  shows "rq_method rq = ''POST'' \<and> (\<exists>cmd resp. parse_command (wb_fastapi W) cr (rq_json rq) = Inr cmd \<and>
    exec_command (wb_platform W) (wb_mongo W) (wb_publisher W) (wb_redis W) cmd w = (Inr resp, w') \<and>
    rs_json rs = Some (CommandResponse_json resp) \<and> rs_status rs = success_status cr)"
proof -
  have post: "rq_method rq = ''POST''"
    using assms(1-3) by (auto simp: serve_def plain_error_def split: if_splits)
  obtain cmd where cmd: "parse_command (wb_fastapi W) cr (rq_json rq) = Inr cmd"
    using assms(1-3) post by (auto simp: serve_def plain_error_def split: sum.splits)
  have run: "respond (wb_fastapi W) (success_status cr) (run_route W cmd) w = (rs, w')"
    using assms(1,2) post cmd by (simp add: serve_def)
  then show ?thesis
  proof (cases rule: respond_command)
    case (ok resp)
    then show ?thesis using post cmd by auto
  next
    case (error e)
    then show ?thesis using error_status [OF exec_exn [OF error(1) assms(4)], of "wb_fastapi W"] assms(3) by auto
  qed
qed

lemma query_keeps:
  assumes "run_query W qr q = Inr m" and "m w = (r, w')"
  shows "\<exists>kv. V w' = (V w)\<lparr>b_kv := kv\<rparr>"
proof -
  let ?I = "\<lambda>b. \<exists>kv. b = (V w)\<lparr>b_kv := kv\<rparr>"
  have keep: "keepsM (\<lambda>w. ?I (V w)) m"
    using assms(1)
    by (cases qr) (auto simp: bindR_Inr_iff intro!: keeps_intros qs.get_order_keeps qs.list_orders_keeps
      qs.get_stats_keeps ws.get_order_events_keeps)
  have "?I (V w)" by (rule exI [of _ "b_kv (V w)"]) simp
  from keepsMD [OF keep assms(2) this] show ?thesis .
qed

text \<open>A request that is not an accepted command changes at most the cache.\<close>

lemma serve_other:
  assumes "serve W rq w = (rs, w')"
    and "\<not> (rq_method rq = ''POST'' \<and> (\<exists>cr cmd. command_route (rq_path rq) = Some cr \<and>
      parse_command (wb_fastapi W) cr (rq_json rq) = Inr cmd))"
  shows "\<exists>kv. V w' = (V w)\<lparr>b_kv := kv\<rparr>"
proof -
  have same: "\<exists>kv. V w = (V w)\<lparr>b_kv := kv\<rparr>" by (rule exI [of _ "b_kv (V w)"]) simp
  show ?thesis
  proof (cases "\<exists>qr m. command_route (rq_path rq) = None \<and> query_route (rq_path rq) = Some qr \<and> rq_method rq = ''GET'' \<and>
      run_query W qr (rq_query rq) = Inr m")
    case True
    then obtain qr m where "command_route (rq_path rq) = None" "query_route (rq_path rq) = Some qr"
      "rq_method rq = ''GET''" and m: "run_query W qr (rq_query rq) = Inr m" by blast
    then have "respond (wb_fastapi W) 200 m w = (rs, w')" using assms(1) by (simp add: serve_def)
    then have "\<exists>r. m w = (r, w')" by (auto simp: respond_def split: prod.splits sum.splits)
    then show ?thesis using query_keeps [OF m] by blast
  next
    case False
    have "w' = w" using assms False by (auto simp: serve_def split: option.splits sum.splits if_splits)
    then show ?thesis using same by simp
  qed
qed

lemma serve_refused:
  assumes "serve W rq w = (rs, w')" and "rq_method rq = ''POST''" and "command_route (rq_path rq) = Some cr"
    and "parse_command (wb_fastapi W) cr (rq_json rq) = Inr cmd" and "target cmd = Some (oid, kind)"
    and "store_ok (V w)" and "order_history (V w) oid = [] \<or> \<not> admits (order_state_of (V w) oid) kind"
  shows "V w' = V w \<and> (rs = \<lparr>rs_status = 500, rs_json = None\<rparr> \<or>
    order_history (V w) oid = [] \<and> rs_status rs = 404)"
proof -
  have "respond (wb_fastapi W) (success_status cr) (run_route W cmd) w = (rs, w')"
    using assms(1-4) by (simp add: serve_def)
  then show ?thesis
  proof (cases rule: respond_command)
    case (ok resp)
    then show ?thesis using ws.command_refused [OF ok(1) assms(6,5,7)] by simp
  next
    case (error e)
    then show ?thesis
      using ws.command_refused [OF error(1) assms(6,5,7)]
      by (auto simp: refusal_def error_response_def not_found_def split: if_splits)
  qed
qed

end

section \<open>The API in memory\<close>

definition mem_fastapi :: fastapi where
  "mem_fastapi =
     \<lparr>fa_str = (\<lambda>v. case v of PStr s \<Rightarrow> Inr s | _ \<Rightarrow> Inl (ValidationError ''string_type'')),
      fa_int = (\<lambda>v. case v of PInt i \<Rightarrow> Inr i | _ \<Rightarrow> Inl (ValidationError ''int_type'')),
      fa_float = (\<lambda>v. case v of PFloat x \<Rightarrow> Inr x | PInt i \<Rightarrow> float_of_int i | _ \<Rightarrow> Inl (ValidationError ''float_type'')),
      fa_format = (\<lambda>ps. concat (map (\<lambda>p. case p of Lit s \<Rightarrow> s | Fmt (PStr s) \<Rightarrow> s | _ \<Rightarrow> ''?'') ps)),
      fa_render = (\<lambda>v. if json_val v then Inr v else Inl (ValueError [Lit ''Out of range float values are not JSON compliant'']))\<rparr>"

definition mem_web :: "mem web" where
  "mem_web =
     \<lparr>wb_fastapi = mem_fastapi, wb_platform = mem_platform, wb_mongo = mem_mongo, wb_producer = mem_kafka,
      wb_redis = mem_redis, wb_query = mem_query False\<rparr>"

interpretation mem_fastapi: fastapi_laws mem_fastapi
  by unfold_locales (auto simp: mem_fastapi_def split: pyval.splits if_splits)

lemma mem_op_exn:
  assumes "mem_op f w = (Inl e, w')" and "\<And>b x. fst (f b) = Inl x \<Longrightarrow> api_exn x"
  shows "api_exn e"
  using assms(1) assms(2) [of "mem_state w" e] unfolding mem_op_def Let_def
  by (auto split: list.splits sum.splits fault.splits)

interpretation mem_web: web_laws mem_web mem_state
proof (intro web_laws.intro web_laws_axioms.intro)
  show "fastapi_laws (wb_fastapi mem_web)" by (simp add: mem_web_def mem_fastapi.fastapi_laws_axioms)
  show "write_side (wb_mongo mem_web) (wb_redis mem_web) (wb_producer mem_web) mem_state (wb_platform mem_web)"
    by (simp add: mem_web_def mem_write.write_side_axioms)
  show "query_laws (wb_query mem_web) mem_state" by (simp add: mem_web_def mem_query.query_laws_axioms)
  show "raisesM api_exn (redis_get (wb_redis mem_web) key)" "raisesM api_exn (redis_setex (wb_redis mem_web) key ttl v)" for key ttl v
    by (auto simp: raisesM_def mem_web_def mem_redis_def dest: mem_op_exn)
qed

section \<open>Properties\<close>


definition sample_rq :: "string \<Rightarrow> pyval option \<Rightarrow> http_request" where
  "sample_rq action body =
     \<lparr>rq_method = ''POST'', rq_path = [''commands'', ''orders'', ''o1'', action], rq_query = [], rq_json = body\<rparr>"

definition sample_body :: pyval where
  "sample_body = PDict [(''product_id'', PStr ''p1''), (''product_name'', PStr ''pen''), (''quantity'', PInt 2),
     (''unit_price'', PFloat (Fin 3))]"

lemma sample_rq_route:
  "rq_method (sample_rq action body) = ''POST''" "rq_json (sample_rq action body) = body"
  "command_route (rq_path (sample_rq ''items'' body)) = Some (RItems ''o1'')"
  "command_route (rq_path (sample_rq ''confirm'' body)) = Some (RConfirm ''o1'')"
  by (simp_all add: sample_rq_def command_route_def)

lemma sample_parse:
  "parse_command mem_fastapi (RItems ''o1'') (Some sample_body) = Inr sample_add"
  by (simp add: AddItemRequest_def sample_body_def body_field_def mem_fastapi_def sample_add_def valid_add_item_def Let_def)

lemma sample_serve:
  assumes "exec_command mem_platform mem_mongo mem_pub mem_redis sample_add mem_one = (Inr resp, w')"
  shows "serve mem_web (sample_rq ''items'' (Some sample_body)) mem_one =
    (\<lparr>rs_status = 200, rs_json = Some (CommandResponse_json resp)\<rparr>, w')"
  using assms json_val_CommandResponse [of resp]
  by (simp add: serve_def sample_rq_route sample_parse mem_web_def respond_def run_route_def bindM_def io_simps
      mem_fastapi.render_ok del: parse_command.simps)


text \<open>
  C13. Commands and queries are kept apart: a request that is not a POST of a valid body to a command
  route -- a query, an unknown path, a wrong method, a body that violates the schema -- changes
  nothing but cached answers: no event is stored or published, and the read model, the dead letter
  queue and the archive stay as they were.
\<close>

theorem only_accepted_commands_write:
  assumes "web_laws W V" and "serve W rq w = (rs, w')"
    and "(V w')\<lparr>b_kv := b_kv (V w)\<rparr> \<noteq> V w"
  shows "rq_method rq = ''POST'' \<and> (\<exists>cr cmd. command_route (rq_path rq) = Some cr \<and>
    parse_command (wb_fastapi W) cr (rq_json rq) = Inr cmd \<and> well_typed cmd)"
proof (rule ccontr)
  assume "\<not> ?thesis"
  then have "\<not> (rq_method rq = ''POST'' \<and> (\<exists>cr cmd. command_route (rq_path rq) = Some cr \<and>
      parse_command (wb_fastapi W) cr (rq_json rq) = Inr cmd))"
    using parse_well_typed by blast
  from web_laws.serve_other [OF assms(1,2) this] show False using assms(3) by auto
qed

theorem only_accepted_commands_write_witness:
  "\<exists>cr cmd. command_route (rq_path (sample_rq ''items'' (Some sample_body))) = Some cr \<and>
     parse_command mem_fastapi cr (Some sample_body) = Inr cmd \<and> well_typed cmd"
proof -
  let ?rq = "sample_rq ''items'' (Some sample_body)"
  obtain resp w' where run: "exec_command mem_platform mem_mongo mem_pub mem_redis sample_add mem_one = (Inr resp, w')"
    using sample_add_up by blast
  note sv = sample_serve [OF run]
  have "\<exists>ev. b_docs (mem_state w') = b_docs (mem_state mem_one) @ [stored ev]"
    using mem_write.command_recorded [OF run mem_one_ok sample_add_target] by (auto simp: recorded_def)
  then have "(mem_state w')\<lparr>b_kv := b_kv (mem_state mem_one)\<rparr> \<noteq> mem_state mem_one"
    by (metis append_self_conv backend.select_convs(1) backend.surjective backend.update_convs(3) not_Cons_self2)
  from only_accepted_commands_write [OF mem_web.web_laws_axioms sv this]
  show ?thesis by (auto simp: sample_rq_route mem_web_def simp del: parse_command.simps)
qed



end
