(* ===== verification/Client_Scripts.thy ===== *)
theory Client_Scripts
  imports Http_Api
begin

text \<open>
  The programs under \<open>scripts/\<close> that exercise a running system: the smoke test, the test of event
  expiry, and the benchmark.  What they use of httpx, pymongo, aiokafka, uuid, time and asyncio is the
  record \<open>script_env\<close>; what they print is left out.  Of the benchmark, this theory has the parts that run
  alone, with a worker on the items that the queue hands to it; \<open>Benchmark\<close> puts them together.
\<close>

section \<open>What the scripts use\<close>

record 'w script_env =
  sc_send :: "http_request \<Rightarrow> ('w, http_response) io"
  sc_uuid4 :: "'w \<Rightarrow> string \<times> 'w"
  sc_sleep :: "rat \<Rightarrow> ('w, unit) io"
  sc_time :: "'w \<Rightarrow> pyfloat \<times> 'w"
  sc_format :: "pyval \<Rightarrow> string"
  sc_find :: "pyval \<Rightarrow> ('w, pydict list) io"
  sc_dumps :: "pyval \<Rightarrow> exn + string"
  sc_producer_start :: "string \<Rightarrow> ('w, unit) io"
  sc_produce :: "kafka_record \<Rightarrow> ('w, unit) io"
  sc_producer_stop :: "('w, unit) io"

text \<open>The segments of a URL path.\<close>

fun split_slash :: "string \<Rightarrow> string list" where
  "split_slash [] = [[]]"
| "split_slash (c # cs) =
     (if c = CHR 0x2F then [] # split_slash cs
      else case split_slash cs of [] \<Rightarrow> [[c]] | x # xs \<Rightarrow> (c # x) # xs)"

definition post :: "'w script_env \<Rightarrow> string \<Rightarrow> pyval option \<Rightarrow> ('w, http_response) io" where
  "post C url body =
     sc_send C \<lparr>rq_method = ''POST'', rq_path = tl (split_slash url), rq_query = [], rq_json = body\<rparr>"

definition http_get :: "'w script_env \<Rightarrow> string \<Rightarrow> ('w, http_response) io" where
  "http_get C url =
     sc_send C \<lparr>rq_method = ''GET'', rq_path = tl (split_slash url), rq_query = [], rq_json = None\<rparr>"

definition resp_json :: "http_response \<Rightarrow> exn + pyval" where
  "resp_json rs = (case rs_json rs of None \<Rightarrow> Inl (ValueError [Lit ''Expecting value'']) | Some v \<Rightarrow> Inr v)"

text \<open>\<open>uuid4().hex\<close>, and a float of an integer literal.\<close>

definition uuid_hex :: "string \<Rightarrow> string" where
  "uuid_hex u = filter (\<lambda>c. c \<noteq> CHR ''-'') u"

abbreviation num :: "int \<Rightarrow> pyval" where
  "num i \<equiv> PFloat (Fin (of_int i))"

definition item_body :: "string \<Rightarrow> string \<Rightarrow> int \<Rightarrow> int \<Rightarrow> pyval" where
  "item_body product_id product_name quantity price =
     PDict [(''product_id'', PStr product_id), (''product_name'', PStr product_name),
            (''quantity'', PInt quantity), (''unit_price'', num price)]"

definition order_body :: "string \<Rightarrow> string \<Rightarrow> string \<Rightarrow> pyval" where
  "order_body customer email key =
     PDict [(''customer_id'', PStr customer), (''customer_email'', PStr email), (''idempotency_key'', PStr key)]"

definition payment_body :: "string \<Rightarrow> int \<Rightarrow> string \<Rightarrow> pyval" where
  "payment_body payment_id amount pay_method =
     PDict [(''payment_id'', PStr payment_id), (''amount'', num amount), (''method'', PStr pay_method)]"

definition ship_body :: "string \<Rightarrow> string \<Rightarrow> pyval" where
  "ship_body tracking_id carrier = PDict [(''tracking_id'', PStr tracking_id), (''carrier'', PStr carrier)]"

text \<open>The URL of an action on an order, as the f-strings build it.\<close>

definition order_url :: "'w script_env \<Rightarrow> pyval \<Rightarrow> string \<Rightarrow> string" where
  "order_url C order_id action = ''/commands/orders/'' @ sc_format C order_id @ ''/'' @ action"

section \<open>The smoke test\<close>

text \<open>\<open>pr\<close> prints a response and returns its JSON.\<close>

definition pr :: "http_response \<Rightarrow> ('w, pyval) io" where
  "pr resp = liftM (resp_json resp)"

text \<open>Steps 1 to 6 of \<open>run\<close>, which return the order, and steps 7 to 9.\<close>

definition smoke_commands :: "'w script_env \<Rightarrow> ('w, pyval) io" where
  "smoke_commands C =
     bindM (effM (sc_uuid4 C)) (\<lambda>idempotency_key.
     let body = order_body ''cust-rohit-001'' ''rohit@spinny.com'' idempotency_key in
     bindM (bindM (post C ''/commands/orders'' (Some body)) pr) (\<lambda>order_data.
     bindM (liftM (py_item order_data ''aggregate_id'')) (\<lambda>order_id.
     bindM (bindM (post C ''/commands/orders'' (Some body)) pr) (\<lambda>data2.
     bindM (liftM (py_item data2 ''aggregate_id'')) (\<lambda>order_id2.
     if order_id2 \<noteq> order_id then raiseM (AssertionError ''Idempotency broken!'')
     else
       bindM (sc_sleep C (1 / 2)) (\<lambda>_.
       bindM (bindM (post C (order_url C order_id ''items'')
         (Some (item_body ''prod-swift-001'' ''Maruti Swift VXI 2022'' 1 650000))) pr) (\<lambda>_.
       bindM (bindM (post C (order_url C order_id ''items'')
         (Some (item_body ''prod-insurance-001'' ''1 Year Insurance'' 1 15000))) pr) (\<lambda>_.
       bindM (sc_sleep C (1 / 2)) (\<lambda>_.
       bindM (bindM (post C (order_url C order_id ''confirm'') None) pr) (\<lambda>_.
       bindM (effM (sc_uuid4 C)) (\<lambda>p.
       bindM (bindM (post C (order_url C order_id ''payment'') (Some (payment_body (''pay-'' @ p) 665000 ''NETBANKING''))) pr) (\<lambda>_.
       bindM (effM (sc_uuid4 C)) (\<lambda>t.
       bindM (bindM (post C (order_url C order_id ''ship'')
         (Some (ship_body (''TRK-'' @ str_upper (take 8 (uuid_hex t))) ''Spinny Logistics''))) pr) (\<lambda>_.
       returnM order_id))))))))))))))"

text \<open>
  \<open>for ev in events\<close> over whatever the response holds: the keys of a dictionary and the characters of
  a string are strings, which have no fields.
\<close>

definition audit_line :: "pyval \<Rightarrow> exn + unit" where
  "audit_line ev =
     bindR (py_item ev ''aggregate_version'') (\<lambda>_.
     bindR (py_item ev ''event_type'') (\<lambda>_.
     bindR (py_item ev ''event_id'') (\<lambda>i.
     case i of PStr s \<Rightarrow> Inr () | PList vs \<Rightarrow> Inr () | _ \<Rightarrow> Inl TypeError)))"

definition audit_trail :: "pyval \<Rightarrow> exn + unit" where
  "audit_trail events =
     (case events of
        PList evs \<Rightarrow> bindR (mapR audit_line evs) (\<lambda>_. Inr ())
      | PDict d \<Rightarrow> if d = [] then Inr () else Inl TypeError
      | PStr s \<Rightarrow> if s = [] then Inr () else Inl TypeError
      | _ \<Rightarrow> Inl TypeError)"

definition smoke_queries :: "'w script_env \<Rightarrow> pyval \<Rightarrow> ('w, unit) io" where
  "smoke_queries C order_id =
     (let url = ''/queries/orders/'' @ sc_format C order_id in
      bindM (sc_sleep C 1) (\<lambda>_.
      bindM (bindM (http_get C url) pr) (\<lambda>_.
      bindM (http_get C (url @ ''/events'')) (\<lambda>resp.
      bindM (liftM (resp_json resp)) (\<lambda>events.
      bindM (liftM (audit_trail events)) (\<lambda>_.
      bindM (bindM (http_get C ''/queries/stats'') pr) (\<lambda>_.
      returnM ())))))))"

definition smoke_run :: "'w script_env \<Rightarrow> ('w, unit) io" where
  "smoke_run C = bindM (smoke_commands C) (smoke_queries C)"

section \<open>The test of event expiry\<close>

definition assert_that :: "bool \<Rightarrow> ('w, unit) io" where
  "assert_that b = (if b then returnM () else raiseM (AssertionError ''''))"

text \<open>The documents of the order: three, and each with an expiry.\<close>

definition check_stamps :: "pydict list \<Rightarrow> ('w, unit) io" where
  "check_stamps events =
     bindM (assert_that (length events = 3)) (\<lambda>_.
     assert_that (\<forall>ev \<in> set events. dict_get ev ''expires_at'' PNone \<noteq> PNone))"

definition verify_pruning :: "'w script_env \<Rightarrow> ('w, unit) io" where
  "verify_pruning C =
     bindM (effM (sc_uuid4 C)) (\<lambda>idem_key.
     bindM (post C ''/commands/orders'' (Some (order_body ''cust-prune-test'' ''prune@test.com'' idem_key))) (\<lambda>resp.
     bindM (assert_that (rs_status resp = 201)) (\<lambda>_.
     bindM (bindM (liftM (resp_json resp)) (\<lambda>j. liftM (py_item j ''aggregate_id''))) (\<lambda>order_id.
     bindM (post C (order_url C order_id ''items'') (Some (item_body ''prod-x-999'' ''Premium Polish'' 1 450))) (\<lambda>resp.
     bindM (assert_that (rs_status resp = 200)) (\<lambda>_.
     bindM (post C (order_url C order_id ''cancel'') (Some (PDict [(''reason'', PStr ''Test pruning of event store'')]))) (\<lambda>resp.
     bindM (assert_that (rs_status resp = 200)) (\<lambda>_.
     bindM (sc_sleep C (3 / 2)) (\<lambda>_.
     bindM (sc_find C order_id) check_stamps)))))))))"

section \<open>The benchmark\<close>

definition create_single_order_full_lifecycle :: "'w script_env \<Rightarrow> string \<Rightarrow> ('w, pyval option) io" where
  "create_single_order_full_lifecycle C worker_id =
     bindM (effM (sc_uuid4 C)) (\<lambda>idempotency_key.
     bindM (effM (sc_uuid4 C)) (\<lambda>c.
     bindM (post C ''/commands/orders'' (Some (order_body
       (''cust-bench-'' @ worker_id @ ''-'' @ take 6 (uuid_hex c)) ''bench@test.com'' idempotency_key))) (\<lambda>resp.
     if rs_status resp \<noteq> 201 then returnM None
     else
       bindM (bindM (liftM (resp_json resp)) (\<lambda>j. liftM (py_item j ''aggregate_id''))) (\<lambda>order_id.
       bindM (effM (sc_uuid4 C)) (\<lambda>a.
       bindM (post C (order_url C order_id ''items'') (Some (item_body (''prod-a-'' @ take 4 (uuid_hex a)) ''Car Polish'' 1 500))) (\<lambda>_.
       bindM (effM (sc_uuid4 C)) (\<lambda>b.
       bindM (post C (order_url C order_id ''items'') (Some (item_body (''prod-b-'' @ take 4 (uuid_hex b)) ''Alloy Wheels'' 4 12000))) (\<lambda>_.
       bindM (post C (order_url C order_id ''confirm'') None) (\<lambda>_.
       bindM (effM (sc_uuid4 C)) (\<lambda>p.
       bindM (post C (order_url C order_id ''payment'')
         (Some (payment_body (''pay-bench-'' @ take 8 (uuid_hex p)) 48500 ''CREDIT_CARD''))) (\<lambda>_.
       bindM (effM (sc_uuid4 C)) (\<lambda>t.
       bindM (post C (order_url C order_id ''ship'')
         (Some (ship_body (''TRK-BENCH-'' @ str_upper (take 8 (uuid_hex t))) ''Spinny Express''))) (\<lambda>_.
       returnM (Some order_id))))))))))))))"

fun fl_neg :: "pyfloat \<Rightarrow> pyfloat" where
  "fl_neg (Fin x) = Fin (- x)"
| "fl_neg PInf = NInf"
| "fl_neg NInf = PInf"
| "fl_neg NaN = NaN"

text \<open>A worker on the items it takes from the queue, up to the first \<open>None\<close>.\<close>

fun worker :: "'w script_env \<Rightarrow> string option list \<Rightarrow> (pyval \<times> pyfloat) list \<Rightarrow> ('w, (pyval \<times> pyfloat) list) io" where
  "worker C [] results = returnM results"
| "worker C (None # queue) results = returnM results"
| "worker C (Some worker_id # queue) results =
     bindM
       (tryM
         (bindM (effM (sc_time C)) (\<lambda>start_time.
          bindM (create_single_order_full_lifecycle C worker_id) (\<lambda>order_id.
          bindM (effM (sc_time C)) (\<lambda>t.
          returnM (case order_id of
            Some i \<Rightarrow> if truthy i then results @ [(i, fl_add t (fl_neg start_time))] else results
          | None \<Rightarrow> results)))))
         (\<lambda>e. returnM results))
       (worker C queue)"

text \<open>
  Waiting for the projections, in a \<open>while True\<close> that swallows every error: a round of it asks for the
  statistics and says whether enough orders are projected; \<open>None\<close> is a loop that never ends.
\<close>

definition projected_enough :: "pyval \<Rightarrow> int \<Rightarrow> exn + bool" where
  "projected_enough stats target_orders =
     (case stats of
        PDict d \<Rightarrow> (case dict_get d ''total_orders'' (PInt 0) of PInt n \<Rightarrow> Inr (target_orders \<le> n) | _ \<Rightarrow> Inl TypeError)
      | _ \<Rightarrow> Inl AttributeError)"

definition poll :: "'w script_env \<Rightarrow> int \<Rightarrow> ('w, bool) io" where
  "poll C target_orders =
     tryM
       (bindM (bindM (http_get C ''/queries/stats'') (\<lambda>r. liftM (resp_json r))) (\<lambda>stats.
        liftM (projected_enough stats target_orders)))
       (\<lambda>e. returnM False)"

partial_function (option) await_projections :: "'w script_env \<Rightarrow> int \<Rightarrow> 'w \<Rightarrow> ((exn + unit) \<times> 'w) option" where
  "await_projections C target_orders w =
     (case poll C target_orders w of
        (Inl e, w1) \<Rightarrow> Some (Inl e, w1)
      | (Inr enough, w1) \<Rightarrow>
          if enough then Some (Inr (), w1)
          else (case sc_sleep C (1 / 2) w1 of
                  (Inl e, w2) \<Rightarrow> Some (Inl e, w2)
                | (Inr _, w2) \<Rightarrow> await_projections C target_orders w2))"

text \<open>Phase 2: the events of the selected orders, republished, and what is compared before and after.\<close>

fun set_aggregate_id :: "pyval \<Rightarrow> pyval \<Rightarrow> exn + pyval" where
  "set_aggregate_id order_id (PDict ev) = Inr (PDict (dict_set ev ''aggregate_id'' order_id))"
| "set_aggregate_id order_id _ = Inl TypeError"

fun duplicate_events :: "'w script_env \<Rightarrow> pyval list \<Rightarrow> ('w, pyval list) io" where
  "duplicate_events C [] = returnM []"
| "duplicate_events C (order_id # orders) =
     bindM (http_get C (''/queries/orders/'' @ sc_format C order_id @ ''/events'')) (\<lambda>resp.
     bindM (if rs_status resp = 200
            then bindM (liftM (resp_json resp)) (\<lambda>events.
                 case events of
                   PList evs \<Rightarrow> liftM (mapR (set_aggregate_id order_id) evs)
                 | _ \<Rightarrow> raiseM TypeError)
            else returnM []) (\<lambda>evs.
     bindM (duplicate_events C orders) (\<lambda>rest. returnM (evs @ rest))))"

fun republish :: "'w script_env \<Rightarrow> pyval list \<Rightarrow> ('w, unit) io" where
  "republish C [] = returnM ()"
| "republish C (event # events) =
     bindM (liftM (py_item event ''aggregate_id'')) (\<lambda>key.
     bindM (case key of PStr k \<Rightarrow> returnM k | _ \<Rightarrow> raiseM AttributeError) (\<lambda>k.
     bindM (liftM (sc_dumps C event)) (\<lambda>value.
     bindM (sc_produce C \<lparr>kr_topic = ''order-events'', kr_key = k, kr_value = value, kr_headers = []\<rparr>) (\<lambda>_.
     republish C events))))"

record observation =
  ob_total_orders :: pyval
  ob_version :: pyval
  ob_item_count :: nat
  ob_status :: pyval

definition py_len :: "pyval \<Rightarrow> exn + nat" where
  "py_len v = (case v of PList vs \<Rightarrow> Inr (length vs) | PDict d \<Rightarrow> Inr (length d) | PStr s \<Rightarrow> Inr (length s) | _ \<Rightarrow> Inl TypeError)"

definition observation_of :: "pyval \<Rightarrow> pyval \<Rightarrow> exn + observation" where
  "observation_of stats sample =
     bindR (py_item stats ''total_orders'') (\<lambda>n.
     bindR (py_item sample ''version'') (\<lambda>v.
     bindR (bindR (py_item sample ''items'') py_len) (\<lambda>k.
     bindR (py_item sample ''status'') (\<lambda>s.
     Inr \<lparr>ob_total_orders = n, ob_version = v, ob_item_count = k, ob_status = s\<rparr>))))"

definition observe :: "'w script_env \<Rightarrow> pyval list \<Rightarrow> ('w, observation) io" where
  "observe C selected_orders =
     bindM (bindM (http_get C ''/queries/stats'') (\<lambda>r. liftM (resp_json r))) (\<lambda>stats.
     bindM (case selected_orders of [] \<Rightarrow> raiseM IndexError | i # _ \<Rightarrow> returnM i) (\<lambda>sample_order_id.
     bindM (bindM (http_get C (''/queries/orders/'' @ sc_format C sample_order_id)) (\<lambda>r. liftM (resp_json r))) (\<lambda>sample.
     liftM (observation_of stats sample))))"

definition duplicate_processing_errors :: "observation \<Rightarrow> observation \<Rightarrow> nat" where
  "duplicate_processing_errors before after =
     (if ob_total_orders before \<noteq> ob_total_orders after then 1 else 0) +
     (if ob_version before \<noteq> ob_version after then 1 else 0) +
     (if ob_item_count before \<noteq> ob_item_count after then 1 else 0) +
     (if ob_status before \<noteq> ob_status after then 1 else 0)"

definition replay_test :: "'w script_env \<Rightarrow> pyval list \<Rightarrow> ('w, nat) io" where
  "replay_test C selected_orders =
     bindM (duplicate_events C selected_orders) (\<lambda>events.
     bindM (observe C selected_orders) (\<lambda>before.
     bindM (sc_producer_start C ''localhost:9092'') (\<lambda>_.
     bindM (finallyM (republish C events) (sc_producer_stop C)) (\<lambda>_.
     bindM (sc_sleep C 3) (\<lambda>_.
     bindM (observe C selected_orders) (\<lambda>after.
     returnM (duplicate_processing_errors before after)))))))"

section \<open>The scripts against an API whose services answer\<close>

lemma split_slash_ne [simp]: "split_slash s \<noteq> []"
  by (induction s) (auto split: list.splits)

lemma split_slash_plain: "CHR 0x2F \<notin> set s \<Longrightarrow> split_slash s = [s]"
  by (induction s) auto

lemma split_slash_append: "CHR 0x2F \<notin> set s \<Longrightarrow> split_slash (s @ CHR 0x2F # t) = s # split_slash t"
  by (induction s) auto

lemma command_url:
  assumes "CHR 0x2F \<notin> set oid" and "CHR 0x2F \<notin> set action"
    and "sc_format C (PStr oid) = oid"
  shows "tl (split_slash (order_url C (PStr oid) action)) = [''commands'', ''orders'', oid, action]"
  using split_slash_append [OF assms(1), of action] split_slash_plain [OF assms(2)] assms(3) by (simp add: order_url_def)

lemma create_url: "tl (split_slash ''/commands/orders'') = [''commands'', ''orders'']"
  by simp

text \<open>The item a script adds, and its line total.\<close>

definition script_item :: "string \<Rightarrow> string \<Rightarrow> int \<Rightarrow> int \<Rightarrow> item" where
  "script_item pid nm q price = request_item
     \<lparr>ai_product_id = pid, ai_product_name = nm, ai_quantity = q, ai_unit_price = Fin (of_int price)\<rparr>"

lemma fl_round_small [simp]: "\<bar>n\<bar> < 2 ^ 53 \<Longrightarrow> fl_round (of_int n) = Fin (of_int n)"
  by (rule fl_round_of_int)

lemma script_item_total:
  assumes "\<bar>q\<bar> < 2 ^ 53" and "\<bar>q * price\<bar> < 2 ^ 53"
  shows "it_line_total (script_item pid nm q price) = Fin (of_int (q * price))"
  using assms fl_round_small [OF assms(2)] by (simp add: script_item_def request_item_def float_of_int_def)

lemma script_total:
  assumes "0 \<le> x" and "0 \<le> y" and "x + y < 2 ^ 53"
  shows "fl_add (fl_add (Fin 0) (Fin (of_int x))) (Fin (of_int y)) = Fin (of_int (x + y))"
  using assms fl_round_small [of x] fl_round_small [of "x + y"] by simp

text \<open>An order with this history in a world where every service answers.\<close>

definition order_at :: "('w \<Rightarrow> backend) \<Rightarrow> ('w \<Rightarrow> bool) \<Rightarrow> string \<Rightarrow> (int \<times> order_event) list \<Rightarrow> 'w \<Rightarrow> bool" where
  "order_at V live oid h w \<longleftrightarrow> live w \<and> store_ok (V w) \<and> only_keys (V w) \<and> order_history (V w) oid = h \<and>
     oid \<noteq> [] \<and> CHR 0x2F \<notin> set oid \<and> text_ok oid"

text \<open>Commands only add keys to Redis.\<close>

context write_side
begin

lemma command_finite_keys:
  assumes "exec_command P M pub R cmd w = (r, w')" and "finite (dom (b_kv (V w)))"
  shows "finite (dom (b_kv (V w')))"
proof -
  let ?I = "\<lambda>w. finite (dom (b_kv (V w)))"
  have eff: "keepsM ?I (effM (uuid4 (pf_env P)))" "keepsM ?I (effM (time_time (pf_env P)))"
    by (auto intro!: keepsM_effM simp: uuid4_view time_view)
  have find: "keepsM ?I (find_sorted M f k asc n)" "keepsM ?I (find_one_sorted M f p k asc)" for f k asc n p
    by (rule keepsMI, case_tac r, auto dest!: find_ok find_err find_one_ok find_one_err)+
  have redis: "keepsM ?I (redis_get R key)" "keepsM ?I (redis_setex R key n v)" for key n v
    by (rule keepsMI, case_tac r, auto dest!: get_ok get_err setex_ok setex_err)+
  have "keepsM ?I (insert_one M d)" for d
    by (rule keepsMI, case_tac r) (auto dest!: insert_ok insert_err split: if_splits)
  then have append: "keepsM ?I (append_es M d)" for d
    unfolding append_es_def by (intro keeps_intros)
  have publish: "keepsM ?I (publish_via P pub ev)" for ev
    by (rule keepsMI, erule publish_via_effect) (auto simp: sent_kv)
  note parts = keeps_intros eff find redis append publish
  have run: "keepsM ?I (run_command P M pub oid guard mk msg)" if "\<And>v. keepsM ?I (mk v)" for oid guard mk msg
    unfolding run_command_def load_aggregate_def get_events_def by (intro parts that)
  have create: "keepsM ?I (create_order P M pub R req)" for req
    unfolding create_order_eq create_fresh_def [abs_def] get_latest_version_def order_created_event_def BaseEvent_def
    by (intro parts) (auto intro!: parts split: option.splits)
  have "keepsM ?I (exec_command P M pub R cmd)"
    by (cases cmd)
      (simp_all only: exec_command.simps handler_runs process_payment_run order_item_added_event_def order_confirmed_event_def [abs_def]
        order_payment_processed_event_def order_shipped_event_def order_cancelled_event_def BaseEvent_def create,
       auto intro!: run parts)
  from keepsMD [OF this assms] show ?thesis .
qed

end

text \<open>What a command on one order leaves alone: the other orders; and Redis holds finitely many keys.\<close>

definition only_order :: "('w \<Rightarrow> backend) \<Rightarrow> string \<Rightarrow> 'w \<Rightarrow> 'w \<Rightarrow> bool" where
  "only_order V oid w w' \<longleftrightarrow> (\<forall>a. a \<noteq> oid \<longrightarrow> order_history (V w') a = order_history (V w) a) \<and>
     (finite (dom (b_kv (V w))) \<longrightarrow> finite (dom (b_kv (V w'))))"

text \<open>
  What the scripts rely on: requests reach the API, identifiers contain no slash and no NUL, and while they
  sleep nobody else writes events (the consumer may mark documents to expire).
\<close>

locale scripts_up = web_laws W V +
  up: write_side_up "wb_mongo W" "wb_redis W" "wb_producer W" V "wb_platform W" live
  for C :: "'w script_env" and W :: "'w web" and V :: "'w \<Rightarrow> backend" and live +
  assumes send_serve: "sc_send C rq w = (Inr (fst (serve W rq w)), snd (serve W rq w))"
    and script_uuid: "live w \<Longrightarrow> live (snd (sc_uuid4 C w)) \<and> V (snd (sc_uuid4 C w)) = V w"
    and plain_id: "CHR 0x2F \<notin> set (fst (uuid4 (pf_env (wb_platform W)) w)) \<and> text_ok (fst (uuid4 (pf_env (wb_platform W)) w))"
    and script_sleep: "live w \<Longrightarrow> \<exists>w'. sc_sleep C n w = (Inr (), w') \<and> live w' \<and>
      same_docs (b_docs (V w)) (b_docs (V w')) \<and> b_indexes (V w') = b_indexes (V w)"
    and find_one_up: "live w \<Longrightarrow> \<exists>r w'. find_one_sorted (wb_mongo W) f p k asc w = (Inr r, w') \<and> live w'"
    and format_id: "sc_format C (PStr s) = s"
begin

lemma serve_ok:
  assumes "command_route (rq_path rq) = Some cr" and "rq_method rq = ''POST''"
    and "parse_command (wb_fastapi W) cr (rq_json rq) = Inr cmd"
    and "exec_command (wb_platform W) (wb_mongo W) (wb_publisher W) (wb_redis W) cmd w = (Inr resp, w')"
  shows "sc_send C rq w = (Inr \<lparr>rs_status = success_status cr, rs_json = Some (CommandResponse_json resp)\<rparr>, w')"
  using assms render_ok [OF json_val_CommandResponse [of resp]]
  by (simp add: send_serve serve_def respond_def run_route_def bindM_def io_simps)

lemma post_up:
  assumes "order_at V live oid h w" and "h \<noteq> []" and "command_route [''commands'', ''orders'', oid, action] = Some cr"
    and "CHR 0x2F \<notin> set action" and "parse_command (wb_fastapi W) cr body = Inr cmd" and "target cmd = Some (oid, kind)"
    and "admits (order_run order_init h) kind" and "servable cmd" and "length h < 10"
  shows "\<exists>resp w'. post C (order_url C (PStr oid) action) body w =
      (Inr \<lparr>rs_status = success_status cr, rs_json = Some (CommandResponse_json resp)\<rparr>, w') \<and>
    order_at V live oid (h @ [(int (length h) + 1, kind)]) w' \<and> only_order V oid w w'"
proof -
  have at: "live w" "store_ok (V w)" "only_keys (V w)" "order_history (V w) oid = h" "oid \<noteq> []" "CHR 0x2F \<notin> set oid" "text_ok oid"
    using assms(1) by (auto simp: order_at_def)
  have "os_version (order_run order_init h) = int (length h)"
    using at(2,4) valid_from_run_version [of order_init h] by (auto simp: store_ok_def)
  then have "ints64 (PInt (os_version (order_state_of (V w) oid) + 1))"
    using assms(9) at(4) by simp
  then obtain resp w' where run: "exec_command (wb_platform W) (wb_mongo W) (wb_publisher W) (wb_redis W) cmd w = (Inr resp, w')" "live w'"
    using up.command_up [OF at(1-3) assms(6)] assms(2,7,8) at(4) by auto
  have rec: "recorded (wb_platform W) (V w) (V w') oid kind resp"
    using ws.command_recorded [OF run(1) at(2) assms(6)] .
  have step: "store_step (V w) (V w')" by (rule ws.command_step [OF run(1) at(2)])
  then have "order_at V live oid (h @ [(int (length h) + 1, kind)]) w'"
    using run(2) store_step_ok [OF step at(2)] at rec by (auto simp: order_at_def recorded_def store_step_def only_keys_def)
  moreover have "only_order V oid w w'"
    using rec ws.command_finite_keys [OF run(1)] by (simp add: only_order_def recorded_def)
  moreover have "post C (order_url C (PStr oid) action) body w =
      (Inr \<lparr>rs_status = success_status cr, rs_json = Some (CommandResponse_json resp)\<rparr>, w')"
    unfolding post_def command_url [OF at(6) assms(4) format_id] using assms(3,5) run(1) by (intro serve_ok) simp_all
  ultimately show ?thesis by blast
qed

lemma sleep_at:
  assumes "order_at V live oid h w"
  shows "\<exists>w'. sc_sleep C n w = (Inr (), w') \<and> order_at V live oid h w'"
proof -
  obtain w' where w': "sc_sleep C n w = (Inr (), w')" "live w'" "same_docs (b_docs (V w)) (b_docs (V w'))" "b_indexes (V w') = b_indexes (V w)"
    using script_sleep [of w n] assms by (auto simp: order_at_def)
  then show ?thesis
    using assms same_docs_store [OF w'(3,4)] same_docs_history [OF w'(3), of oid]
    by (auto simp: order_at_def only_keys_def)
qed

lemma uuid_at:
  assumes "order_at V live oid h w"
  shows "order_at V live oid h (snd (sc_uuid4 C w))"
  using assms script_uuid [of w] by (auto simp: order_at_def)

lemma latest_up:
  assumes "order_at V live oid h w" and "h \<noteq> []"
  shows "\<exists>v w'. get_latest_version (wb_mongo W) oid w = (Inr v, w') \<and> live w'"
proof -
  let ?p = "''aggregate_version''"
  have at: "live w" "store_ok (V w)" "order_history (V w) oid = h" using assms(1) by (auto simp: order_at_def)
  obtain r w' where find: "find_one_sorted (wb_mongo W) (''aggregate_id'', PStr oid) ?p ?p False w = (Inr r, w')" "live w'"
    using find_one_up [OF at(1)] by blast
  obtain full where full: "mset full = mset (agg_docs (V w) oid)"
    "r = (case full of [] \<Rightarrow> None | d # _ \<Rightarrow> Some (filter (\<lambda>kv. fst kv \<in> {''_id'', ?p}) d))"
    using ws.find_one_ok [OF find(1)] by (auto simp: agg_docs_def)
  have "\<exists>v. version_item (filter (\<lambda>kv. fst kv \<in> {''_id'', ?p}) d) = Inr v \<and> filter (\<lambda>kv. fst kv \<in> {''_id'', ?p}) d \<noteq> []"
    if "full = d # ds" for d ds
  proof -
    have "d \<in> set (agg_docs (V w) oid)" using full(1) that by (metis list.set_intros(1) mset_eq_setD)
    then have "wf_doc d" using at(2) by (auto simp: store_ok_def agg_docs_def)
    then obtain v where v: "map_of d ?p = Some (PInt v)" by (auto simp: wf_doc_def decode_Some)
    have "map_of (filter (\<lambda>kv. fst kv \<in> {''_id'', ?p}) d) ?p = Some (PInt v)"
      using v by (induction d) auto
    moreover from this have "filter (\<lambda>kv. fst kv \<in> {''_id'', ?p}) d \<noteq> []" by auto
    ultimately show ?thesis by (simp add: version_item_def dict_item_def)
  qed
  then show ?thesis
    using find full(2) unfolding get_latest_version_def bindM_def
    by (cases full) (auto simp: io_simps)
qed

lemma create_post_up:
  assumes "live w" and "store_ok (V w)" and "only_keys (V w)" and "b_kv (V w) (''idem:create:'' @ key) = None"
  shows "\<exists>resp w'. post C ''/commands/orders'' (Some (order_body c m key)) w =
      (Inr \<lparr>rs_status = 201, rs_json = Some (CommandResponse_json resp)\<rparr>, w') \<and>
    order_at V live (cr_aggregate_id resp) [(1, Created c m)] w' \<and>
    b_kv (V w') (''idem:create:'' @ key) = Some (cr_aggregate_id resp) \<and>
    order_history (V w) (cr_aggregate_id resp) = [] \<and> only_order V (cr_aggregate_id resp) w w'"
proof -
  let ?req = "\<lparr>co_customer_id = c, co_customer_email = m, co_idempotency_key = key\<rparr>"
  obtain resp w' w1 where run: "create_order (wb_platform W) (wb_mongo W) (wb_publisher W) (wb_redis W) ?req w = (Inr resp, w')"
    "live w'" "cr_aggregate_id resp = fst (uuid4 (pf_env (wb_platform W)) w1)"
    "order_history (V w) (cr_aggregate_id resp) = []"
    "order_history (V w') = (order_history (V w))(cr_aggregate_id resp := [(1, Created c m)])"
    using up.create_up [OF assms(1-3), of ?req] assms(4) by auto
  have exec: "exec_command (wb_platform W) (wb_mongo W) (wb_publisher W) (wb_redis W) (CreateOrder ?req) w = (Inr resp, w')"
    using run(1) by simp
  have only: "only_order V (cr_aggregate_id resp) w w'"
    using run(5) ws.command_finite_keys [OF exec] by (simp add: only_order_def)
  have step: "store_step (V w) (V w')" by (rule ws.create_step [OF run(1) assms(2)])
  have key: "b_kv (V w') (''idem:create:'' @ key) = Some (cr_aggregate_id resp)" "cr_aggregate_id resp \<noteq> []"
    using ws.create_marks_key [OF run(1) assms(2)] by auto
  have "order_at V live (cr_aggregate_id resp) [(1, Created c m)] w'"
    using run key(2) store_step_ok [OF step assms(2)] step assms(3) plain_id [of w1]
    by (auto simp: order_at_def store_step_def only_keys_def)
  moreover have "post C ''/commands/orders'' (Some (order_body c m key)) w =
      (Inr \<lparr>rs_status = success_status RCreate, rs_json = Some (CommandResponse_json resp)\<rparr>, w')"
    unfolding post_def create_url using run(1)
    by (intro serve_ok [where cmd = "CreateOrder ?req"])
      (simp_all add: command_route_def CreateOrderRequest_def order_body_def body_field_def str_ok)
  ultimately show ?thesis using key(1) run(4) only by auto
qed

lemma create_again:
  assumes "order_at V live oid h w" and "h \<noteq> []" and "b_kv (V w) (''idem:create:'' @ key) = Some oid"
  shows "\<exists>resp w'. post C ''/commands/orders'' (Some (order_body c m key)) w =
      (Inr \<lparr>rs_status = 201, rs_json = Some (CommandResponse_json resp)\<rparr>, w') \<and>
    cr_aggregate_id resp = oid \<and> order_at V live oid h w'"
proof -
  let ?req = "\<lparr>co_customer_id = c, co_customer_email = m, co_idempotency_key = key\<rparr>"
  have oid: "oid \<noteq> []" and at: "live w" using assms(1) by (auto simp: order_at_def)
  obtain w1 where w1: "redis_get (wb_redis W) (''idem:create:'' @ key) w = (Inr (Some oid), w1)" "live w1" "V w1 = V w"
    using up.get_up [OF at, of "''idem:create:'' @ key"] assms(3) ws.get_ok by metis
  then have at1: "order_at V live oid h w1" using assms(1) by (simp add: order_at_def)
  obtain v w' where w': "get_latest_version (wb_mongo W) oid w1 = (Inr v, w')" "live w'"
    using latest_up [OF at1 assms(2)] by blast
  let ?resp = "\<lparr>cr_event_id = ''cached'', cr_aggregate_id = oid, cr_aggregate_version = v,
    cr_message = ''Order already created (idempotent)''\<rparr>"
  have run: "create_order (wb_platform W) (wb_mongo W) (wb_publisher W) (wb_redis W) ?req w = (Inr ?resp, w')"
    using w1(1) w'(1) oid by (simp add: create_order_eq bindM_def io_simps)
  have "post C ''/commands/orders'' (Some (order_body c m key)) w =
      (Inr \<lparr>rs_status = success_status RCreate, rs_json = Some (CommandResponse_json ?resp)\<rparr>, w')"
    unfolding post_def create_url using run
    by (intro serve_ok [where cmd = "CreateOrder ?req"])
      (simp_all add: command_route_def CreateOrderRequest_def order_body_def body_field_def str_ok)
  moreover have "order_at V live oid h w'"
    using at1 w'(2) ws.get_latest_view [OF w'(1)] by (simp add: order_at_def)
  ultimately show ?thesis by (intro exI [of _ ?resp] exI [of _ w']) simp
qed

text \<open>The actions of the scripts on an order.\<close>

lemma item_up:
  assumes "order_at V live oid h w" and "h \<noteq> []" and "os_status (order_run order_init h) = PENDING" and "length h < 10"
    and "q \<in> {1, 4}" and "0 < price"
  shows "\<exists>resp w'. post C (order_url C (PStr oid) ''items'') (Some (item_body pid nm q price)) w =
      (Inr \<lparr>rs_status = 200, rs_json = Some (CommandResponse_json resp)\<rparr>, w') \<and>
    order_at V live oid (h @ [(int (length h) + 1, ItemAdded (script_item pid nm q price))]) w' \<and> only_order V oid w w'"
proof -
  let ?req = "\<lparr>ai_product_id = pid, ai_product_name = nm, ai_quantity = q, ai_unit_price = Fin (of_int price)\<rparr>"
  have oid: "oid \<noteq> []" and v: "os_version (order_run order_init h) \<noteq> 0"
    using assms(1,2) valid_from_run_version [of order_init h] by (auto simp: order_at_def store_ok_def)
  have "valid_add_item ?req" using assms(5,6) by (auto simp: valid_add_item_def)
  then have parse: "parse_command (wb_fastapi W) (RItems oid) (Some (item_body pid nm q price)) = Inr (AddItem oid ?req)"
    by (simp add: AddItemRequest_def item_body_def body_field_def str_ok int_ok float_ok Let_def)
  have "fl_round (of_int q) = Fin (of_int q)" using assms(5) by (intro fl_round_of_int) auto
  then have "servable (AddItem oid ?req)" using assms(5) by (auto simp: float_of_int_def)
  from post_up [OF assms(1,2) _ _ parse _ _ this assms(4), where action = "''items''"] show ?thesis
    using oid v assms(3) by (auto simp: command_route_def script_item_def)
qed

lemma confirm_up:
  assumes "order_at V live oid h w" and "h \<noteq> []" and "os_status (order_run order_init h) = PENDING"
    and "os_items (order_run order_init h) \<noteq> []" and "length h < 10"
  shows "\<exists>resp w'. post C (order_url C (PStr oid) ''confirm'') None w =
      (Inr \<lparr>rs_status = 200, rs_json = Some (CommandResponse_json resp)\<rparr>, w') \<and>
    order_at V live oid (h @ [(int (length h) + 1, Confirmed)]) w' \<and> only_order V oid w w'"
proof -
  have "oid \<noteq> []" "os_version (order_run order_init h) \<noteq> 0"
    using assms(1,2) valid_from_run_version [of order_init h] by (auto simp: order_at_def store_ok_def)
  then show ?thesis
    using post_up [OF assms(1,2), where action = "''confirm''" and cmd = "ConfirmOrder oid"
      and cr = "RConfirm oid" and body = None and kind = Confirmed] assms(3-5)
    by (simp add: command_route_def)
qed

lemma pay_up:
  assumes "order_at V live oid h w" and "h \<noteq> []" and "os_status (order_run order_init h) = CONFIRMED"
    and "length h < 10" and "\<not> prefix ''fail_'' pid" and "0 < amount"
  shows "\<exists>resp w'. post C (order_url C (PStr oid) ''payment'') (Some (payment_body pid amount m)) w =
      (Inr \<lparr>rs_status = 200, rs_json = Some (CommandResponse_json resp)\<rparr>, w') \<and>
    order_at V live oid (h @ [(int (length h) + 1, Paid pid)]) w' \<and> only_order V oid w w'"
proof -
  let ?req = "\<lparr>pp_payment_id = pid, pp_amount = Fin (of_int amount), pp_method = m\<rparr>"
  have ov: "oid \<noteq> []" "os_version (order_run order_init h) \<noteq> 0"
    using assms(1,2) valid_from_run_version [of order_init h] by (auto simp: order_at_def store_ok_def)
  have parse: "parse_command (wb_fastapi W) (RPayment oid) (Some (payment_body pid amount m)) = Inr (ProcessPayment oid ?req)"
    using assms(6) by (simp add: ProcessPaymentRequest_def payment_body_def body_field_def str_ok float_ok valid_payment_def Let_def)
  from post_up [OF assms(1,2) _ _ parse _ _ _ assms(4), where action = "''payment''"] show ?thesis
    using ov assms(3,5) by (simp add: command_route_def startswith_def)
qed

lemma ship_up:
  assumes "order_at V live oid h w" and "h \<noteq> []" and "os_status (order_run order_init h) = PAID" and "length h < 10"
  shows "\<exists>resp w'. post C (order_url C (PStr oid) ''ship'') (Some (ship_body t c)) w =
      (Inr \<lparr>rs_status = 200, rs_json = Some (CommandResponse_json resp)\<rparr>, w') \<and>
    order_at V live oid (h @ [(int (length h) + 1, Shipped t)]) w' \<and> only_order V oid w w'"
proof -
  let ?req = "\<lparr>so_tracking_id = t, so_carrier = c\<rparr>"
  have ov: "oid \<noteq> []" "os_version (order_run order_init h) \<noteq> 0"
    using assms(1,2) valid_from_run_version [of order_init h] by (auto simp: order_at_def store_ok_def)
  have parse: "parse_command (wb_fastapi W) (RShip oid) (Some (ship_body t c)) = Inr (ShipOrder oid ?req)"
    by (simp add: ShipOrderRequest_def ship_body_def body_field_def str_ok)
  from post_up [OF assms(1,2) _ _ parse _ _ _ assms(4), where action = "''ship''"] show ?thesis
    using ov assms(3) by (simp add: command_route_def)
qed

lemma cancel_up:
  assumes "order_at V live oid h w" and "h \<noteq> []" and "os_status (order_run order_init h) = PENDING" and "length h < 10"
  shows "\<exists>resp w'. post C (order_url C (PStr oid) ''cancel'') (Some (PDict [(''reason'', PStr t)])) w =
      (Inr \<lparr>rs_status = 200, rs_json = Some (CommandResponse_json resp)\<rparr>, w') \<and>
    order_at V live oid (h @ [(int (length h) + 1, Cancelled)]) w' \<and> only_order V oid w w'"
proof -
  have ov: "oid \<noteq> []" "os_version (order_run order_init h) \<noteq> 0"
    using assms(1,2) valid_from_run_version [of order_init h] by (auto simp: order_at_def store_ok_def)
  have parse: "parse_command (wb_fastapi W) (RCancel oid) (Some (PDict [(''reason'', PStr t)])) = Inr (CancelOrder oid \<lparr>ca_reason = t\<rparr>)"
    by (simp add: CancelOrderRequest_def body_field_def str_ok)
  from post_up [OF assms(1,2) _ _ parse _ _ _ assms(4), where action = "''cancel''"] show ?thesis
    using ov assms(3) by (simp add: command_route_def)
qed

lemma post_pr: "post C url body w = (Inr \<lparr>rs_status = n, rs_json = Some j\<rparr>, w') \<Longrightarrow> bindM (post C url body) pr w = (Inr j, w')"
  by (simp add: bindM_def pr_def resp_json_def io_simps)

lemma response_id: "py_item (CommandResponse_json r) ''aggregate_id'' = Inr (PStr (cr_aggregate_id r))"
  by (simp add: CommandResponse_json_def dict_simps)

text \<open>
  From the order with its items to the shipped order.  \<open>f\<close> is what a script does with a response: the
  smoke test reads it, the benchmark does not.
\<close>

lemma finish_up:
  assumes "order_at V live oid [(1, Created c m), (2, ItemAdded i), (3, ItemAdded j)] w" and "0 < amount"
    and "\<And>x. \<not> prefix ''fail_'' (P x)"
    and f: "\<And>n j w. \<exists>x. f \<lparr>rs_status = n, rs_json = Some j\<rparr> w = (Inr x, w)"
  shows "\<exists>w' p t. bindM (bindM (post C (order_url C (PStr oid) ''confirm'') None) f) (\<lambda>_.
      bindM (effM (sc_uuid4 C)) (\<lambda>p.
      bindM (bindM (post C (order_url C (PStr oid) ''payment'') (Some (payment_body (P p) amount pay_method))) f) (\<lambda>_.
      bindM (effM (sc_uuid4 C)) (\<lambda>t.
      bindM (bindM (post C (order_url C (PStr oid) ''ship'') (Some (ship_body (T t) carrier))) f) (\<lambda>_.
      returnM res))))) w = (Inr res, w') \<and>
    order_at V live oid [(1, Created c m), (2, ItemAdded i), (3, ItemAdded j), (4, Confirmed), (5, Paid p), (6, Shipped t)] w'"
proof -
  let ?h = "[(1, Created c m), (2, ItemAdded i), (3, ItemAdded j)]"
  have read: "\<exists>x. bindM (post C url body) f w = (Inr x, w')"
    if "post C url body w = (Inr \<lparr>rs_status = n, rs_json = Some j\<rparr>, w')" for url body w n j w'
    using that f by (simp add: bindM_def)
  obtain r1 w1 where w1: "post C (order_url C (PStr oid) ''confirm'') None w =
      (Inr \<lparr>rs_status = 200, rs_json = Some (CommandResponse_json r1)\<rparr>, w1)" "order_at V live oid (?h @ [(4, Confirmed)]) w1"
    using confirm_up [OF assms(1)] by (auto simp: order_apply_def)
  let ?p = "P (fst (sc_uuid4 C w1))"
  obtain r2 w2 where w2: "post C (order_url C (PStr oid) ''payment'') (Some (payment_body ?p amount pay_method)) (snd (sc_uuid4 C w1)) =
      (Inr \<lparr>rs_status = 200, rs_json = Some (CommandResponse_json r2)\<rparr>, w2)"
    "order_at V live oid (?h @ [(4, Confirmed), (5, Paid ?p)]) w2"
    using pay_up [OF uuid_at [OF w1(2)], where pid = ?p and amount = amount and m = pay_method] assms(2,3) by auto
  let ?t = "T (fst (sc_uuid4 C w2))"
  obtain r3 w3 where w3: "post C (order_url C (PStr oid) ''ship'') (Some (ship_body ?t carrier)) (snd (sc_uuid4 C w2)) =
      (Inr \<lparr>rs_status = 200, rs_json = Some (CommandResponse_json r3)\<rparr>, w3)"
    "order_at V live oid (?h @ [(4, Confirmed), (5, Paid ?p), (6, Shipped ?t)]) w3"
    using ship_up [OF uuid_at [OF w2(2)], where t = ?t and c = carrier] by auto
  obtain x1 x2 x3 where x: "bindM (post C (order_url C (PStr oid) ''confirm'') None) f w = (Inr x1, w1)"
    "bindM (post C (order_url C (PStr oid) ''payment'') (Some (payment_body ?p amount pay_method))) f (snd (sc_uuid4 C w1)) = (Inr x2, w2)"
    "bindM (post C (order_url C (PStr oid) ''ship'') (Some (ship_body ?t carrier))) f (snd (sc_uuid4 C w2)) = (Inr x3, w3)"
    using read [OF w1(1)] read [OF w2(1)] read [OF w3(1)] by blast
  show ?thesis
    using w3(2) x by (intro exI [of _ w3] exI [of _ ?p] exI [of _ ?t])
      (simp add: bindM_def [of "bindM _ f"] bindM_def [of "effM _"] effM_def returnM_def)
qed

lemma smoke_up:
  assumes "live w" and "store_ok (V w)" and "only_keys (V w)" and "b_kv (V w) (''idem:create:'' @ fst (sc_uuid4 C w)) = None"
  shows "\<exists>oid w' p t. smoke_commands C w = (Inr (PStr oid), w') \<and>
    order_at V live oid [(1, Created ''cust-rohit-001'' ''rohit@spinny.com''),
      (2, ItemAdded (script_item ''prod-swift-001'' ''Maruti Swift VXI 2022'' 1 650000)),
      (3, ItemAdded (script_item ''prod-insurance-001'' ''1 Year Insurance'' 1 15000)),
      (4, Confirmed), (5, Paid p), (6, Shipped t)] w'"
proof -
  let ?key = "fst (sc_uuid4 C w)" and ?w0 = "snd (sc_uuid4 C w)" and ?h = "[(1, Created ''cust-rohit-001'' ''rohit@spinny.com'')]"
  let ?body = "Some (order_body ''cust-rohit-001'' ''rohit@spinny.com'' ?key)"
  have w0: "live ?w0" "store_ok (V ?w0)" "only_keys (V ?w0)" "b_kv (V ?w0) (''idem:create:'' @ ?key) = None"
    using script_uuid [OF assms(1)] assms by auto
  obtain resp w1 where w1: "post C ''/commands/orders'' ?body ?w0 =
      (Inr \<lparr>rs_status = 201, rs_json = Some (CommandResponse_json resp)\<rparr>, w1)"
    "order_at V live (cr_aggregate_id resp) ?h w1" "b_kv (V w1) (''idem:create:'' @ ?key) = Some (cr_aggregate_id resp)"
    using create_post_up [OF w0] by blast
  let ?oid = "cr_aggregate_id resp"
  obtain resp2 w2 where w2: "post C ''/commands/orders'' ?body w1 =
      (Inr \<lparr>rs_status = 201, rs_json = Some (CommandResponse_json resp2)\<rparr>, w2)" "cr_aggregate_id resp2 = ?oid" "order_at V live ?oid ?h w2"
    using create_again [OF w1(2) _ w1(3)] by blast
  obtain w3 where w3: "sc_sleep C (1 / 2) w2 = (Inr (), w3)" "order_at V live ?oid ?h w3"
    using sleep_at [OF w2(3)] by blast
  let ?i = "script_item ''prod-swift-001'' ''Maruti Swift VXI 2022'' 1 650000"
  let ?j = "script_item ''prod-insurance-001'' ''1 Year Insurance'' 1 15000"
  obtain r4 w4 where w4: "post C (order_url C (PStr ?oid) ''items'') (Some (item_body ''prod-swift-001'' ''Maruti Swift VXI 2022'' 1 650000)) w3 =
      (Inr \<lparr>rs_status = 200, rs_json = Some (CommandResponse_json r4)\<rparr>, w4)" "order_at V live ?oid (?h @ [(2, ItemAdded ?i)]) w4"
    using item_up [OF w3(2), where q = 1 and price = 650000 and pid = "''prod-swift-001''" and nm = "''Maruti Swift VXI 2022''"] by auto
  obtain r5 w5 where w5: "post C (order_url C (PStr ?oid) ''items'') (Some (item_body ''prod-insurance-001'' ''1 Year Insurance'' 1 15000)) w4 =
      (Inr \<lparr>rs_status = 200, rs_json = Some (CommandResponse_json r5)\<rparr>, w5)" "order_at V live ?oid (?h @ [(2, ItemAdded ?i), (3, ItemAdded ?j)]) w5"
    using item_up [OF w4(2), where q = 1 and price = 15000 and pid = "''prod-insurance-001''" and nm = "''1 Year Insurance''"] by auto
  obtain w6 where w6: "sc_sleep C (1 / 2) w5 = (Inr (), w6)" "order_at V live ?oid (?h @ [(2, ItemAdded ?i), (3, ItemAdded ?j)]) w6"
    using sleep_at [OF w5(2)] by blast
  have "smoke_commands C w = (bindM (bindM (post C (order_url C (PStr ?oid) ''confirm'') None) pr) (\<lambda>_.
      bindM (effM (sc_uuid4 C)) (\<lambda>p.
      bindM (bindM (post C (order_url C (PStr ?oid) ''payment'') (Some (payment_body (''pay-'' @ p) 665000 ''NETBANKING''))) pr) (\<lambda>_.
      bindM (effM (sc_uuid4 C)) (\<lambda>t.
      bindM (bindM (post C (order_url C (PStr ?oid) ''ship'')
        (Some (ship_body (''TRK-'' @ str_upper (take 8 (uuid_hex t))) ''Spinny Logistics''))) pr) (\<lambda>_.
      returnM (PStr ?oid)))))) w6)"
    unfolding smoke_commands_def
    using post_pr [OF w1(1)] post_pr [OF w2(1)] w3(1) post_pr [OF w4(1)] post_pr [OF w5(1)] w6(1) w2(2)
    by (simp add: Let_def bindM_def [of "bindM _ pr"] bindM_def [of "liftM _"] bindM_def [of "sc_sleep _ _"]
        bindM_def [of "effM (sc_uuid4 C)" _ w] io_simps response_id)
  moreover have "\<exists>x. pr \<lparr>rs_status = n, rs_json = Some j\<rparr> w = (Inr x, w)" for n j and w :: 'w
    by (simp add: pr_def resp_json_def io_simps)
  ultimately show ?thesis
    using finish_up [where P = "\<lambda>p. ''pay-'' @ p" and T = "\<lambda>t. ''TRK-'' @ str_upper (take 8 (uuid_hex t))" and f = pr
        and res = "PStr ?oid" and amount = 665000 and pay_method = "''NETBANKING''" and carrier = "''Spinny Logistics''"
        and oid = ?oid and w = w6 and i = ?i and j = ?j] w6(2) by fastforce
qed

lemma bindM_returnM [simp]: "bindM m returnM = m"
  by (rule ext) (auto simp: bindM_def returnM_def split: prod.splits sum.splits)

lemma lifecycle_up:
  assumes "live w" and "store_ok (V w)" and "only_keys (V w)" and "b_kv (V w) (''idem:create:'' @ fst (sc_uuid4 C w)) = None"
  shows "\<exists>oid w' c a b p t. create_single_order_full_lifecycle C worker_id w = (Inr (Some (PStr oid)), w') \<and>
    order_at V live oid [(1, Created c ''bench@test.com''), (2, ItemAdded (script_item a ''Car Polish'' 1 500)),
      (3, ItemAdded (script_item b ''Alloy Wheels'' 4 12000)), (4, Confirmed), (5, Paid p), (6, Shipped t)] w'"
proof -
  let ?key = "fst (sc_uuid4 C w)" and ?w0 = "snd (sc_uuid4 C w)"
  let ?c = "''cust-bench-'' @ worker_id @ ''-'' @ take 6 (uuid_hex (fst (sc_uuid4 C ?w0)))" and ?w1 = "snd (sc_uuid4 C ?w0)"
  let ?h = "[(1, Created ?c ''bench@test.com'')]"
  have w1: "live ?w1" "store_ok (V ?w1)" "only_keys (V ?w1)" "b_kv (V ?w1) (''idem:create:'' @ ?key) = None"
    using script_uuid [OF assms(1)] script_uuid [of ?w0] assms by auto
  obtain resp w2 where w2: "post C ''/commands/orders'' (Some (order_body ?c ''bench@test.com'' ?key)) ?w1 =
      (Inr \<lparr>rs_status = 201, rs_json = Some (CommandResponse_json resp)\<rparr>, w2)" "order_at V live (cr_aggregate_id resp) ?h w2"
    using create_post_up [OF w1] by blast
  let ?oid = "cr_aggregate_id resp"
  let ?a = "''prod-a-'' @ take 4 (uuid_hex (fst (sc_uuid4 C w2)))"
  let ?i = "script_item ?a ''Car Polish'' 1 500"
  obtain r3 w3 where w3: "post C (order_url C (PStr ?oid) ''items'') (Some (item_body ?a ''Car Polish'' 1 500)) (snd (sc_uuid4 C w2)) =
      (Inr \<lparr>rs_status = 200, rs_json = Some (CommandResponse_json r3)\<rparr>, w3)" "order_at V live ?oid (?h @ [(2, ItemAdded ?i)]) w3"
    using item_up [OF uuid_at [OF w2(2)], where q = 1 and price = 500 and pid = ?a and nm = "''Car Polish''"] by auto
  let ?b = "''prod-b-'' @ take 4 (uuid_hex (fst (sc_uuid4 C w3)))"
  let ?j = "script_item ?b ''Alloy Wheels'' 4 12000"
  obtain r4 w4 where w4: "post C (order_url C (PStr ?oid) ''items'') (Some (item_body ?b ''Alloy Wheels'' 4 12000)) (snd (sc_uuid4 C w3)) =
      (Inr \<lparr>rs_status = 200, rs_json = Some (CommandResponse_json r4)\<rparr>, w4)" "order_at V live ?oid (?h @ [(2, ItemAdded ?i), (3, ItemAdded ?j)]) w4"
    using item_up [OF uuid_at [OF w3(2)], where q = 4 and price = 12000 and pid = ?b and nm = "''Alloy Wheels''"] by auto
  have "create_single_order_full_lifecycle C worker_id w = (bindM (post C (order_url C (PStr ?oid) ''confirm'') None) (\<lambda>_.
      bindM (effM (sc_uuid4 C)) (\<lambda>p.
      bindM (post C (order_url C (PStr ?oid) ''payment'')
        (Some (payment_body (''pay-bench-'' @ take 8 (uuid_hex p)) 48500 ''CREDIT_CARD''))) (\<lambda>_.
      bindM (effM (sc_uuid4 C)) (\<lambda>t.
      bindM (post C (order_url C (PStr ?oid) ''ship'')
        (Some (ship_body (''TRK-BENCH-'' @ str_upper (take 8 (uuid_hex t))) ''Spinny Express''))) (\<lambda>_.
      returnM (Some (PStr ?oid))))))) w4)"
    unfolding create_single_order_full_lifecycle_def using w2(1) w3(1) w4(1)
    by (simp add: Let_def bindM_def [of "post _ _ _"] bindM_def [of "liftM _"] bindM_def [of "bindM _ _"]
        bindM_def [of "effM (sc_uuid4 C)" _ w] bindM_def [of "effM (sc_uuid4 C)" _ ?w0] bindM_def [of "effM (sc_uuid4 C)" _ w2]
        bindM_def [of "effM (sc_uuid4 C)" _ w3] io_simps response_id resp_json_def)
  moreover have "\<exists>x. returnM \<lparr>rs_status = n, rs_json = Some j\<rparr> w = (Inr x, w)" for n j and w :: 'w
    by (simp add: io_simps)
  ultimately show ?thesis
    using finish_up [where P = "\<lambda>p. ''pay-bench-'' @ take 8 (uuid_hex p)" and T = "\<lambda>t. ''TRK-BENCH-'' @ str_upper (take 8 (uuid_hex t))"
        and f = returnM and res = "Some (PStr ?oid)" and amount = 48500 and pay_method = "''CREDIT_CARD''"
        and carrier = "''Spinny Express''" and oid = ?oid and w = w4 and i = ?i and j = ?j] w4(2)
    by fastforce
qed

end

text \<open>
  For the test of event expiry: pymongo finds the documents of the order, and by the time the script
  wakes up the consumer \<open>D\<close> has processed the cancellation of the order; no later event takes an expiry away.
\<close>

definition cancellation :: "string \<Rightarrow> pydict \<Rightarrow> bool" where
  "cancellation oid ev \<longleftrightarrow> map_of ev ''event_type'' = Some (PStr (event_type_value ORDER_CANCELLED)) \<and>
     map_of ev ''aggregate_id'' = Some (PStr oid)"

definition expiring :: "backend \<Rightarrow> string \<Rightarrow> bool" where
  "expiring b oid \<longleftrightarrow> (\<forall>d \<in> set (agg_docs b oid). \<exists>t. map_of d ''expires_at'' = Some (PTime t))"

context consumer_laws
begin

lemma cancellation_expires:
  assumes "cancellation oid ev" and "process_event D ev off w = (Inr (), w')"
  shows "expiring (V w') oid"
proof -
  have oid: "dict_get ev ''aggregate_id'' (PStr ''unknown'') = PStr oid"
    "dict_get ev ''event_type'' PNone \<in> {PStr (event_type_value ORDER_DELIVERED), PStr (event_type_value ORDER_CANCELLED)}"
    using assms(1) by (auto simp: cancellation_def dict_get_def)
  obtain w4 w5 where run: "set_expiry_for_aggregate (ce_store D) (ce_env D) (PStr oid) 2592000 w4 = (Inr (), w5)"
    "ce_commit D off w5 = (Inr (), w')"
    using assms(2) oid by (auto simp: process_event_def Let_def elim!: bindM_InrE)
  let ?v = "PTime (fst (utcnow (ce_env D) w4) + of_int 2592000)" and ?m = "matches (''aggregate_id'', PStr oid)"
  have "update_many_set (ce_store D) (''aggregate_id'', PStr oid) (''expires_at'', ?v) (snd (utcnow (ce_env D) w4)) = (Inr (), w5)"
    using run(1) by (simp add: set_expiry_for_aggregate_def io_simps bindM_def)
  then have "b_docs (V w') = map (\<lambda>d. if ?m d then dict_set d ''expires_at'' ?v else d) (b_docs (V w4))"
    using update_ok utcnow_view commit_ok [OF run(2)] by fastforce
  then show ?thesis by (auto simp: expiring_def agg_docs_def dict_simps)
qed

end

locale expiry_up = scripts_up C W V live + con: consumer_laws D V
  for C :: "'w script_env" and W :: "'w web" and V :: "'w \<Rightarrow> backend" and live and D :: "'w consumer_env" +
  assumes find_up: "live w \<Longrightarrow> \<exists>ds w'. sc_find C (PStr oid) w = (Inr ds, w') \<and> mset ds = mset (agg_docs (V w) oid)"
    and consumer_ran: "sc_sleep C n w = (Inr (), w') \<Longrightarrow> live w \<Longrightarrow> says (b_docs (V w)) oid v Cancelled \<Longrightarrow> int4 v \<Longrightarrow> text_ok oid \<Longrightarrow>
      \<exists>ev off x y. cancellation oid ev \<and> process_event D ev off x = (Inr (), y) \<and> (expiring (V y) oid \<longrightarrow> expiring (V w') oid)"
begin

lemma check_up:
  assumes "order_at V live oid h w" and "length h = 3" and "says (b_docs (V w)) oid v Cancelled" and "int4 v"
  shows "\<exists>w'. bindM (sc_sleep C n) (\<lambda>_. bindM (sc_find C (PStr oid)) check_stamps) w = (Inr (), w')"
proof -
  obtain w1 where w1: "sc_sleep C n w = (Inr (), w1)" "order_at V live oid h w1"
    using sleep_at [OF assms(1)] by blast
  obtain ds w2 where w2: "sc_find C (PStr oid) w1 = (Inr ds, w2)" "mset ds = mset (agg_docs (V w1) oid)"
    using find_up [of w1 oid] w1(2) by (auto simp: order_at_def)
  have "length ds = 3"
    using w2(2) w1(2) assms(2) length_order_history [of "V w1" oid] by (auto simp: order_at_def dest: mset_eq_length)
  moreover have "expiring (V w1) oid"
    using consumer_ran [OF w1(1) _ assms(3,4)] assms(1) con.cancellation_expires by (fastforce simp: order_at_def)
  then have "\<forall>d \<in> set ds. dict_get d ''expires_at'' PNone \<noteq> PNone"
    using mset_eq_setD [OF w2(2)] by (auto simp: expiring_def dict_get_def)
  ultimately show ?thesis
    using w1(1) w2(1) by (simp add: bindM_def check_stamps_def assert_that_def io_simps)
qed

lemma verify_up:
  assumes "live w" and "store_ok (V w)" and "only_keys (V w)" and "b_kv (V w) (''idem:create:'' @ fst (sc_uuid4 C w)) = None"
  shows "\<exists>w'. verify_pruning C w = (Inr (), w')"
proof -
  let ?key = "fst (sc_uuid4 C w)" and ?w0 = "snd (sc_uuid4 C w)" and ?h = "[(1, Created ''cust-prune-test'' ''prune@test.com'')]"
  have w0: "live ?w0" "store_ok (V ?w0)" "only_keys (V ?w0)" "b_kv (V ?w0) (''idem:create:'' @ ?key) = None"
    using script_uuid [OF assms(1)] assms by auto
  obtain resp w1 where w1: "post C ''/commands/orders'' (Some (order_body ''cust-prune-test'' ''prune@test.com'' ?key)) ?w0 =
      (Inr \<lparr>rs_status = 201, rs_json = Some (CommandResponse_json resp)\<rparr>, w1)" "order_at V live (cr_aggregate_id resp) ?h w1"
    using create_post_up [OF w0] by blast
  let ?oid = "cr_aggregate_id resp" and ?i = "script_item ''prod-x-999'' ''Premium Polish'' 1 450"
  obtain r2 w2 where w2: "post C (order_url C (PStr ?oid) ''items'') (Some (item_body ''prod-x-999'' ''Premium Polish'' 1 450)) w1 =
      (Inr \<lparr>rs_status = 200, rs_json = Some (CommandResponse_json r2)\<rparr>, w2)" "order_at V live ?oid (?h @ [(2, ItemAdded ?i)]) w2"
    using item_up [OF w1(2), where q = 1 and price = 450 and pid = "''prod-x-999''" and nm = "''Premium Polish''"] by auto
  obtain r3 w3 where w3: "post C (order_url C (PStr ?oid) ''cancel'') (Some (PDict [(''reason'', PStr ''Test pruning of event store'')])) w2 =
      (Inr \<lparr>rs_status = 200, rs_json = Some (CommandResponse_json r3)\<rparr>, w3)"
    "order_at V live ?oid (?h @ [(2, ItemAdded ?i), (3, Cancelled)]) w3"
    using cancel_up [OF w2(2), where t = "''Test pruning of event store''"] by auto
  have "(3, Cancelled) \<in> set (order_history (V w3) ?oid)" "store_ok (V w3)" using w3(2) by (auto simp: order_at_def)
  then have "says (b_docs (V w3)) ?oid 3 Cancelled" using history_says [of 3 Cancelled "V w3" ?oid] by auto
  then obtain w4 where w4: "bindM (sc_sleep C (3 / 2)) (\<lambda>_. bindM (sc_find C (PStr ?oid)) check_stamps) w3 = (Inr (), w4)"
    using check_up [OF w3(2), of 3] by (auto simp: int4_def)
  have "verify_pruning C w = (Inr (), w4)"
    unfolding verify_pruning_def using w1(1) w2(1) w3(1) w4
    by (simp add: bindM_def [of "post _ _ _"] bindM_def [of "liftM _"] bindM_def [of "bindM (liftM _) _"] bindM_def [of "assert_that _"]
        bindM_def [of "effM (sc_uuid4 C)"] assert_that_def io_simps response_id resp_json_def)
  then show ?thesis by blast
qed

end

section \<open>The scripts in memory\<close>

definition mem_script :: "mem script_env" where
  "mem_script =
     \<lparr>sc_send = (\<lambda>rq w. (Inr (fst (serve mem_web rq w)), snd (serve mem_web rq w))),
      sc_uuid4 = (\<lambda>w. (replicate (Suc (mem_seed w)) CHR ''k'', w\<lparr>mem_seed := Suc (mem_seed w)\<rparr>)),
      sc_sleep = (\<lambda>n. returnM ()), sc_time = (\<lambda>w. (Fin 0, w)),
      sc_format = (\<lambda>v. case v of PStr s \<Rightarrow> s | _ \<Rightarrow> ''?''),
      sc_find = (\<lambda>oid. find_sorted mem_mongo (''aggregate_id'', oid) ''aggregate_version'' True None),
      sc_dumps = (\<lambda>v. Inr (enc v)), sc_producer_start = (\<lambda>_. returnM ()),
      sc_produce = send_and_wait mem_kafka, sc_producer_stop = returnM ()\<rparr>"

interpretation mem_script: scripts_up mem_script mem_web mem_state "\<lambda>w. mem_faults w = []"
proof (intro scripts_up.intro scripts_up_axioms.intro)
  show "web_laws mem_web mem_state" by (rule mem_web.web_laws_axioms)
  show "write_side_up (wb_mongo mem_web) (wb_redis mem_web) (wb_producer mem_web) mem_state (wb_platform mem_web) (\<lambda>w. mem_faults w = [])"
    by (simp add: mem_web_def mem_up.write_side_up_axioms)
  show "\<exists>r w'. find_one_sorted (wb_mongo mem_web) f p k asc w = (Inr r, w') \<and> mem_faults w' = []"
    if "mem_faults w = []" for w :: mem and f p k asc
    using that by (simp add: mem_web_def mem_mongo_def mem_op_up)
  show "CHR 0x2F \<notin> set (fst (uuid4 (pf_env (wb_platform mem_web)) w)) \<and> text_ok (fst (uuid4 (pf_env (wb_platform mem_web)) w))" for w
    by (simp add: mem_web_def mem_platform_def mem_env_def text_ok_def)
qed (auto simp: mem_script_def io_simps same_docs_def list_all2_refl)

text \<open>
  A consumer in memory that works off the cancellations of the store while the script sleeps; one that
  cannot be projected is passed over.
\<close>

fun work_off :: "'w consumer_env \<Rightarrow> pydict list \<Rightarrow> ('w, unit) io" where
  "work_off D [] = returnM ()"
| "work_off D (ev # evs) = bindM (tryM (process_event D ev (\<lambda>_. 0)) (\<lambda>_. returnM ())) (\<lambda>_. work_off D evs)"

definition mem_worker :: "mem consumer_env" where
  "mem_worker = mem_consumer True (\<lambda>_. Inl AttributeError)"

definition mem_expiry_script :: "mem script_env" where
  "mem_expiry_script = mem_script
     \<lparr>sc_sleep := \<lambda>n w. work_off mem_worker (filter terminal_event (b_docs (mem_state w))) w,
      sc_find := \<lambda>oid. mem_op (\<lambda>b. (Inr (filter (matches (''aggregate_id'', oid)) (b_docs b)), b))\<rparr>"

lemma work_off_returns: "\<exists>w'. work_off D evs w = (Inr (), w')"
proof (induction evs arbitrary: w)
  case (Cons ev evs)
  then show ?case by (cases "process_event D ev (\<lambda>_. 0) w"; cases "fst (process_event D ev (\<lambda>_. 0) w)") (auto simp: bindM_def tryM_def io_simps)
qed (simp add: io_simps)

lemma work_off_keeps: "(\<And>ev. keepsM P (process_event D ev (\<lambda>_. 0))) \<Longrightarrow> keepsM P (work_off D evs)"
  by (induction evs) (auto intro!: keeps_intros)

lemma process_keeps_docs: "keepsM (\<lambda>w. same_docs ds (b_docs (mem_state w)) \<and> b_indexes (mem_state w) = ix) (process_event mem_worker ev off)"
proof -
  have "same_docs ds (b_docs (stamp_docs a t hit b))" if "same_docs ds (b_docs b)" "length hit = length (b_docs b)" for a t hit b
    using that same_docs_stamp [OF that(2), of a t] unfolding same_docs_def by (simp add: list_all2_conv_all_nth)
  then have "consumer_keeps mem_worker ev (\<lambda>b. same_docs ds (b_docs b) \<and> b_indexes b = ix)"
    by (simp add: consumer_keeps_def) (simp add: stamp_docs_def)
  then show ?thesis unfolding mem_worker_def by (rule mem_consumer.process_keeps)
qed

lemma process_keeps_expiring: "keepsM (\<lambda>w. expiring (mem_state w) oid) (process_event mem_worker ev off)"
proof -
  have "expiring (stamp_docs a t hit b) oid" if "expiring b oid" "length hit = length (b_docs b)" for a t hit b
    using that by (auto simp: expiring_def agg_docs_def stamp_docs_def set_zip matches_def dict_simps)
  then have "consumer_keeps mem_worker ev (\<lambda>b. expiring b oid)"
    by (simp add: consumer_keeps_def) (simp add: expiring_def agg_docs_def)
  then show ?thesis unfolding mem_worker_def by (rule mem_consumer.process_keeps)
qed

lemma mem_op_live: "keepsM (\<lambda>w. mem_faults w = []) (mem_op f)"
  by (rule keepsMI) (simp add: mem_op_up)

lemma process_keeps_live: "keepsM (\<lambda>w. mem_faults w = []) (process_event mem_worker ev off)"
  unfolding process_event_def Let_def project_to_postgres_def project_attempt_def invalidate_cache_def set_expiry_for_aggregate_def
  by (simp add: mem_worker_def mem_consumer_def mem_pool_def mem_redis_def mem_mongo_def mem_env_def)
    (intro keeps_intros keepsM_effM mem_op_live conjI impI; simp)

lemma cancellation_projects:
  assumes "decode d = Some (v, Cancelled)" and "map_of d ''aggregate_id'' = Some (PStr oid)" and "text_ok oid" and "int4 v"
  shows "cancellation oid d \<and> (\<exists>db'. project_doc mem_codec d now db = Inr db')"
proof -
  have d: "map_of d ''event_type'' = Some (PStr (event_type_value ORDER_CANCELLED))" "map_of d ''aggregate_version'' = Some (PInt v)"
    "map_of d ''payload'' \<noteq> None"
    using assms(1) decode_payload_SomeD by (fastforce simp: decode_Some)+
  have "\<exists>rs. mapR (\<lambda>r. if c r then Inr (g r) else Inr r) xs = Inr rs" for c and g :: "order_row \<Rightarrow> order_row" and xs
    by (induction xs) (auto simp: io_simps)
  from this [of "\<lambda>r. oid = or_order_id r" "\<lambda>r. r\<lparr>or_status := ''CANCELLED'', or_version := v, or_updated_at := Some now\<rparr>" "pg_orders db"]
  have "\<exists>db'. set_status (Some oid) ''CANCELLED'' id (Some v) now db = Inr db'"
    by (auto simp: set_status_def update_orders_def not_null_def)
  then show ?thesis
    using d assms(2-4) by (auto simp: cancellation_def project_doc_def dict_item_def project_statements_def mem_codec_def int4_def)
qed

lemma work_off_processes:
  assumes "work_off mem_worker evs w = (Inr (), w')" and "d \<in> set evs" and "mem_faults w = []"
    and "decode d = Some (v, Cancelled)" and "map_of d ''aggregate_id'' = Some (PStr oid)" and "text_ok oid" and "int4 v"
  shows "\<exists>x y. process_event mem_worker d (\<lambda>_. 0) x = (Inr (), y) \<and> (expiring (mem_state y) oid \<longrightarrow> expiring (mem_state w') oid)"
  using assms(1-3)
proof (induction evs arbitrary: w)
  case (Cons ev evs)
  obtain w1 where w1: "tryM (process_event mem_worker ev (\<lambda>_. 0)) (\<lambda>_. returnM ()) w = (Inr (), w1)" "work_off mem_worker evs w1 = (Inr (), w')"
    using Cons.prems(1) by (auto elim!: bindM_InrE)
  show ?case
  proof (cases "ev = d")
    case True
    have "\<exists>db. project_doc (pg_codec_of (ce_pool mem_worker)) d now (b_tables (mem_state w)) = Inr db" for now
      using cancellation_projects [OF assms(4-7), of now] by (auto simp: mem_worker_def mem_consumer_def mem_pool_def)
    then obtain y where y: "process_event mem_worker d (\<lambda>_. 0) w = (Inr (), y)"
      using mem_consumer_up.process_event_up [OF Cons.prems(3), where ev = d and off = "\<lambda>_. 0"] unfolding mem_worker_def by blast
    then have "w1 = y" using w1(1) True by (simp add: tryM_def)
    then show ?thesis
      using y keepsMD [OF work_off_keeps [OF process_keeps_expiring] w1(2)] by blast
  next
    case False
    have "keepsM (\<lambda>w. mem_faults w = []) (tryM (process_event mem_worker ev (\<lambda>_. 0)) (\<lambda>_. returnM ()))"
      by (intro keeps_intros process_keeps_live)
    then have "mem_faults w1 = []" using w1(1) Cons.prems(3) by (rule keepsMD)
    then show ?thesis using Cons.IH [OF w1(2)] Cons.prems(2) False by auto
  qed
qed simp

interpretation mem_expiry: expiry_up mem_expiry_script mem_web mem_state "\<lambda>w. mem_faults w = []" mem_worker
proof (intro expiry_up.intro expiry_up_axioms.intro scripts_up.intro scripts_up_axioms.intro)
  show "web_laws mem_web mem_state" by (rule mem_web.web_laws_axioms)
  show "write_side_up (wb_mongo mem_web) (wb_redis mem_web) (wb_producer mem_web) mem_state (wb_platform mem_web) (\<lambda>w. mem_faults w = [])"
    by (rule mem_script.up.write_side_up_axioms)
  show "consumer_laws mem_worker mem_state" unfolding mem_worker_def by (rule mem_consumer.consumer_laws_axioms)
  show "\<exists>r w'. find_one_sorted (wb_mongo mem_web) f p k asc w = (Inr r, w') \<and> mem_faults w' = []"
    if "mem_faults w = []" for w :: mem and f p k asc
    using mem_script.find_one_up [OF that] .
  show "\<exists>w'. sc_sleep mem_expiry_script n w = (Inr (), w') \<and> mem_faults w' = [] \<and>
      same_docs (b_docs (mem_state w)) (b_docs (mem_state w')) \<and> b_indexes (mem_state w') = b_indexes (mem_state w)"
    if "mem_faults w = []" for w :: mem and n
  proof -
    obtain w' where run: "work_off mem_worker (filter terminal_event (b_docs (mem_state w))) w = (Inr (), w')"
      using work_off_returns [of mem_worker "filter terminal_event (b_docs (mem_state w))" w] by blast
    show ?thesis
      using run keepsMD [OF work_off_keeps [OF process_keeps_live] run that]
        keepsMD [OF work_off_keeps [OF process_keeps_docs [of "b_docs (mem_state w)" "b_indexes (mem_state w)"]] run]
      by (simp add: mem_expiry_script_def same_docs_def list_all2_refl)
  qed
  show "\<exists>ev off x y. cancellation oid ev \<and> process_event mem_worker ev off x = (Inr (), y) \<and>
      (expiring (mem_state y) oid \<longrightarrow> expiring (mem_state w') oid)"
    if sl: "sc_sleep mem_expiry_script n w = (Inr (), w')" and "mem_faults w = []"
      and sy: "says (b_docs (mem_state w)) oid v Cancelled" and v: "int4 v" "text_ok oid" for n and w w' :: mem and oid v
  proof -
    obtain d where d: "d \<in> set (b_docs (mem_state w))" "map_of d ''aggregate_id'' = Some (PStr oid)" "decode d = Some (v, Cancelled)"
      using sy by (auto simp: says_def)
    have c: "cancellation oid d" using cancellation_projects [OF d(3,2) v(2,1)] by blast
    then have "terminal_event d" by (auto simp: cancellation_def terminal_event_def dict_get_def)
    with sl d(1) show ?thesis
      using work_off_processes [OF _ _ that(2) d(3,2) v(2,1)] c by (fastforce simp: mem_expiry_script_def)
  qed
qed (auto simp: mem_expiry_script_def mem_script_def mem_script.plain_id agg_docs_def mem_op_up)

section \<open>Properties\<close>



text \<open>
  The test of event expiry passes when the services answer and the consumer processes the
  cancellation while the test sleeps: none of its assertions fails, so exactly three events of the
  cancelled order are stored and each of them carries an expiry.
\<close>

theorem expiry_test_passes:
  assumes "expiry_up C W V live D" and "live w" and "store_ok (V w)" and "only_keys (V w)"
    and "b_kv (V w) (''idem:create:'' @ fst (sc_uuid4 C w)) = None"
  shows "\<exists>w'. verify_pruning C w = (Inr (), w')"
  using expiry_up.verify_up [OF assms] .

theorem expiry_test_passes_witness: "\<exists>w'. verify_pruning mem_expiry_script mem_ready = (Inr (), w')"
proof -
  have "mem_faults mem_ready = []" "b_kv (mem_state mem_ready) (''idem:create:'' @ fst (sc_uuid4 mem_expiry_script mem_ready)) = None"
    by (simp_all add: mem_ready_eq mem_init_def)
  from expiry_test_passes [OF mem_expiry.expiry_up_axioms this(1) mem_ready_ok mem_ready_keys this(2)]
  show ?thesis .
qed

text \<open>The world at the beginning of a round, when the rounds before it found too few orders.\<close>

primrec round_world :: "'w script_env \<Rightarrow> int \<Rightarrow> nat \<Rightarrow> 'w \<Rightarrow> 'w" where
  "round_world C n 0 w = w"
| "round_world C n (Suc k) w = round_world C n k (snd (sc_sleep C (1 / 2) (snd (poll C n w))))"

lemma poll_returns: "\<exists>b w'. poll C n (w :: 'w) = (Inr b, w')"
proof -
  have "\<exists>q w'. tryM m (\<lambda>e. returnM False) x = (Inr q, w')" for m :: "('w, bool) io" and x
    by (cases "m x"; cases "fst (m x)") (auto simp: tryM_def io_simps)
  then show ?thesis unfolding poll_def by blast
qed

lemma await_reached:
  assumes "fst (poll C n (round_world C n k w)) = Inr True" and "\<And>x. \<exists>y. sc_sleep C (1 / 2) x = (Inr (), y)"
  shows "\<exists>w'. await_projections C n w = Some (Inr (), w')"
  using assms(1)
proof (induction k arbitrary: w)
  case 0
  then show ?case by (cases "poll C n w") (simp add: await_projections.simps)
next
  case (Suc k)
  obtain b w1 where b: "poll C n w = (Inr b, w1)" using poll_returns by metis
  obtain w2 where w2: "sc_sleep C (1 / 2) w1 = (Inr (), w2)" using assms(2) by blast
  show ?case
  proof (cases b)
    case True
    then show ?thesis using b by (simp add: await_projections.simps)
  next
    case False
    then have "await_projections C n w = await_projections C n w2"
      using b w2 by (subst await_projections.simps) simp
    then show ?thesis using Suc b w2 by simp
  qed
qed

lemma await_returned:
  assumes "await_projections C n w = Some (r, w')" and "\<And>x. \<exists>y. sc_sleep C (1 / 2) x = (Inr (), y)"
  shows "\<exists>k. fst (poll C n (round_world C n k w)) = Inr True"
proof -
  have "(\<forall>x. \<exists>y. sc_sleep C (1 / 2) x = (Inr (), y)) \<longrightarrow> (\<exists>k. fst (poll C n (round_world C n k w)) = Inr True)"
  proof (rule await_projections.raw_induct [OF _ assms(1), where P =
      "\<lambda>C n w y. (\<forall>x. \<exists>y. sc_sleep C (1 / 2) x = (Inr (), y)) \<longrightarrow> (\<exists>k. fst (poll C n (round_world C n k w)) = Inr True)"], intro impI)
    fix await and C :: "'a script_env" and n w y
    assume IH: "\<And>C n w y. await C n w = Some y \<Longrightarrow>
        (\<forall>x. \<exists>y. sc_sleep C (1 / 2) x = (Inr (), y)) \<longrightarrow> (\<exists>k. fst (poll C n (round_world C n k w)) = Inr True)"
      and body: "(case poll C n w of (Inl e, w1) \<Rightarrow> Some (Inl e, w1)
        | (Inr enough, w1) \<Rightarrow> if enough then Some (Inr (), w1)
            else (case sc_sleep C (1 / 2) w1 of (Inl e, w2) \<Rightarrow> Some (Inl e, w2) | (Inr _, w2) \<Rightarrow> await C n w2)) = Some y"
      and sleeps: "\<forall>x. \<exists>y. sc_sleep C (1 / 2) x = (Inr (), y)"
    obtain b w1 where b: "poll C n w = (Inr b, w1)" using poll_returns by metis
    obtain w2 where w2: "sc_sleep C (1 / 2) w1 = (Inr (), w2)" using sleeps by blast
    show "\<exists>k. fst (poll C n (round_world C n k w)) = Inr True"
    proof (cases b)
      case True
      then show ?thesis using b by (intro exI [of _ 0]) simp
    next
      case False
      then have "await C n w2 = Some y" using body b w2 by simp
      then obtain k where "fst (poll C n (round_world C n k w2)) = Inr True" using IH sleeps by blast
      then show ?thesis using b w2 by (intro exI [of _ "Suc k"]) simp
    qed
  qed
  then show ?thesis using assms(2) by blast
qed


text \<open>A deployment whose consumer is down: the read model stays as it is.\<close>

definition stalled_script :: "mem script_env" where
  "stalled_script = mem_script\<lparr>sc_send := \<lambda>rq. returnM \<lparr>rs_status = 200, rs_json = Some (PDict [(''total_orders'', PInt 7)])\<rparr>\<rparr>"

lemma stalled_poll: "poll stalled_script n w = (Inr (n \<le> 7), w)"
  by (simp add: poll_def http_get_def stalled_script_def resp_json_def projected_enough_def dict_get_def bindM_def tryM_def io_simps)


text \<open>What the queries show of an order and of all orders, as the replay test observes it.\<close>

definition table_observation :: "pgdb \<Rightarrow> string \<Rightarrow> exn + observation" where
  "table_observation db oid =
     bindR (select_stats db) (\<lambda>stats.
     case (stats, filter (\<lambda>r. or_order_id r = oid) (pg_orders db)) of
       (d # _, r # _) \<Rightarrow> observation_of (PDict d) (PDict (order_dict r (items_of db oid)))
     | _ \<Rightarrow> Inl IndexError)"

lemma table_observation_row:
  assumes "filter (\<lambda>r. or_order_id r = oid) (pg_orders db) = r # rs"
  shows "table_observation db oid = Inr \<lparr>ob_total_orders = PInt (int (length (pg_orders db))), ob_version = PInt (or_version r),
    ob_item_count = length (items_of db oid), ob_status = PStr (or_status r)\<rparr>"
  using assms
  by (simp add: table_observation_def select_stats_def observation_of_def order_dict_def dict_simps py_len_def)

lemma same_rows_observation:
  assumes "strip_time db' = strip_time db" and "filter (\<lambda>r. or_order_id r = oid) (pg_orders db) = r # rs"
  shows "table_observation db' oid = table_observation db oid"
proof -
  let ?strip = "\<lambda>r. r\<lparr>or_updated_at := None\<rparr>"
  have rows: "map ?strip (pg_orders db') = map ?strip (pg_orders db)" and items: "pg_items db' = pg_items db"
    using arg_cong [OF assms(1), of pg_orders] arg_cong [OF assms(1), of pg_items] by (simp_all add: strip_time_def)
  have "map ?strip (filter (\<lambda>r. or_order_id r = oid) xs) = filter (\<lambda>r. or_order_id r = oid) (map ?strip xs)" for xs :: "order_row list"
    by (induction xs) auto
  then have "map ?strip (filter (\<lambda>r. or_order_id r = oid) (pg_orders db')) = ?strip r # map ?strip rs"
    using rows assms(2) by (metis list.simps(9))
  then obtain r' rs' where r': "filter (\<lambda>r. or_order_id r = oid) (pg_orders db') = r' # rs'" "?strip r' = ?strip r"
    by auto
  have "or_version (?strip r') = or_version (?strip r)" "or_status (?strip r') = or_status (?strip r)"
    using r'(2) by simp_all
  moreover have "length (pg_orders db') = length (pg_orders db)"
    using rows map_eq_imp_length_eq by blast
  ultimately show ?thesis
    using table_observation_row [OF assms(2)] table_observation_row [OF r'(1)] items by (simp add: items_of_def)
qed

text \<open>
  C38. The benchmark's verdict says nothing of the deduplication: if the consumer had no deduplication
  at all and projected every replayed event of an order a second time, the numbers compared before
  and after would still be equal and the benchmark would report that Redis caught all duplicates.
\<close>

theorem benchmark_blind_to_deduplication:
  assumes "codec_laws A" and "stream_of oid tds" and "text_ok oid" and "tds \<noteq> []"
    and "rm_inv db0" and "\<not> has_order db0 oid"
    and "valid_history (typed_events tds)" and "amounts_fit (typed_events tds)" and "map snd tds' = map snd tds"
  shows "\<exists>db db' before after. project_docs A db0 tds = Inr db \<and> project_docs A db tds' = Inr db' \<and>
    table_observation db oid = Inr before \<and> table_observation db' oid = Inr after \<and>
    duplicate_processing_errors before after = 0"
proof -
  obtain db db' where db: "project_docs A db0 tds = Inr db" "project_docs A db tds' = Inr db'" "strip_time db' = strip_time db"
    using read_model_survives_replay [OF assms] by blast
  obtain r where r: "filter (\<lambda>r. or_order_id r = oid) (pg_orders db) = [r]"
    using codec_laws.project_docs_history [OF assms(1-8)] db(1) by (auto simp: shows_order_def)
  obtain ob where "table_observation db oid = Inr ob" using table_observation_row [OF r] by blast
  moreover from this have "table_observation db' oid = Inr ob" using same_rows_observation [OF db(3) r] by simp
  ultimately show ?thesis using db(1,2) by (auto simp: duplicate_processing_errors_def)
qed

theorem benchmark_blind_to_deduplication_witness:
  "\<exists>db db' before after. project_docs mem_codec no_rows sample_stream = Inr db \<and>
     project_docs mem_codec db sample_stream = Inr db' \<and> table_observation db ''o1'' = Inr before \<and>
     table_observation db' ''o1'' = Inr after \<and> duplicate_processing_errors before after = 0"
  using benchmark_blind_to_deduplication [OF mem_codec.codec_laws_axioms sample_stream_ok(1-3) no_rows_inv
      sample_stream_ok(4,5) refl] by blast

text \<open>An API that creates orders and fails every other request.\<close>

definition failing_script :: "mem script_env" where
  "failing_script = mem_script\<lparr>sc_send := \<lambda>rq.
     if rq_path rq = [''commands'', ''orders''] then sc_send mem_script rq
     else returnM \<lparr>rs_status = 500, rs_json = None\<rparr>\<rparr>"

lemma failing_post:
  "post failing_script ''/commands/orders'' body = post mem_script ''/commands/orders'' body"
  "sc_format failing_script (PStr s) = s" "sc_uuid4 failing_script = sc_uuid4 mem_script"
  by (simp_all add: post_def failing_script_def mem_script_def)

lemma failing_action:
  assumes "CHR 0x2F \<notin> set oid" and "CHR 0x2F \<notin> set action"
  shows "post failing_script (order_url failing_script (PStr oid) action) body = returnM \<lparr>rs_status = 500, rs_json = None\<rparr>"
  unfolding post_def command_url [OF assms failing_post(2)] by (simp add: failing_script_def)

text \<open>
  The benchmark counts orders whose commands failed: once the order is created, the responses of
  the other five commands are ignored, so an order is reported as successful, with six commands
  executed, although all five failed and its only event is its creation.
\<close>

theorem benchmark_counts_failed_orders:
  "\<exists>oid w' c. create_single_order_full_lifecycle failing_script ''0'' mem_ready = (Inr (Some (PStr oid)), w') \<and>
     order_history (mem_state w') oid = [(1, Created c ''bench@test.com'')]"
proof -
  let ?u = "sc_uuid4 mem_script"
  let ?w1 = "snd (?u (snd (?u mem_ready)))" and ?key = "fst (?u mem_ready)"
  let ?c = "''cust-bench-'' @ ''0'' @ ''-'' @ take 6 (uuid_hex (fst (?u (snd (?u mem_ready)))))"
  have w1: "mem_faults ?w1 = []" "store_ok (mem_state ?w1)" "only_keys (mem_state ?w1)"
    "b_kv (mem_state ?w1) (''idem:create:'' @ ?key) = None"
    using mem_ready_ok mem_ready_keys by (simp_all add: mem_script_def mem_ready_eq mem_init_def)
  obtain resp w2 where w2: "post failing_script ''/commands/orders'' (Some (order_body ?c ''bench@test.com'' ?key)) ?w1 =
      (Inr \<lparr>rs_status = 201, rs_json = Some (CommandResponse_json resp)\<rparr>, w2)"
    "order_at mem_state (\<lambda>w. mem_faults w = []) (cr_aggregate_id resp) [(1, Created ?c ''bench@test.com'')] w2"
    using mem_script.create_post_up [OF w1] unfolding failing_post by blast
  let ?oid = "cr_aggregate_id resp"
  have at: "CHR 0x2F \<notin> set ?oid" "order_history (mem_state w2) ?oid = [(1, Created ?c ''bench@test.com'')]"
    using w2(2) by (auto simp: order_at_def)
  have skip: "post failing_script (order_url failing_script (PStr ?oid) action) body = returnM \<lparr>rs_status = 500, rs_json = None\<rparr>"
    if "action \<in> {''items'', ''confirm'', ''payment'', ''ship''}" for action body
    using that by (intro failing_action [OF at(1)]) auto
  have keep: "mem_state (snd (?u w)) = mem_state w" for w by (simp add: mem_script_def)
  have "\<exists>w'. create_single_order_full_lifecycle failing_script ''0'' mem_ready = (Inr (Some (PStr ?oid)), w') \<and>
      mem_state w' = mem_state w2"
    unfolding create_single_order_full_lifecycle_def failing_post(3) using w2(1) skip keep
    by (simp add: bindM_def io_simps resp_json_def mem_script.response_id)
  then show ?thesis using at(2) order_history_cong [of _ "mem_state w2" ?oid] by metis
qed

end
