(* ===== verification/Benchmark.thy ===== *)
theory Benchmark
  imports Client_Scripts
begin

text \<open>
  The benchmark (\<open>scripts/benchmark.py\<close>) as a whole.  Its workers are asyncio tasks that share a queue and
  a list of results; a task runs from one \<open>await\<close> to the next, and which task goes on is the event loop's
  choice.  The model is a step function for each worker, and a schedule, the list of the workers in the
  order in which they go on.  \<open>Client_Scripts\<close> has the parts that run alone.
\<close>

section \<open>An order, await by await\<close>

text \<open>The commands that follow the creation of an order.\<close>

datatype stage = Item1 | Item2 | Confirm | Payment | Ship

fun next_stage :: "stage \<Rightarrow> stage option" where
  "next_stage Item1 = Some Item2"
| "next_stage Item2 = Some Confirm"
| "next_stage Confirm = Some Payment"
| "next_stage Payment = Some Ship"
| "next_stage Ship = None"

definition start_order :: "'w script_env \<Rightarrow> string \<Rightarrow> ('w, pyval option) io" where
  "start_order C worker_id =
     bindM (effM (sc_uuid4 C)) (\<lambda>idempotency_key.
     bindM (effM (sc_uuid4 C)) (\<lambda>c.
     bindM (post C ''/commands/orders'' (Some (order_body
       (''cust-bench-'' @ worker_id @ ''-'' @ take 6 (uuid_hex c)) ''bench@test.com'' idempotency_key))) (\<lambda>resp.
     if rs_status resp \<noteq> 201 then returnM None
     else
       bindM (bindM (liftM (resp_json resp)) (\<lambda>j. liftM (py_item j ''aggregate_id''))) (\<lambda>order_id.
       returnM (Some order_id)))))"

fun send_command :: "'w script_env \<Rightarrow> pyval \<Rightarrow> stage \<Rightarrow> ('w, unit) io" where
  "send_command C order_id Item1 =
     bindM (effM (sc_uuid4 C)) (\<lambda>a.
     bindM (post C (order_url C order_id ''items'')
       (Some (item_body (''prod-a-'' @ take 4 (uuid_hex a)) ''Car Polish'' 1 500))) (\<lambda>_. returnM ()))"
| "send_command C order_id Item2 =
     bindM (effM (sc_uuid4 C)) (\<lambda>b.
     bindM (post C (order_url C order_id ''items'')
       (Some (item_body (''prod-b-'' @ take 4 (uuid_hex b)) ''Alloy Wheels'' 4 12000))) (\<lambda>_. returnM ()))"
| "send_command C order_id Confirm =
     bindM (post C (order_url C order_id ''confirm'') None) (\<lambda>_. returnM ())"
| "send_command C order_id Payment =
     bindM (effM (sc_uuid4 C)) (\<lambda>p.
     bindM (post C (order_url C order_id ''payment'')
       (Some (payment_body (''pay-bench-'' @ take 8 (uuid_hex p)) 48500 ''CREDIT_CARD''))) (\<lambda>_. returnM ()))"
| "send_command C order_id Ship =
     bindM (effM (sc_uuid4 C)) (\<lambda>t.
     bindM (post C (order_url C order_id ''ship'')
       (Some (ship_body (''TRK-BENCH-'' @ str_upper (take 8 (uuid_hex t))) ''Spinny Express''))) (\<lambda>_. returnM ()))"

fun send_commands :: "'w script_env \<Rightarrow> pyval \<Rightarrow> stage list \<Rightarrow> ('w, unit) io" where
  "send_commands C order_id [] = returnM ()"
| "send_commands C order_id (st # sts) = bindM (send_command C order_id st) (\<lambda>_. send_commands C order_id sts)"

text \<open>The order's lifecycle is its creation and the five commands.\<close>

lemma lifecycle_stages:
  "create_single_order_full_lifecycle C worker_id =
     bindM (start_order C worker_id) (\<lambda>r. case r of
       None \<Rightarrow> returnM None
     | Some order_id \<Rightarrow>
         bindM (send_commands C order_id [Item1, Item2, Confirm, Payment, Ship]) (\<lambda>_. returnM (Some order_id)))"
proof -
  have branch: "bindM (if P then m else n) f = (if P then bindM m f else bindM n f)" for P f and m n :: "('a, pyval option) io"
    by simp
  have left: "bindM (returnM x) f = f x" for x :: 'x and f :: "'x \<Rightarrow> ('a, 'y) io"
    by (rule ext) (simp add: bindM_def io_simps)
  show ?thesis
    by (simp add: create_single_order_full_lifecycle_def start_order_def bindM_assoc branch left cong: if_cong)
qed

section \<open>The workers\<close>

text \<open>
  What a worker waits for: an item of the queue, the response to the creation of an order, or the response
  to a command; or it has returned.  \<open>start_time\<close> is a local variable.
\<close>

datatype worker_state =
    Getting
  | Creating string pyfloat
  | Sending pyval pyfloat stage
  | Stopped

record benchmark =
  bn_queue :: "string option list"
  bn_unfinished :: nat
  bn_results :: "(pyval \<times> pyfloat) list"
  bn_workers :: "worker_state list"

definition moves :: "nat \<Rightarrow> worker_state \<Rightarrow> benchmark \<Rightarrow> benchmark" where
  "moves i s b = b\<lparr>bn_workers := (bn_workers b)[i := s]\<rparr>"

definition task_done :: "benchmark \<Rightarrow> benchmark" where
  "task_done b = b\<lparr>bn_unfinished := bn_unfinished b - 1\<rparr>"

text \<open>
  One step of worker \<open>i\<close>: what it does from the value it was waiting for to the next \<open>await\<close>.  An
  exception of a request is caught around the whole order.
\<close>

definition worker_step :: "'w script_env \<Rightarrow> nat \<Rightarrow> benchmark \<Rightarrow> ('w, benchmark) io" where
  "worker_step C i b =
     (case bn_workers b ! i of
        Getting \<Rightarrow>
          (case bn_queue b of
             [] \<Rightarrow> returnM b
           | None # queue \<Rightarrow> returnM (moves i Stopped (task_done (b\<lparr>bn_queue := queue\<rparr>)))
           | Some worker_id # queue \<Rightarrow>
               bindM (effM (sc_time C)) (\<lambda>start_time.
               returnM (moves i (Creating worker_id start_time) (b\<lparr>bn_queue := queue\<rparr>))))
      | Creating worker_id start_time \<Rightarrow>
          tryM
            (bindM (start_order C worker_id) (\<lambda>order_id.
             case order_id of
               Some oid \<Rightarrow> returnM (moves i (Sending oid start_time Item1) b)
             | None \<Rightarrow> bindM (effM (sc_time C)) (\<lambda>_. returnM (moves i Getting (task_done b)))))
            (\<lambda>e. returnM (moves i Getting (task_done b)))
      | Sending oid start_time st \<Rightarrow>
          tryM
            (bindM (send_command C oid st) (\<lambda>_.
             case next_stage st of
               Some st' \<Rightarrow> returnM (moves i (Sending oid start_time st') b)
             | None \<Rightarrow>
                 bindM (effM (sc_time C)) (\<lambda>t.
                 returnM (moves i Getting (task_done
                   (if truthy oid then b\<lparr>bn_results := bn_results b @ [(oid, fl_add t (fl_neg start_time))]\<rparr> else b))))))
            (\<lambda>e. returnM (moves i Getting (task_done b)))
      | Stopped \<Rightarrow> returnM b)"

fun run_workers :: "'w script_env \<Rightarrow> nat list \<Rightarrow> benchmark \<Rightarrow> ('w, benchmark) io" where
  "run_workers C [] b = returnM b"
| "run_workers C (i # sched) b =
     bindM (if i < length (bn_workers b) then worker_step C i b else returnM b) (run_workers C sched)"

text \<open>\<open>queue.join()\<close> and \<open>gather\<close> return.\<close>

definition finished :: "benchmark \<Rightarrow> bool" where
  "finished b \<longleftrightarrow> bn_unfinished b = 0 \<and> (\<forall>s \<in> set (bn_workers b). s = Stopped)"

definition NUM_ORDERS :: nat where
  "NUM_ORDERS = 300"

definition CONCURRENCY :: nat where
  "CONCURRENCY = 30"

definition start_benchmark :: "nat \<Rightarrow> nat \<Rightarrow> benchmark" where
  "start_benchmark orders workers =
     \<lparr>bn_queue = map (\<lambda>i. Some (dec i)) [0..<orders] @ replicate workers None,
      bn_unfinished = orders + workers, bn_results = [], bn_workers = replicate workers Getting\<rparr>"

section \<open>The workers come to an end\<close>

fun worker_weight :: "worker_state \<Rightarrow> nat" where
  "worker_weight Stopped = 0"
| "worker_weight Getting = 1"
| "worker_weight (Creating _ _) = 7"
| "worker_weight (Sending _ _ st) = (case st of Item1 \<Rightarrow> 6 | Item2 \<Rightarrow> 5 | Confirm \<Rightarrow> 4 | Payment \<Rightarrow> 3 | Ship \<Rightarrow> 2)"

lemma worker_weight_zero [simp]: "worker_weight s = 0 \<longleftrightarrow> s = Stopped"
  by (cases s) (auto split: stage.splits)

definition weight :: "benchmark \<Rightarrow> nat" where
  "weight b = 7 * length (filter (\<lambda>x. x \<noteq> None) (bn_queue b)) + sum_list (map worker_weight (bn_workers b))"

definition busy :: "worker_state \<Rightarrow> bool" where
  "busy s \<longleftrightarrow> s \<noteq> Getting \<and> s \<noteq> Stopped"

lemma busy_simps [simp]: "busy (Creating x t)" "busy (Sending oid t st)" "\<not> busy Getting" "\<not> busy Stopped"
  by (simp_all add: busy_def)

text \<open>
  The invariant of the queue: the orders come first, for every worker that has not returned there is a
  \<open>None\<close>, no worker has returned while there are orders, and the unfinished tasks are the items of
  the queue and those being worked on.
\<close>

definition queue_inv :: "benchmark \<Rightarrow> bool" where
  "queue_inv b \<longleftrightarrow> (\<exists>xs k. bn_queue b = map Some xs @ replicate k None \<and>
     k = length (filter (\<lambda>s. s \<noteq> Stopped) (bn_workers b)) \<and> (xs \<noteq> [] \<longrightarrow> Stopped \<notin> set (bn_workers b)) \<and>
     bn_unfinished b = length (bn_queue b) + length (filter busy (bn_workers b)))"

text \<open>The ways in which a worker goes on, whatever the API answers.\<close>

inductive advances :: "nat \<Rightarrow> benchmark \<Rightarrow> benchmark \<Rightarrow> bool" for i b where
  stop: "bn_workers b ! i = Getting \<Longrightarrow> bn_queue b = None # queue \<Longrightarrow>
    advances i b (moves i Stopped (task_done (b\<lparr>bn_queue := queue\<rparr>)))"
| take_order: "bn_workers b ! i = Getting \<Longrightarrow> bn_queue b = Some worker_id # queue \<Longrightarrow>
    advances i b (moves i (Creating worker_id start_time) (b\<lparr>bn_queue := queue\<rparr>))"
| created: "bn_workers b ! i = Creating worker_id start_time \<Longrightarrow>
    advances i b (moves i (Sending oid start_time Item1) b)"
| sent_one: "bn_workers b ! i = Sending oid start_time st \<Longrightarrow> next_stage st = Some st' \<Longrightarrow>
    advances i b (moves i (Sending oid start_time st') b)"
| given_up: "busy (bn_workers b ! i) \<Longrightarrow> advances i b (moves i Getting (task_done b))"
| completed: "bn_workers b ! i = Sending oid start_time Ship \<Longrightarrow> truthy oid \<Longrightarrow>
    advances i b (moves i Getting (task_done (b\<lparr>bn_results := bn_results b @ [(oid, duration)]\<rparr>)))"

lemma worker_step_advances:
  obtains b' w' where "worker_step C i b w = (Inr b', w')"
    and "advances i b b' \<or> b' = b \<and> (bn_workers b ! i = Stopped \<or> bn_workers b ! i = Getting \<and> bn_queue b = [])"
proof (cases "bn_workers b ! i")
  case Getting
  then show thesis
  proof (cases "bn_queue b")
    case (Cons x queue)
    then show thesis
      using Getting that by (cases x) (auto simp: worker_step_def bindM_def io_simps intro: advances.intros)
  qed (use that in \<open>auto simp: worker_step_def io_simps\<close>)
next
  case (Creating worker_id start_time)
  obtain r w1 where r: "start_order C worker_id w = (r, w1)" by (metis surj_pair)
  have give_up: "advances i b (moves i Getting (task_done b))" using Creating by (intro given_up) simp
  show thesis
  proof (cases r)
    case (Inr q)
    with give_up show thesis
      using Creating r that
      by (cases q) (auto simp: worker_step_def bindM_def tryM_def io_simps intro: advances.intros)
  qed (use Creating r give_up that in \<open>auto simp: worker_step_def bindM_def tryM_def io_simps intro: advances.intros\<close>)
next
  case (Sending oid start_time st)
  have give_up: "advances i b (moves i Getting (task_done b))" using Sending by (intro given_up) simp
  obtain r w1 where r: "send_command C oid st w = (r, w1)" by (metis surj_pair)
  show thesis
  proof (cases r)
    case (Inr q)
    then show thesis
    proof (cases "next_stage st")
      case None
      then have "st = Ship" by (cases st) auto
      moreover from this have "truthy oid \<Longrightarrow>
          advances i b (moves i Getting (task_done (b\<lparr>bn_results := bn_results b @ [(oid, t)]\<rparr>)))" for t
        using Sending by (intro completed) auto
      ultimately show thesis
        using Sending r Inr None give_up that
        by (cases "truthy oid") (auto simp: worker_step_def bindM_def tryM_def io_simps simp del: send_command.simps intro: advances.intros)
    next
      case (Some st')
      then show thesis
        using Sending r Inr that by (auto simp: worker_step_def bindM_def tryM_def io_simps intro: advances.intros)
    qed
  qed (use Sending r give_up that in \<open>auto simp: worker_step_def bindM_def tryM_def io_simps intro: advances.intros\<close>)
qed (use that in \<open>auto simp: worker_step_def io_simps\<close>)

lemma moves_simps [simp]:
  "bn_queue (moves i s b) = bn_queue b" "bn_unfinished (moves i s b) = bn_unfinished b"
  "bn_results (moves i s b) = bn_results b" "bn_workers (moves i s b) = (bn_workers b)[i := s]"
  by (simp_all add: moves_def)

lemma task_done_simps [simp]:
  "bn_queue (task_done b) = bn_queue b" "bn_unfinished (task_done b) = bn_unfinished b - 1"
  "bn_results (task_done b) = bn_results b" "bn_workers (task_done b) = bn_workers b"
  by (simp_all add: task_done_def)

lemma sum_update:
  "i < length xs \<Longrightarrow> sum_list (map f (xs[i := x])) + f (xs ! i) = sum_list (map f xs) + (f x :: nat)"
  by (induction xs arbitrary: i) (auto split: nat.splits)

lemma filter_update:
  assumes "i < length xs"
  shows "length (filter P (xs[i := x])) + (if P (xs ! i) then 1 else 0) = length (filter P xs) + (if P x then 1 else 0)"
proof -
  have "length (filter P ys) = sum_list (map (\<lambda>y. if P y then 1 else 0) ys)" for ys
    by (induction ys) auto
  then show ?thesis using sum_update [OF assms, of "\<lambda>y. if P y then 1 else 0" x] by simp
qed

lemma advances_length: "advances i b b' \<Longrightarrow> length (bn_workers b') = length (bn_workers b)"
  by (cases rule: advances.cases) auto

lemma advances_weight:
  assumes "advances i b b'" and "i < length (bn_workers b)"
  shows "weight b' < weight b"
proof -
  note sum = sum_update [OF assms(2), of worker_weight]
  from assms(1) show ?thesis
  proof (cases rule: advances.cases)
    case (stop queue)
    then show ?thesis using sum [of Stopped] by (simp add: weight_def)
  next
    case (take_order worker_id queue start_time)
    then show ?thesis using sum [of "Creating worker_id start_time"] by (simp add: weight_def)
  next
    case (created worker_id start_time oid)
    then show ?thesis using sum [of "Sending oid start_time Item1"] by (simp add: weight_def)
  next
    case (sent_one oid start_time st st')
    then show ?thesis using sum [of "Sending oid start_time st'"] by (cases st) (auto simp: weight_def)
  next
    case given_up
    then have "1 < worker_weight (bn_workers b ! i)"
      by (cases "bn_workers b ! i") (auto split: stage.splits)
    then show ?thesis using given_up sum [of Getting] by (simp add: weight_def)
  next
    case (completed oid start_time duration)
    then show ?thesis using sum [of Getting] by (simp add: weight_def)
  qed
qed

lemma queue_nonempty:
  assumes "queue_inv b" and "i < length (bn_workers b)" and "bn_workers b ! i \<noteq> Stopped"
  shows "bn_queue b \<noteq> []"
proof -
  have "bn_workers b ! i \<in> set (filter (\<lambda>s. s \<noteq> Stopped) (bn_workers b))" using assms(2,3) by simp
  then have "filter (\<lambda>s. s \<noteq> Stopped) (bn_workers b) \<noteq> []" by (metis empty_iff empty_set)
  then show ?thesis using assms(1) by (auto simp: queue_inv_def)
qed

lemma advances_queue_inv:
  assumes "advances i b b'" and "i < length (bn_workers b)" and "queue_inv b"
  shows "queue_inv b'"
proof -
  obtain xs k where inv: "bn_queue b = map Some xs @ replicate k None"
    "k = length (filter (\<lambda>s. s \<noteq> Stopped) (bn_workers b))" "xs \<noteq> [] \<longrightarrow> Stopped \<notin> set (bn_workers b)"
    "bn_unfinished b = length (bn_queue b) + length (filter busy (bn_workers b))"
    using assms(3) unfolding queue_inv_def by blast
  note count = filter_update [OF assms(2)]
  have stays: "Stopped \<notin> set ((bn_workers b)[i := s])" if "Stopped \<notin> set (bn_workers b)" "s \<noteq> Stopped" for s
    using that set_update_subset_insert [of "bn_workers b" i s] by auto
  have busy: "queue_inv (moves i s (b\<lparr>bn_results := rs\<rparr>))" if "busy (bn_workers b ! i)" "busy s" for s rs
  proof -
    have ns: "bn_workers b ! i \<noteq> Stopped" "s \<noteq> Stopped" using that by (auto simp: busy_def)
    then show ?thesis
      unfolding queue_inv_def using inv count [of "\<lambda>s. s \<noteq> Stopped" s] count [of busy s] that stays
      by (intro exI [of _ xs] exI [of _ k]) auto
  qed
  have idle: "queue_inv (moves i Getting (task_done (b\<lparr>bn_results := rs\<rparr>)))" if "busy (bn_workers b ! i)" for rs
  proof -
    have ns: "bn_workers b ! i \<noteq> Stopped" "\<not> busy Getting" using that by (auto simp: busy_def)
    then show ?thesis
      unfolding queue_inv_def using inv count [of "\<lambda>s. s \<noteq> Stopped" Getting] count [of busy Getting] that stays
      by (intro exI [of _ xs] exI [of _ k]) auto
  qed
  show ?thesis
    using assms(1)
  proof (cases rule: advances.cases)
    case (stop queue)
    have "\<not> busy Getting" "\<not> busy Stopped" by (simp_all add: busy_def)
    moreover have "xs = []" using stop inv(1) by (cases xs) auto
    moreover from this obtain n where "k = Suc n" "queue = replicate n None" using stop inv(1) by (cases k) auto
    ultimately show ?thesis
      unfolding queue_inv_def using stop inv count [of "\<lambda>s. s \<noteq> Stopped" Stopped] count [of busy Stopped]
      by (intro exI [of _ "[]"] exI [of _ n]) auto
  next
    case (take_order worker_id queue start_time)
    then obtain ys where ys: "xs = worker_id # ys" "queue = map Some ys @ replicate k None"
      using inv(1) by (cases xs; cases k) auto
    have "\<not> busy Getting" "busy (Creating worker_id start_time)" by (simp_all add: busy_def)
    then show ?thesis
      unfolding queue_inv_def using take_order ys inv stays
        count [of "\<lambda>s. s \<noteq> Stopped" "Creating worker_id start_time"] count [of busy "Creating worker_id start_time"]
      by (intro exI [of _ ys] exI [of _ k]) auto
  next
    case (created worker_id start_time oid)
    then show ?thesis using busy [of "Sending oid start_time Item1" "bn_results b"] by (simp add: busy_def)
  next
    case (sent_one oid start_time st st')
    then show ?thesis using busy [of "Sending oid start_time st'" "bn_results b"] by (simp add: busy_def)
  next
    case given_up
    then show ?thesis using idle [of "bn_results b"] by simp
  next
    case (completed oid start_time duration)
    then show ?thesis using idle by (simp add: busy_def)
  qed
qed

lemma start_queue_inv: "queue_inv (start_benchmark orders workers)"
  unfolding queue_inv_def
  by (intro exI [of _ "map dec [0..<orders]"] exI [of _ workers]) (simp add: start_benchmark_def busy_def)

lemma start_weight: "weight (start_benchmark orders workers) = 7 * orders + workers"
  by (simp add: weight_def start_benchmark_def comp_def sum_list_replicate)

lemma run_workers_advance:
  assumes "queue_inv b"
  shows "\<exists>b' w'. run_workers C sched b w = (Inr b', w') \<and> queue_inv b' \<and> length (bn_workers b') = length (bn_workers b) \<and>
    weight b' \<le> weight b \<and>
    ((\<exists>i \<in> set sched. i < length (bn_workers b) \<and> bn_workers b ! i \<noteq> Stopped) \<longrightarrow> weight b' < weight b)"
  using assms
proof (induction sched arbitrary: b w)
  case Nil
  then show ?case by (simp add: io_simps)
next
  case (Cons i sched)
  show ?case
  proof (cases "i < length (bn_workers b)")
    case False
    then show ?thesis using Cons.IH [OF Cons.prems, of w] by (auto simp: bindM_def io_simps)
  next
    case True
    obtain b1 w1 where step: "worker_step C i b w = (Inr b1, w1)"
      "advances i b b1 \<or> b1 = b \<and> (bn_workers b ! i = Stopped \<or> bn_workers b ! i = Getting \<and> bn_queue b = [])"
      by (rule worker_step_advances)
    have run: "run_workers C (i # sched) b w = run_workers C sched b1 w1"
      using True step(1) by (simp add: bindM_def)
    from step(2) show ?thesis
    proof
      assume adv: "advances i b b1"
      from Cons.IH [OF advances_queue_inv [OF adv True Cons.prems], of w1] show ?thesis
        unfolding run using advances_weight [OF adv True] advances_length [OF adv] by fastforce
    next
      assume same: "b1 = b \<and> (bn_workers b ! i = Stopped \<or> bn_workers b ! i = Getting \<and> bn_queue b = [])"
      then have "bn_workers b ! i = Stopped" using queue_nonempty [OF Cons.prems True] by auto
      with Cons.IH [OF Cons.prems, of w1] same show ?thesis unfolding run by auto
    qed
  qed
qed

lemma all_stopped_finished:
  assumes "queue_inv b" and "bn_workers b \<noteq> []" and "\<forall>s \<in> set (bn_workers b). s = Stopped"
  shows "finished b \<and> bn_queue b = []"
proof -
  have "Stopped \<in> set (bn_workers b)" using assms(2,3) by (cases "bn_workers b") auto
  moreover have "filter (\<lambda>s. s \<noteq> Stopped) (bn_workers b) = []" "filter busy (bn_workers b) = []"
    using assms(3) by (auto simp: filter_empty_conv busy_def)
  ultimately show ?thesis using assms(1,3) by (auto simp: queue_inv_def finished_def)
qed

text \<open>A round lets every worker go on at least once.\<close>

definition round_of :: "nat \<Rightarrow> nat list \<Rightarrow> bool" where
  "round_of n sched \<longleftrightarrow> {..<n} \<subseteq> set sched"

lemma run_workers_append: "run_workers C (xs @ ys) b = bindM (run_workers C xs b) (run_workers C ys)"
proof (induction xs arbitrary: b)
  case Nil
  show ?case by (rule ext) (simp add: bindM_def io_simps)
next
  case (Cons i xs)
  show ?case by (simp add: Cons.IH [abs_def] bindM_assoc)
qed

lemma rounds_finish:
  assumes "queue_inv b" and "bn_workers b \<noteq> []" and "\<forall>s \<in> set rounds. round_of (length (bn_workers b)) s"
    and "weight b \<le> length rounds"
  shows "\<exists>b' w'. run_workers C (concat rounds) b w = (Inr b', w') \<and> finished b' \<and> bn_queue b' = []"
  using assms
proof (induction rounds arbitrary: b w)
  case Nil
  then have "\<forall>s \<in> set (bn_workers b). worker_weight s = 0" by (simp add: weight_def)
  then have "\<forall>s \<in> set (bn_workers b). s = Stopped"
    by simp
  then show ?case using all_stopped_finished [OF Nil(1,2)] by (simp add: io_simps)
next
  case (Cons sched rounds)
  obtain b1 w1 where b1: "run_workers C sched b w = (Inr b1, w1)" "queue_inv b1" "length (bn_workers b1) = length (bn_workers b)"
    "weight b1 \<le> weight b"
    "(\<exists>i \<in> set sched. i < length (bn_workers b) \<and> bn_workers b ! i \<noteq> Stopped) \<longrightarrow> weight b1 < weight b"
    using run_workers_advance [OF Cons.prems(1), of C sched w] by (elim exE conjE)
  have "weight b1 \<le> length rounds"
  proof (cases "weight b = 0")
    case True
    then show ?thesis using b1(4) by simp
  next
    case False
    have "\<exists>i < length (bn_workers b). bn_workers b ! i \<noteq> Stopped"
    proof (rule ccontr)
      assume none: "\<not> (\<exists>i < length (bn_workers b). bn_workers b ! i \<noteq> Stopped)"
      then have "\<forall>s \<in> set (bn_workers b). s = Stopped" by (auto simp: in_set_conv_nth)
      with all_stopped_finished [OF Cons.prems(1,2)] have "weight b = sum_list (map worker_weight (bn_workers b))"
        "\<forall>s \<in> set (bn_workers b). worker_weight s = 0" by (simp_all add: weight_def)
      then show False using False by simp
    qed
    then have "weight b1 < weight b" using b1(5) Cons.prems(3) by (auto simp: round_of_def subset_iff)
    then show ?thesis using Cons.prems(4) by simp
  qed
  moreover have "bn_workers b1 \<noteq> []" "\<forall>s \<in> set rounds. round_of (length (bn_workers b1)) s"
    using Cons.prems(2,3) b1(3) by auto
  ultimately obtain b' w' where "run_workers C (concat rounds) b1 w1 = (Inr b', w')" "finished b'" "bn_queue b' = []"
    using Cons.IH [OF b1(2)] by blast
  then show ?case using b1(1) by (auto simp: run_workers_append bindM_def)
qed

section \<open>Every order is completed\<close>

text \<open>The history of an order before a command is sent, and after the last one.\<close>

fun stage_length :: "stage option \<Rightarrow> nat" where
  "stage_length (Some Item1) = 1"
| "stage_length (Some Item2) = 2"
| "stage_length (Some Confirm) = 3"
| "stage_length (Some Payment) = 4"
| "stage_length (Some Ship) = 5"
| "stage_length None = 6"

definition bench_order :: "stage option \<Rightarrow> (int \<times> order_event) list \<Rightarrow> bool" where
  "bench_order st h \<longleftrightarrow> (\<exists>c a b p t. h = take (stage_length st)
     [(1, Created c ''bench@test.com''), (2, ItemAdded (script_item a ''Car Polish'' 1 500)),
      (3, ItemAdded (script_item b ''Alloy Wheels'' 4 12000)), (4, Confirmed), (5, Paid p), (6, Shipped t)])"

lemma bench_order_length: "bench_order st h \<Longrightarrow> length h = stage_length st"
  by (cases st rule: stage_length.cases) (auto simp: bench_order_def)

text \<open>
  What the benchmark relies on besides: reading the clock changes nothing, and a new uuid is not among the
  finitely many keys in Redis.
\<close>

locale bench_up = scripts_up C W V live for C :: "'w script_env" and W V live +
  assumes script_time: "live w \<Longrightarrow> live (snd (sc_time C w)) \<and> V (snd (sc_time C w)) = V w"
    and key_unused: "live w \<Longrightarrow> finite (dom (b_kv (V w))) \<Longrightarrow> b_kv (V w) (''idem:create:'' @ fst (sc_uuid4 C w)) = None"
begin

lemma order_at_same: "order_at V live a h w \<Longrightarrow> live w' \<Longrightarrow> V w' = V w \<Longrightarrow> order_at V live a h w'"
  by (simp add: order_at_def)

lemma order_at_other:
  assumes "order_at V live a h w" and "order_at V live oid h' w'" and "only_order V oid w w'" and "a \<noteq> oid"
  shows "order_at V live a h w'"
  using assms by (auto simp: order_at_def only_order_def)

lemma only_order_uuid: "live w \<Longrightarrow> only_order V oid (snd (sc_uuid4 C w)) w' \<Longrightarrow> only_order V oid w w'"
  using script_uuid [of w] by (simp add: only_order_def)

lemma start_up:
  assumes "live w" and "store_ok (V w)" and "only_keys (V w)" and "finite (dom (b_kv (V w)))"
  shows "\<exists>oid h w'. start_order C worker_id w = (Inr (Some (PStr oid)), w') \<and> order_at V live oid h w' \<and>
    bench_order (Some Item1) h \<and> order_history (V w) oid = [] \<and> only_order V oid w w'"
proof -
  let ?key = "fst (sc_uuid4 C w)" and ?w0 = "snd (sc_uuid4 C w)"
  let ?c = "''cust-bench-'' @ worker_id @ ''-'' @ take 6 (uuid_hex (fst (sc_uuid4 C ?w0)))" and ?w1 = "snd (sc_uuid4 C ?w0)"
  have V1: "live ?w1" "V ?w1 = V w" using script_uuid [OF assms(1)] script_uuid [of ?w0] by auto
  have w1: "live ?w1" "store_ok (V ?w1)" "only_keys (V ?w1)" "b_kv (V ?w1) (''idem:create:'' @ ?key) = None"
    using V1 assms key_unused [OF assms(1,4)] by auto
  obtain resp w2 where w2: "post C ''/commands/orders'' (Some (order_body ?c ''bench@test.com'' ?key)) ?w1 =
      (Inr \<lparr>rs_status = 201, rs_json = Some (CommandResponse_json resp)\<rparr>, w2)"
    "order_at V live (cr_aggregate_id resp) [(1, Created ?c ''bench@test.com'')] w2"
    "order_history (V ?w1) (cr_aggregate_id resp) = []" "only_order V (cr_aggregate_id resp) ?w1 w2"
    using create_post_up [OF w1] by blast
  have "start_order C worker_id w = (Inr (Some (PStr (cr_aggregate_id resp))), w2)"
    using w2(1) by (simp add: start_order_def bindM_def io_simps resp_json_def response_id)
  moreover have "bench_order (Some Item1) [(1, Created ?c ''bench@test.com'')]" by (simp add: bench_order_def)
  moreover have "order_history (V w) (cr_aggregate_id resp) = []" "only_order V (cr_aggregate_id resp) w w2"
    using w2(3,4) V1(2) by (auto simp: only_order_def)
  ultimately show ?thesis using w2(2) by blast
qed

lemma command_up:
  assumes "order_at V live oid h w" and "bench_order (Some st) h"
  shows "\<exists>h' w'. send_command C (PStr oid) st w = (Inr (), w') \<and> order_at V live oid h' w' \<and>
    bench_order (next_stage st) h' \<and> only_order V oid w w'"
proof -
  let ?u = "fst (sc_uuid4 C w)" and ?w = "snd (sc_uuid4 C w)"
  obtain c a b p t where h: "h = take (stage_length (Some st))
     [(1, Created c ''bench@test.com''), (2, ItemAdded (script_item a ''Car Polish'' 1 500)),
      (3, ItemAdded (script_item b ''Alloy Wheels'' 4 12000)), (4, Confirmed), (5, Paid p), (6, Shipped t)]"
    using assms(2) by (auto simp: bench_order_def)
  have live: "live w" using assms(1) by (simp add: order_at_def)
  note at = uuid_at [OF assms(1)] and only = only_order_uuid [OF live]
  show ?thesis
  proof (cases st)
    case Item1
    let ?a = "''prod-a-'' @ take 4 (uuid_hex ?u)"
    have "bench_order (Some Item2) (h @ [(int (length h) + 1, ItemAdded (script_item ?a ''Car Polish'' 1 500))])"
      using h Item1 by (auto simp: bench_order_def)
    then show ?thesis
      using item_up [OF at, where pid = ?a and nm = "''Car Polish''" and q = 1 and price = 500] h Item1 only
      by (fastforce simp: bindM_def io_simps order_apply_def)
  next
    case Item2
    let ?b = "''prod-b-'' @ take 4 (uuid_hex ?u)"
    have "bench_order (Some Confirm) (h @ [(int (length h) + 1, ItemAdded (script_item ?b ''Alloy Wheels'' 4 12000))])"
      using h Item2 by (auto simp: bench_order_def)
    then show ?thesis
      using item_up [OF at, where pid = ?b and nm = "''Alloy Wheels''" and q = 4 and price = 12000] h Item2 only
      by (fastforce simp: bindM_def io_simps order_apply_def)
  next
    case Confirm
    have "bench_order (Some Payment) (h @ [(int (length h) + 1, Confirmed)])"
      using h Confirm by (auto simp: bench_order_def)
    then show ?thesis
      using confirm_up [OF assms(1)] h Confirm by (fastforce simp: bindM_def io_simps order_apply_def)
  next
    case Payment
    let ?p = "''pay-bench-'' @ take 8 (uuid_hex ?u)"
    have "bench_order (Some Ship) (h @ [(int (length h) + 1, Paid ?p)])"
      using h Payment by (auto simp: bench_order_def)
    then show ?thesis
      using pay_up [OF at, where pid = ?p and amount = 48500 and m = "''CREDIT_CARD''"] h Payment only
      by (fastforce simp: bindM_def io_simps order_apply_def)
  next
    case Ship
    let ?t = "''TRK-BENCH-'' @ str_upper (take 8 (uuid_hex ?u))"
    have "bench_order None (h @ [(int (length h) + 1, Shipped ?t)])"
      using h Ship by (auto simp: bench_order_def)
    then show ?thesis
      using ship_up [OF at, where t = ?t and c = "''Spinny Express''"] h Ship only
      by (fastforce simp: bindM_def io_simps order_apply_def)
  qed
qed

end

text \<open>The order that a worker is at, and what is known of it.\<close>

fun worker_order :: "worker_state \<Rightarrow> pyval option" where
  "worker_order (Sending oid _ _) = Some oid"
| "worker_order _ = None"

definition ordered :: "('w \<Rightarrow> backend) \<Rightarrow> ('w \<Rightarrow> bool) \<Rightarrow> 'w \<Rightarrow> stage option \<Rightarrow> pyval \<Rightarrow> bool" where
  "ordered V live w st oid \<longleftrightarrow> (\<exists>a h. oid = PStr a \<and> order_at V live a h w \<and> bench_order st h)"

definition at_work :: "('w \<Rightarrow> backend) \<Rightarrow> ('w \<Rightarrow> bool) \<Rightarrow> 'w \<Rightarrow> worker_state \<Rightarrow> bool" where
  "at_work V live w s \<longleftrightarrow> (\<forall>oid t st. s = Sending oid t st \<longrightarrow> ordered V live w (Some st) oid)"

definition apart :: "worker_state \<Rightarrow> worker_state \<Rightarrow> bool" where
  "apart s s' \<longleftrightarrow> worker_order s = None \<or> worker_order s \<noteq> worker_order s'"

text \<open>
  The invariant: every worker is at an order of its own, at the stage that its history shows, and the
  results are different orders with all six events.
\<close>

definition bench_ok :: "('w \<Rightarrow> backend) \<Rightarrow> ('w \<Rightarrow> bool) \<Rightarrow> benchmark \<Rightarrow> 'w \<Rightarrow> bool" where
  "bench_ok V live b w \<longleftrightarrow> live w \<and> store_ok (V w) \<and> only_keys (V w) \<and> finite (dom (b_kv (V w))) \<and>
     (\<forall>i < length (bn_workers b). at_work V live w (bn_workers b ! i)) \<and>
     (\<forall>i < length (bn_workers b). \<forall>j < length (bn_workers b). i \<noteq> j \<longrightarrow> apart (bn_workers b ! i) (bn_workers b ! j)) \<and>
     (\<forall>oid \<in> fst ` set (bn_results b). ordered V live w None oid) \<and> distinct (map fst (bn_results b))"

text \<open>The orders that are queued, being worked on or completed.\<close>

definition load :: "benchmark \<Rightarrow> nat" where
  "load b = length (bn_results b) + length (filter busy (bn_workers b)) + length (filter (\<lambda>x. x \<noteq> None) (bn_queue b))"

lemma apart_sym: "apart s s' \<Longrightarrow> apart s' s"
  by (auto simp: apart_def)

lemma idle_apart: "worker_order s = None \<Longrightarrow> apart s s'" "worker_order s = None \<Longrightarrow> at_work V live w s"
  by (auto simp: apart_def at_work_def)

lemma bench_ok_update:
  assumes "bench_ok V live b w" and "i < length (bn_workers b)" and "bn_workers b' = (bn_workers b)[i := s]"
    and "live w'" "store_ok (V w')" "only_keys (V w')" "finite (dom (b_kv (V w')))"
    and "\<And>j. j < length (bn_workers b) \<Longrightarrow> j \<noteq> i \<Longrightarrow> at_work V live w' (bn_workers b ! j) \<and> apart s (bn_workers b ! j)"
    and "at_work V live w' s" and "\<And>oid. oid \<in> fst ` set (bn_results b') \<Longrightarrow> ordered V live w' None oid"
    and "distinct (map fst (bn_results b'))"
  shows "bench_ok V live b' w'"
proof -
  have "at_work V live w' (bn_workers b' ! j)" if "j < length (bn_workers b)" for j
    using that assms(2,3,8,9) by (cases "j = i") auto
  moreover have "apart (bn_workers b' ! j) (bn_workers b' ! k)"
    if "j < length (bn_workers b)" "k < length (bn_workers b)" "j \<noteq> k" for j k
    using that assms(1,2,3,8) apart_sym by (cases "j = i"; cases "k = i") (auto simp: bench_ok_def)
  ultimately show ?thesis using assms by (auto simp: bench_ok_def)
qed

context bench_up
begin

lemma ordered_same: "ordered V live w st oid \<Longrightarrow> live w' \<Longrightarrow> V w' = V w \<Longrightarrow> ordered V live w' st oid"
  unfolding ordered_def using order_at_same by blast

lemma at_work_same: "at_work V live w s \<Longrightarrow> live w' \<Longrightarrow> V w' = V w \<Longrightarrow> at_work V live w' s"
  using ordered_same by (auto simp: at_work_def)

lemma ordered_other:
  assumes "ordered V live w st x" and "order_at V live oid h w'" and "only_order V oid w w'" and "x \<noteq> PStr oid"
  shows "ordered V live w' st x"
  using assms order_at_other [OF _ assms(2,3)] unfolding ordered_def by blast

lemma at_work_other:
  assumes "at_work V live w s" and "order_at V live oid h w'" and "only_order V oid w w'" and "worker_order s \<noteq> Some (PStr oid)"
  shows "at_work V live w' s"
  using assms ordered_other [OF _ assms(2,3)] by (fastforce simp: at_work_def)

text \<open>A step that changes nothing in the services.\<close>

lemma bench_ok_idle:
  assumes "bench_ok V live b w" and "i < length (bn_workers b)" and "bn_workers b' = (bn_workers b)[i := s]"
    and "bn_results b' = bn_results b" and "worker_order s = None" and "live w'" and "V w' = V w"
  shows "bench_ok V live b' w'"
  using assms(1,2,3)
proof (rule bench_ok_update)
  show "at_work V live w' (bn_workers b ! j) \<and> apart s (bn_workers b ! j)" if "j < length (bn_workers b)" for j
    using that assms idle_apart(1) at_work_same by (auto simp: bench_ok_def)
  show "ordered V live w' None oid" if "oid \<in> fst ` set (bn_results b')" for oid
    using that assms ordered_same by (auto simp: bench_ok_def)
qed (use assms idle_apart(2) in \<open>auto simp: bench_ok_def\<close>)

text \<open>A step that moves one order on.\<close>

lemma bench_ok_order:
  assumes "bench_ok V live b w" and "i < length (bn_workers b)" and "bn_workers b' = (bn_workers b)[i := s]"
    and "order_at V live oid h w'" and "only_order V oid w w'"
    and "\<And>j. j < length (bn_workers b) \<Longrightarrow> j \<noteq> i \<Longrightarrow> worker_order (bn_workers b ! j) \<noteq> Some (PStr oid)"
    and "PStr oid \<notin> fst ` set (bn_results b)"
    and "worker_order s = Some (PStr oid) \<and> at_work V live w' s \<and> bn_results b' = bn_results b \<or>
      worker_order s = None \<and> bench_order None h \<and> bn_results b' = bn_results b @ [(PStr oid, t)]"
  shows "bench_ok V live b' w'"
  using assms(1,2,3)
proof (rule bench_ok_update)
  show "at_work V live w' (bn_workers b ! j) \<and> apart s (bn_workers b ! j)" if "j < length (bn_workers b)" "j \<noteq> i" for j
    using that assms(1,8) assms(6) [OF that] at_work_other [OF _ assms(4,5)] by (auto simp: bench_ok_def apart_def)
  show "ordered V live w' None x" if "x \<in> fst ` set (bn_results b')" for x
  proof (cases "x = PStr oid")
    case True
    then show ?thesis using that assms(4,7,8) by (auto simp: ordered_def)
  next
    case False
    then have "x \<in> fst ` set (bn_results b)" using that assms(8) by auto
    then have "ordered V live w None x" using assms(1) unfolding bench_ok_def by blast
    then show ?thesis using False ordered_other [OF _ assms(4,5)] by blast
  qed
  show "at_work V live w' s" using assms(8) by (auto intro: idle_apart(2))
  show "distinct (map fst (bn_results b'))" using assms(1,7,8) by (auto simp: bench_ok_def)
qed (use assms in \<open>auto simp: bench_ok_def order_at_def only_order_def\<close>)

lemma ordered_history: "ordered V live w st (PStr a) \<Longrightarrow> length (order_history (V w) a) = stage_length st"
  by (auto simp: ordered_def order_at_def bench_order_length)

lemma stage_length_pos: "0 < stage_length st" and stage_length_none: "stage_length (Some s) \<noteq> stage_length None"
  by (cases st rule: stage_length.cases; simp) (cases s; simp)

text \<open>An order that is at no stage differs from those being worked on, and an open one from the completed ones.\<close>

lemma unstaged_order:
  assumes "bench_ok V live b w" and "order_history (V w) oid = []"
  shows "j < length (bn_workers b) \<Longrightarrow> worker_order (bn_workers b ! j) \<noteq> Some (PStr oid)"
    and "PStr oid \<notin> fst ` set (bn_results b)"
proof -
  have no: "\<not> ordered V live w st (PStr oid)" for st
    using ordered_history [of w st oid] stage_length_pos [of st] assms(2) by auto
  show "worker_order (bn_workers b ! j) \<noteq> Some (PStr oid)" if "j < length (bn_workers b)"
  proof
    assume "worker_order (bn_workers b ! j) = Some (PStr oid)"
    then obtain t st where "bn_workers b ! j = Sending (PStr oid) t st" by (cases "bn_workers b ! j") auto
    then show False using assms(1) that no by (auto simp: bench_ok_def at_work_def)
  qed
  show "PStr oid \<notin> fst ` set (bn_results b)" using assms(1) no unfolding bench_ok_def by blast
qed

lemma open_order:
  assumes "bench_ok V live b w" and "i < length (bn_workers b)" and "bn_workers b ! i = Sending (PStr oid) t st"
  shows "j < length (bn_workers b) \<Longrightarrow> j \<noteq> i \<Longrightarrow> worker_order (bn_workers b ! j) \<noteq> Some (PStr oid)"
    and "PStr oid \<notin> fst ` set (bn_results b)"
proof -
  show "worker_order (bn_workers b ! j) \<noteq> Some (PStr oid)" if "j < length (bn_workers b)" "j \<noteq> i"
    using assms that unfolding bench_ok_def apart_def by (metis option.distinct(1) worker_order.simps(1))
  have "ordered V live w (Some st) (PStr oid)" using assms unfolding bench_ok_def at_work_def by blast
  then have "\<not> ordered V live w None (PStr oid)" using ordered_history stage_length_none by metis
  then show "PStr oid \<notin> fst ` set (bn_results b)" using assms(1) unfolding bench_ok_def by blast
qed

lemma load_moves:
  assumes "i < length (bn_workers b)" and "bn_workers b' = (bn_workers b)[i := s]"
    and "length (bn_results b') + length (filter (\<lambda>x. x \<noteq> None) (bn_queue b')) + (if busy s then 1 else 0) =
      length (bn_results b) + length (filter (\<lambda>x. x \<noteq> None) (bn_queue b)) + (if busy (bn_workers b ! i) then 1 else 0)"
  shows "load b' = load b"
  using filter_update [OF assms(1), of busy s] assms(2,3) by (simp add: load_def split: if_splits)

lemma worker_step_up:
  assumes "bench_ok V live b w" and "i < length (bn_workers b)"
  shows "\<exists>b' w'. worker_step C i b w = (Inr b', w') \<and> bench_ok V live b' w' \<and> load b' = load b \<and>
    length (bn_workers b') = length (bn_workers b)"
proof (cases "bn_workers b ! i")
  case Getting
  show ?thesis
  proof (cases "bn_queue b")
    case Nil
    then show ?thesis using Getting assms(1) by (simp add: worker_step_def io_simps)
  next
    case (Cons x queue)
    have live: "live w" using assms(1) by (simp add: bench_ok_def)
    show ?thesis
    proof (cases x)
      case None
      let ?b = "moves i Stopped (task_done (b\<lparr>bn_queue := queue\<rparr>))"
      have "bench_ok V live ?b w" using assms live by (intro bench_ok_idle [of b w i ?b Stopped]) simp_all
      moreover have "load ?b = load b" using Getting Cons None by (intro load_moves [OF assms(2), where s = Stopped]) simp_all
      ultimately show ?thesis using Getting Cons None by (simp add: worker_step_def io_simps)
    next
      case (Some worker_id)
      let ?s = "Creating worker_id (fst (sc_time C w))"
      let ?b = "moves i ?s (b\<lparr>bn_queue := queue\<rparr>)"
      have "bench_ok V live ?b (snd (sc_time C w))"
        using assms script_time [OF live] by (intro bench_ok_idle [of b w i ?b ?s]) simp_all
      moreover have "load ?b = load b" using Getting Cons Some by (intro load_moves [OF assms(2), where s = ?s]) simp_all
      ultimately show ?thesis using Getting Cons Some by (simp add: worker_step_def bindM_def io_simps)
    qed
  qed
next
  case (Creating worker_id start_time)
  obtain oid h w' where up: "start_order C worker_id w = (Inr (Some (PStr oid)), w')" "order_at V live oid h w'"
    "bench_order (Some Item1) h" "order_history (V w) oid = []" "only_order V oid w w'"
    using start_up [of w worker_id] assms(1) unfolding bench_ok_def by blast
  let ?s = "Sending (PStr oid) start_time Item1"
  have "at_work V live w' ?s" using up(2,3) by (auto simp: at_work_def ordered_def)
  then have "bench_ok V live (moves i ?s b) w'"
    using unstaged_order [OF assms(1) up(4)] by (intro bench_ok_order [OF assms _ up(2,5), where s = ?s]) simp_all
  moreover have "load (moves i ?s b) = load b" using Creating by (intro load_moves [OF assms(2), where s = ?s]) simp_all
  ultimately show ?thesis using Creating up(1) by (simp add: worker_step_def bindM_def tryM_def io_simps)
next
  case (Sending oid start_time st)
  have "at_work V live w (bn_workers b ! i)" using assms by (simp add: bench_ok_def)
  then obtain a h where a: "oid = PStr a" "order_at V live a h w" "bench_order (Some st) h"
    using Sending by (auto simp: at_work_def ordered_def)
  obtain h' w' where up: "send_command C (PStr a) st w = (Inr (), w')" "order_at V live a h' w'"
    "bench_order (next_stage st) h'" "only_order V a w w'"
    using command_up [OF a(2,3)] by blast
  note other = open_order [OF assms Sending [unfolded a(1)]]
  show ?thesis
  proof (cases "next_stage st")
    case (Some st')
    let ?s = "Sending (PStr a) start_time st'"
    have "at_work V live w' ?s" using up(2,3) Some by (auto simp: at_work_def ordered_def)
    then have "bench_ok V live (moves i ?s b) w'"
      using other by (intro bench_ok_order [OF assms _ up(2,4), where s = ?s]) simp_all
    moreover have "load (moves i ?s b) = load b" using Sending by (intro load_moves [OF assms(2), where s = ?s]) simp_all
    ultimately show ?thesis using Sending a(1) Some up(1) by (simp add: worker_step_def bindM_def tryM_def io_simps)
  next
    case None
    let ?t = "fl_add (fst (sc_time C w')) (fl_neg start_time)" and ?w = "snd (sc_time C w')"
    let ?b = "moves i Getting (task_done (b\<lparr>bn_results := bn_results b @ [(PStr a, ?t)]\<rparr>))"
    have live: "live w'" "a \<noteq> []" using up(2) by (auto simp: order_at_def)
    have at: "order_at V live a h' ?w" "only_order V a w ?w"
      using script_time [OF live(1)] order_at_same [OF up(2)] up(4) by (auto simp: only_order_def)
    have "bench_ok V live ?b ?w"
      using other up(3) None by (intro bench_ok_order [OF assms _ at, where s = Getting and t = ?t]) simp_all
    moreover have "load ?b = load b" using Sending by (intro load_moves [OF assms(2), where s = Getting]) simp_all
    ultimately show ?thesis
      using Sending a(1) None up(1) live(2) by (simp add: worker_step_def bindM_def tryM_def io_simps)
  qed
qed (use assms in \<open>simp add: worker_step_def io_simps\<close>)

lemma run_workers_up:
  assumes "bench_ok V live b w"
  shows "\<exists>b' w'. run_workers C sched b w = (Inr b', w') \<and> bench_ok V live b' w' \<and> load b' = load b"
  using assms
proof (induction sched arbitrary: b w)
  case Nil
  then show ?case by (simp add: io_simps)
next
  case (Cons i sched)
  show ?case
  proof (cases "i < length (bn_workers b)")
    case False
    then show ?thesis using Cons.IH [OF Cons.prems] by (simp add: bindM_def io_simps)
  next
    case True
    obtain b1 w1 where b1: "worker_step C i b w = (Inr b1, w1)" "bench_ok V live b1 w1" "load b1 = load b"
      using worker_step_up [OF Cons.prems True] by blast
    then show ?thesis using Cons.IH [OF b1(2)] True by (simp add: bindM_def)
  qed
qed

lemma start_bench_ok:
  assumes "live w" and "store_ok (V w)" and "only_keys (V w)" and "finite (dom (b_kv (V w)))"
  shows "bench_ok V live (start_benchmark orders workers) w" and "load (start_benchmark orders workers) = orders"
proof -
  show "bench_ok V live (start_benchmark orders workers) w"
    using assms by (simp add: bench_ok_def start_benchmark_def at_work_def apart_def)
  show "load (start_benchmark orders workers) = orders"
    by (simp add: load_def start_benchmark_def comp_def)
qed

lemma ordered_shipped:
  assumes "ordered V live w None (PStr a)"
  shows "length (order_history (V w) a) = 6 \<and> os_status (order_state_of (V w) a) = SHIPPED \<and>
    os_total (order_state_of (V w) a) = Fin 48500"
proof -
  obtain c x y p t where h: "order_history (V w) a = [(1, Created c ''bench@test.com''),
      (2, ItemAdded (script_item x ''Car Polish'' 1 500)), (3, ItemAdded (script_item y ''Alloy Wheels'' 4 12000)),
      (4, Confirmed), (5, Paid p), (6, Shipped t)]"
    using assms by (auto simp: ordered_def order_at_def bench_order_def)
  have "fl_add (fl_add (Fin 0) (Fin 500)) (Fin 48000) = Fin 48500"
    using script_total [of 500 48000] by simp
  then show ?thesis
    by (simp add: h order_apply_def script_item_total) (simp add: order_init_def)
qed

end

section \<open>The benchmark in memory\<close>

text \<open>A uuid that is longer than every key in Redis.\<close>

definition mem_bench :: "mem script_env" where
  "mem_bench = mem_script\<lparr>sc_uuid4 :=
     \<lambda>w. (replicate (Suc (Max (insert 0 (length ` dom (b_kv (mem_state w)))))) CHR ''k'', w)\<rparr>"

interpretation mem_bench: bench_up mem_bench mem_web mem_state "\<lambda>w. mem_faults w = []"
proof (intro bench_up.intro bench_up_axioms.intro scripts_up.intro scripts_up_axioms.intro)
  show "web_laws mem_web mem_state" by (rule mem_web.web_laws_axioms)
  show "write_side_up (wb_mongo mem_web) (wb_redis mem_web) (wb_producer mem_web) mem_state (wb_platform mem_web) (\<lambda>w. mem_faults w = [])"
    by (rule mem_script.up.write_side_up_axioms)
  show "\<exists>r w'. find_one_sorted (wb_mongo mem_web) f p k asc w = (Inr r, w') \<and> mem_faults w' = []"
    if "mem_faults w = []" for w :: mem and f p k asc
    using mem_script.find_one_up [OF that] .
  show "b_kv (mem_state w) (''idem:create:'' @ fst (sc_uuid4 mem_bench w)) = None"
    if "finite (dom (b_kv (mem_state w)))" for w
  proof (rule ccontr)
    let ?n = "Max (insert 0 (length ` dom (b_kv (mem_state w))))" and ?k = "''idem:create:'' @ fst (sc_uuid4 mem_bench w)"
    assume "b_kv (mem_state w) ?k \<noteq> None"
    then have "length ?k \<in> insert 0 (length ` dom (b_kv (mem_state w)))" by blast
    then have "length ?k \<le> ?n" using that by (intro Max_ge) simp_all
    then show False by (simp add: mem_bench_def)
  qed
qed (auto simp: mem_bench_def mem_script_def io_simps same_docs_def list_all2_refl mem_script.plain_id)

section \<open>A worker alone\<close>

text \<open>With a single worker, some number of steps leads from one state to another.\<close>

definition reaches :: "'w script_env \<Rightarrow> benchmark \<Rightarrow> 'w \<Rightarrow> benchmark \<Rightarrow> 'w \<Rightarrow> bool" where
  "reaches C b w b' w' \<longleftrightarrow> (\<exists>n. run_workers C (replicate n 0) b w = (Inr b', w'))"

lemma reaches_refl: "reaches C b w b w"
  unfolding reaches_def by (rule exI [of _ 0]) (simp add: io_simps)

lemma reaches_trans:
  assumes "reaches C b w b1 w1" and "reaches C b1 w1 b2 w2"
  shows "reaches C b w b2 w2"
proof -
  obtain m n where "run_workers C (replicate m 0) b w = (Inr b1, w1)" "run_workers C (replicate n 0) b1 w1 = (Inr b2, w2)"
    using assms by (auto simp: reaches_def)
  then show ?thesis
    unfolding reaches_def by (intro exI [of _ "m + n"]) (simp add: replicate_add run_workers_append bindM_def)
qed

lemma reaches_step: "bn_workers b \<noteq> [] \<Longrightarrow> worker_step C 0 b w = (Inr b1, w1) \<Longrightarrow> reaches C b w b1 w1"
  unfolding reaches_def by (rule exI [of _ 1]) (simp add: bindM_def io_simps)

abbreviation alone :: "string option list \<Rightarrow> nat \<Rightarrow> (pyval \<times> pyfloat) list \<Rightarrow> worker_state \<Rightarrow> benchmark" where
  "alone queue n results s \<equiv> \<lparr>bn_queue = queue, bn_unfinished = n, bn_results = results, bn_workers = [s]\<rparr>"

fun stages_from :: "stage \<Rightarrow> stage list \<Rightarrow> bool" where
  "stages_from st [] \<longleftrightarrow> False"
| "stages_from st [x] \<longleftrightarrow> x = st \<and> next_stage st = None"
| "stages_from st (x # y # zs) \<longleftrightarrow> x = st \<and> next_stage st = Some y \<and> stages_from y (y # zs)"

definition add_result :: "pyval \<Rightarrow> pyfloat \<Rightarrow> (pyval \<times> pyfloat) list \<Rightarrow> (pyval \<times> pyfloat) list" where
  "add_result oid t results = (if truthy oid then results @ [(oid, t)] else results)"

lemma alone_commands:
  assumes "stages_from st sts"
  shows "case send_commands C oid sts w of
      (Inr _, w1) \<Rightarrow> reaches C (alone q n rs (Sending oid start st)) w
        (alone q (n - 1) (add_result oid (fl_add (fst (sc_time C w1)) (fl_neg start)) rs) Getting) (snd (sc_time C w1))
    | (Inl _, w1) \<Rightarrow> reaches C (alone q n rs (Sending oid start st)) w (alone q (n - 1) rs Getting) w1"
  using assms
proof (induction st sts arbitrary: w rule: stages_from.induct)
  case (2 st x)
  then have st: "x = st" "next_stage st = None" by simp_all
  show ?case
    by (cases "send_command C oid st w"; cases "fst (send_command C oid st w)")
      (auto simp: st bindM_def tryM_def io_simps worker_step_def moves_def task_done_def add_result_def intro!: reaches_step)
next
  case (3 st x y zs)
  then have st: "x = st" "next_stage st = Some y" "stages_from y (y # zs)" by simp_all
  obtain r w1 where r: "send_command C oid st w = (r, w1)" by (metis surj_pair)
  show ?case
  proof (cases r)
    case (Inl e)
    then have "worker_step C 0 (alone q n rs (Sending oid start st)) w = (Inr (alone q (n - 1) rs Getting), w1)"
      using r by (simp add: worker_step_def bindM_def tryM_def io_simps moves_def task_done_def)
    then have "reaches C (alone q n rs (Sending oid start st)) w (alone q (n - 1) rs Getting) w1" by (intro reaches_step) simp_all
    then show ?thesis using r Inl st(1) by (simp add: bindM_def)
  next
    case (Inr u)
    then have "worker_step C 0 (alone q n rs (Sending oid start st)) w = (Inr (alone q n rs (Sending oid start y)), w1)"
      using r st(2) by (simp add: worker_step_def bindM_def tryM_def io_simps moves_def)
    then have first: "reaches C (alone q n rs (Sending oid start st)) w (alone q n rs (Sending oid start y)) w1" by (intro reaches_step) simp_all
    have "send_commands C oid (x # y # zs) w = send_commands C oid (y # zs) w1"
      using r Inr st(1) by (simp add: bindM_def)
    then show ?thesis
      using "3.IH" [OF st(3), of w1] reaches_trans [OF first]
      by (auto split: prod.splits sum.splits simp del: send_commands.simps)
  qed
qed simp

text \<open>What \<open>worker\<close> does with one item.\<close>

definition work_item :: "'w script_env \<Rightarrow> string \<Rightarrow> (pyval \<times> pyfloat) list \<Rightarrow> ('w, (pyval \<times> pyfloat) list) io" where
  "work_item C worker_id results =
     tryM
       (bindM (effM (sc_time C)) (\<lambda>start_time.
        bindM (create_single_order_full_lifecycle C worker_id) (\<lambda>order_id.
        bindM (effM (sc_time C)) (\<lambda>t.
        returnM (case order_id of
          Some i \<Rightarrow> if truthy i then results @ [(i, fl_add t (fl_neg start_time))] else results
        | None \<Rightarrow> results)))))
       (\<lambda>e. returnM results)"

lemma worker_item: "worker C (Some worker_id # queue) results = bindM (work_item C worker_id results) (worker C queue)"
  by (simp add: work_item_def)

lemma alone_item:
  "\<exists>rs1 w1. work_item C worker_id rs w = (Inr rs1, w1) \<and>
     reaches C (alone (Some worker_id # q) n rs Getting) w (alone q (n - 1) rs1 Getting) w1"
proof -
  let ?t = "fst (sc_time C w)" and ?w0 = "snd (sc_time C w)"
  have get: "reaches C (alone (Some worker_id # q) n rs Getting) w (alone q n rs (Creating worker_id ?t)) ?w0"
    by (rule reaches_step) (simp_all add: worker_step_def bindM_def io_simps moves_def)
  obtain r w1 where r: "start_order C worker_id ?w0 = (r, w1)" by (metis surj_pair)
  consider e where "r = Inl e" | "r = Inr None" | oid where "r = Inr (Some oid)"
    by (metis old.sum.exhaust option.exhaust)
  then show ?thesis
  proof cases
    case (1 e)
    then have "reaches C (alone q n rs (Creating worker_id ?t)) ?w0 (alone q (n - 1) rs Getting) w1"
      using r by (intro reaches_step) (simp_all add: worker_step_def bindM_def tryM_def io_simps moves_def task_done_def)
    moreover have "work_item C worker_id rs w = (Inr rs, w1)"
      using r 1 by (simp add: work_item_def lifecycle_stages bindM_def tryM_def io_simps)
    ultimately show ?thesis using reaches_trans [OF get] by blast
  next
    case 2
    then have "reaches C (alone q n rs (Creating worker_id ?t)) ?w0 (alone q (n - 1) rs Getting) (snd (sc_time C w1))"
      using r by (intro reaches_step) (simp_all add: worker_step_def bindM_def tryM_def io_simps moves_def task_done_def)
    moreover have "work_item C worker_id rs w = (Inr rs, snd (sc_time C w1))"
      using r 2 by (simp add: work_item_def lifecycle_stages bindM_def tryM_def io_simps)
    ultimately show ?thesis using reaches_trans [OF get] by blast
  next
    case (3 oid)
    let ?sts = "[Item1, Item2, Confirm, Payment, Ship]"
    have "reaches C (alone q n rs (Creating worker_id ?t)) ?w0 (alone q n rs (Sending oid ?t Item1)) w1"
      using r 3 by (intro reaches_step) (simp_all add: worker_step_def bindM_def tryM_def io_simps moves_def)
    note sending = reaches_trans [OF get this]
    obtain r2 w2 where r2: "send_commands C oid ?sts w1 = (r2, w2)" by (metis surj_pair)
    have "stages_from Item1 ?sts" by simp
    note commands = alone_commands [OF this, where C = C and oid = oid and w = w1 and q = q and n = n and rs = rs and start = ?t, unfolded r2]
    have item: "work_item C worker_id rs w = (case r2 of
        Inl e \<Rightarrow> (Inr rs, w2)
      | Inr u \<Rightarrow> (Inr (add_result oid (fl_add (fst (sc_time C w2)) (fl_neg ?t)) rs), snd (sc_time C w2)))"
      using r 3 r2 by (cases r2) (simp_all add: work_item_def lifecycle_stages bindM_def tryM_def io_simps add_result_def del: send_commands.simps)
    then show ?thesis using commands reaches_trans [OF sending] by (cases r2) auto
  qed
qed

text \<open>A single worker of the interleaved model does exactly what the coroutine \<open>worker\<close> does.\<close>

theorem worker_alone:
  "\<exists>results w'. worker C (map Some ids @ [None]) rs w = (Inr results, w') \<and>
     reaches C (alone (map Some ids @ [None]) (length ids + 1) rs Getting) w (alone [] 0 results Stopped) w'"
proof (induction ids arbitrary: rs w)
  case Nil
  have "reaches C (alone [None] 1 rs Getting) w (alone [] 0 rs Stopped) w"
    by (rule reaches_step) (simp_all add: worker_step_def io_simps moves_def task_done_def)
  then show ?case by (simp add: io_simps)
next
  case (Cons worker_id ids)
  obtain rs1 w1 where item: "work_item C worker_id rs w = (Inr rs1, w1)"
    "reaches C (alone (Some worker_id # map Some ids @ [None]) (length ids + 2) rs Getting) w
       (alone (map Some ids @ [None]) (length ids + 2 - 1) rs1 Getting) w1"
    using alone_item [of C worker_id rs w "map Some ids @ [None]" "length ids + 2"] by blast
  have "worker C (map Some (worker_id # ids) @ [None]) rs w = worker C (map Some ids @ [None]) rs1 w1"
    using item(1) unfolding list.map append_Cons worker_item by (simp add: bindM_def)
  with Cons.IH [of rs1 w1] reaches_trans [OF item(2)] show ?case by fastforce
qed

section \<open>The whole benchmark\<close>

text \<open>
  \<open>random_sample\<close> is \<open>random.sample\<close>.  The result is the number of differences that the replay found,
  \<open>None\<close> in it when the API cannot be reached at the beginning; no result at all means that the
  benchmark has not come to an end under the schedule, or waits for ever.  The figures that it prints,
  and the readings of the clock that only serve them, are left out.
\<close>

definition initial_orders :: "pyval \<Rightarrow> exn + int" where
  "initial_orders stats =
     (case stats of
        PDict d \<Rightarrow> (case dict_get d ''total_orders'' (PInt 0) of PInt n \<Rightarrow> Inr n | _ \<Rightarrow> Inl TypeError)
      | _ \<Rightarrow> Inl AttributeError)"

definition deduplication_phase ::
    "'w script_env \<Rightarrow> ((pyval \<times> pyfloat) list \<Rightarrow> nat \<Rightarrow> 'w \<Rightarrow> (pyval \<times> pyfloat) list \<times> 'w) \<Rightarrow>
     (pyval \<times> pyfloat) list \<Rightarrow> ('w, nat) io" where
  "deduplication_phase C random_sample results =
     bindM (effM (random_sample results (min (length results) 20))) (\<lambda>sample.
     replay_test C (map fst sample))"

definition run_benchmark ::
    "'w script_env \<Rightarrow> ((pyval \<times> pyfloat) list \<Rightarrow> nat \<Rightarrow> 'w \<Rightarrow> (pyval \<times> pyfloat) list \<times> 'w) \<Rightarrow> nat list \<Rightarrow>
     'w \<Rightarrow> ((exn + nat option) \<times> 'w) option" where
  "run_benchmark C random_sample sched w =
     (case bindM (http_get C ''/queries/stats'') (\<lambda>r. liftM (resp_json r)) w of
        (Inl e, w1) \<Rightarrow> Some (Inr None, w1)
      | (Inr stats, w1) \<Rightarrow>
          (case initial_orders stats of
             Inl e \<Rightarrow> Some (Inl e, w1)
           | Inr initial \<Rightarrow>
               (case run_workers C sched (start_benchmark NUM_ORDERS CONCURRENCY) w1 of
                  (Inl e, w2) \<Rightarrow> Some (Inl e, w2)
                | (Inr b, w2) \<Rightarrow>
                    if \<not> finished b then None
                    else
                      (case await_projections C (initial + int (length (bn_results b))) w2 of
                         None \<Rightarrow> None
                       | Some (Inl e, w3) \<Rightarrow> Some (Inl e, w3)
                       | Some (Inr _, w3) \<Rightarrow>
                           (case deduplication_phase C random_sample (bn_results b) w3 of
                              (Inl e, w4) \<Rightarrow> Some (Inl e, w4)
                            | (Inr errors, w4) \<Rightarrow> Some (Inr (Some errors), w4))))))"

section \<open>Properties\<close>

text \<open>
  C30. The workers of the benchmark come to an end: whatever the API answers, and in whatever order
  the event loop resumes the tasks, as long as it resumes each of them again and again, after at most
  seven rounds for an order and one for a worker the queue is empty and joined and every worker has
  returned.
\<close>

theorem benchmark_workers_finish:
  assumes "0 < workers" and "\<forall>s \<in> set rounds. round_of workers s" and "7 * orders + workers \<le> length rounds"
  shows "\<exists>b w'. run_workers C (concat rounds) (start_benchmark orders workers) w = (Inr b, w') \<and>
    finished b \<and> bn_queue b = []"
proof -
  have "bn_workers (start_benchmark orders workers) \<noteq> []" "length (bn_workers (start_benchmark orders workers)) = workers"
    using assms(1) by (simp_all add: start_benchmark_def)
  then show ?thesis
    using rounds_finish [OF start_queue_inv, of orders workers rounds C w] assms(2,3) by (simp add: start_weight)
qed

theorem benchmark_workers_finish_witness:
  "\<exists>b w'. run_workers mem_bench (concat (replicate 9 [1, 0])) (start_benchmark 1 2) mem_ready = (Inr b, w') \<and> finished b"
proof -
  have "round_of 2 [1, 0]" by (auto simp: round_of_def)
  then show ?thesis
    using benchmark_workers_finish [of 2 "replicate 9 [1, 0]" 1 mem_bench mem_ready] by auto
qed

text \<open>
  C29. When the services answer, the benchmark's load is done completely: under every such schedule
  exactly the requested number of different orders is reported, and each of them is shipped with its six
  events and the total that was paid, in whatever order the requests of the workers follow each other.
\<close>

theorem benchmark_orders_complete:
  assumes "bench_up C W V live" and "live w" and "store_ok (V w)" and "only_keys (V w)" and "finite (dom (b_kv (V w)))"
    and "0 < workers" and "\<forall>s \<in> set rounds. round_of workers s" and "7 * orders + workers \<le> length rounds"
  shows "\<exists>b w'. run_workers C (concat rounds) (start_benchmark orders workers) w = (Inr b, w') \<and> finished b \<and>
    length (bn_results b) = orders \<and> distinct (map fst (bn_results b)) \<and>
    (\<forall>oid \<in> fst ` set (bn_results b). \<exists>a. oid = PStr a \<and> length (order_history (V w') a) = 6 \<and>
      os_status (order_state_of (V w') a) = SHIPPED \<and> os_total (order_state_of (V w') a) = Fin 48500)"
proof -
  have "bn_workers (start_benchmark orders workers) \<noteq> []" "length (bn_workers (start_benchmark orders workers)) = workers"
    using assms(6) by (simp_all add: start_benchmark_def)
  then obtain b w' where b: "run_workers C (concat rounds) (start_benchmark orders workers) w = (Inr b, w')"
    "finished b" "bn_queue b = []"
    using rounds_finish [OF start_queue_inv, of orders workers rounds C w] assms(7,8) by (auto simp: start_weight)
  note start = bench_up.start_bench_ok [OF assms(1-5)]
  have ok: "bench_ok V live b w'" "load b = orders"
    using bench_up.run_workers_up [OF assms(1) start(1), of "concat rounds" orders workers] start(2) b(1) by auto
  have "filter busy (bn_workers b) = []" using b(2) by (auto simp: finished_def filter_empty_conv)
  then have "length (bn_results b) = orders" using ok(2) b(3) by (simp add: load_def)
  moreover have "\<exists>a. oid = PStr a \<and> length (order_history (V w') a) = 6 \<and>
      os_status (order_state_of (V w') a) = SHIPPED \<and> os_total (order_state_of (V w') a) = Fin 48500"
    if "oid \<in> fst ` set (bn_results b)" for oid
  proof -
    have "ordered V live w' None oid" using ok(1) that unfolding bench_ok_def by blast
    then obtain a where "oid = PStr a" "ordered V live w' None (PStr a)" by (auto simp: ordered_def)
    then show ?thesis using bench_up.ordered_shipped [OF assms(1)] by blast
  qed
  moreover have "distinct (map fst (bn_results b))" using ok(1) by (simp add: bench_ok_def)
  ultimately show ?thesis using b(1,2) by (intro exI [of _ b] exI [of _ w']) simp
qed

theorem benchmark_orders_complete_witness:
  "\<exists>b w'. run_workers mem_bench (concat (replicate 17 [1, 0])) (start_benchmark 2 2) mem_ready = (Inr b, w') \<and>
     length (bn_results b) = 2 \<and> distinct (map fst (bn_results b))"
proof -
  have "round_of 2 [1, 0]" by (auto simp: round_of_def)
  moreover have "mem_faults mem_ready = []" "finite (dom (b_kv (mem_state mem_ready)))"
    by (simp_all add: mem_ready_eq mem_init_def)
  ultimately show ?thesis
    using benchmark_orders_complete [OF mem_bench.bench_up_axioms _ mem_ready_ok mem_ready_keys,
        of 2 "replicate 17 [1, 0]" 2] by fastforce
qed

text \<open>While no order is created, no worker gets to a command and there are no results.\<close>

lemma no_orders_run:
  assumes "\<And>id x oid. fst (start_order C id x) \<noteq> Inr (Some oid)"
    and "bn_results b = []" and "\<forall>i < length (bn_workers b). worker_order (bn_workers b ! i) = None"
    and "run_workers C sched b w = (Inr b', w')"
  shows "bn_results b' = []"
  using assms(2-4)
proof (induction sched arbitrary: b w)
  case Nil
  then show ?case by (simp add: io_simps)
next
  case (Cons i sched)
  show ?case
  proof (cases "i < length (bn_workers b)")
    case False
    then show ?thesis using Cons by (simp add: bindM_def io_simps)
  next
    case True
    obtain b1 w1 where step: "worker_step C i b w = (Inr b1, w1)"
      "advances i b b1 \<or> b1 = b \<and> (bn_workers b ! i = Stopped \<or> bn_workers b ! i = Getting \<and> bn_queue b = [])"
      by (rule worker_step_advances)
    have "worker_order (bn_workers b ! i) = None" using Cons.prems(2) True by blast
    then obtain s where "bn_workers b1 = (bn_workers b)[i := s] \<and> worker_order s = None \<and> bn_results b1 = []"
    proof (cases "bn_workers b ! i")
      case (Creating worker_id start_time)
      have "fst (start_order C worker_id w) \<noteq> Inr (Some oid)" for oid by (rule assms(1))
      then have "b1 = moves i Getting (task_done b)"
        using step(1) Creating
        by (cases "start_order C worker_id w") (auto simp: worker_step_def bindM_def tryM_def io_simps split: sum.splits option.splits)
      then show thesis using that [of Getting] Cons.prems(1) by simp
    next
      case Getting
      have same: "(bn_workers b)[i := Getting] = bn_workers b" using Getting list_update_id [of "bn_workers b" i] by simp
      show thesis
        using that [of Getting] that [of Stopped] that [of "Creating x y" for x y] step(1) Cons.prems(1) Getting same
        by (cases "bn_queue b") (auto simp: worker_step_def bindM_def io_simps split: option.splits)
    next
      case Stopped
      have "(bn_workers b)[i := Stopped] = bn_workers b" using Stopped list_update_id [of "bn_workers b" i] by simp
      then show thesis using that [of Stopped] step(1) Cons.prems(1) Stopped
        by (auto simp: worker_step_def io_simps)
    qed auto
    moreover from this have "\<forall>j < length (bn_workers b1). worker_order (bn_workers b1 ! j) = None"
      using Cons.prems(2) True by (auto simp: nth_list_update)
    moreover have "run_workers C sched b1 w1 = (Inr b', w')"
      using Cons.prems(3) True step(1) by (simp add: bindM_def)
    ultimately show ?thesis using Cons.IH by blast
  qed
qed


text \<open>An API whose database is down: it answers the statistics from a replica and refuses commands.\<close>

definition refusing_script :: "mem script_env" where
  "refusing_script = mem_script\<lparr>sc_send := \<lambda>rq. returnM
     (if rq_method rq = ''POST'' then \<lparr>rs_status = 503, rs_json = None\<rparr>
      else \<lparr>rs_status = 200, rs_json = Some (PDict [(''total_orders'', PInt 7)])\<rparr>)\<rparr>"


end
