(* ===== verification/Spec2Isabelle.thy ===== *)
theory Spec2Isabelle
  imports Provisioning Pipeline Consumer_Process Event_Schema Pruning Benchmark
begin

text \<open>
  A verification library for an event-sourced order service with separate write and read sides.

  \<^bold>\<open>The program.\<close>  Commands arrive at \<open>api/routers/command_router.py\<close>.  A handler loads the events of
  an order from MongoDB (\<open>api/services/event_store.py\<close>), rebuilds the aggregate
  (\<open>api/services/aggregate.py\<close>), checks a business rule, makes an event
  (\<open>api/models/events.py\<close>), appends it to the store, where a unique index on order and version
  is the optimistic lock, and publishes it to Kafka (\<open>api/services/publisher.py\<close>).  A consumer
  (\<open>consumers/main.py\<close>) reads the topic and projects each event into two PostgreSQL tables
  (\<open>infra/postgres_init.sql\<close>); an event it cannot project goes to a dead letter queue, which a
  Lambda function (\<open>lambda_handlers/retry_handler.py\<close>) empties back into the topic, or into S3
  after three retries.  An archiver (\<open>consumers/archiver.py\<close>) reads the same topic and uploads batches
  of events to S3.  Queries (\<open>api/routers/query_router.py\<close>) are answered from the tables, an order by id
  through a Redis cache that the consumer invalidates.  \<open>api/main.py\<close> and \<open>dependencies.py\<close> connect the
  clients and hand them to the handlers.

  \<^bold>\<open>Theories.\<close>
  \<^item> \<open>Py_Float\<close>, \<open>Prelude\<close>: Python's floats (round to nearest, ties to even, infinities and NaN),
    values, dictionaries, exceptions, and the monad \<open>('w, 'a) io\<close> of a coroutine over a world
    \<open>'w\<close> that returns or raises.
  \<^item> \<open>Events\<close>: \<open>EventType\<close>, \<open>OrderStatus\<close>, \<open>BaseEvent\<close>, the factories, and the request and
    response models of \<open>api/models/schemas.py\<close>.
  \<^item> \<open>Order_Spec\<close>: the abstract specification -- an order as a state machine over typed events,
    which events a state admits, and which histories are valid.
  \<^item> \<open>Aggregate\<close>: \<open>OrderAggregate\<close>, with the refinement of \<open>Order_Spec\<close> by replay.
  \<^item> \<open>Services\<close>: the state of the services behind the clients (\<open>backend\<close>), and the contract of
    each client as a locale (\<open>mongo_laws\<close>, \<open>redis_laws\<close>, \<open>kafka_laws\<close>, \<open>tenacity_laws\<close>,
    \<open>env_laws\<close>).  Calls may fail, before or after taking effect.  \<open>Memory_Backend\<close> is a concrete
    implementation with a script of faults, on which every locale is interpreted.
  \<^item> \<open>Event_Store\<close>, \<open>Publisher\<close>, \<open>Payment_Gateway\<close>, \<open>Command_Router\<close>: the write side, one
    definition for each method and handler.  \<open>Write_Side\<close> states what the handlers guarantee for a
    request that runs alone; \<open>Concurrency\<close> interleaves the phases of many requests.
  \<^item> \<open>Read_Model\<close>: the SQL statements, with the constraints of the schema, and
    \<open>project_to_postgres\<close>.  \<open>Projection\<close>: the tables as a refinement of \<open>Order_Spec\<close>.
    \<open>Consumer\<close>: the loop over the messages of all partitions, with the positions that a commit writes.
    \<open>Retry_Handler\<close>: the Lambda function.
  \<^item> \<open>Py_Text\<close>, \<open>Archiver\<close>: decimal numbers, dates and lines of text, and the archiver with its batch,
    last offset and consumer positions as a record, and the contract under which no object is overwritten
    (\<open>archive_keys\<close>), kept by distinct offsets or by a clock that ticks.
  \<^item> \<open>Query_Router\<close>: the query handlers, their SELECT statements as functions of the tables, and the
    response models; \<open>Query_Side\<close>: what the answers show, and the cache beside the consumer;
    \<open>Json_Codec\<close>: a printer and parser with its round trip, on which the JSON laws are interpreted.
  \<^item> \<open>Pipeline\<close>: a consumer whose services answer (\<open>consumer_up\<close>) projects every event, once and in order.
    \<open>Consumer_Process\<close>: the consumer from connecting to closing, and its life over any number of starts and
    any order in which Kafka delivers the partitions.
  \<^item> \<open>Provenance\<close>, \<open>System\<close>: where the rows of the read model come from, and all processes -- requests, consumer,
    Lambda, archiver, queries -- as one step relation over the shared services (\<open>system_laws\<close>).
    \<open>Event_Schema\<close>: the types of the stored documents along that relation.  \<open>Pruning\<close>: what MongoDB's TTL
    index may delete.
  \<^item> \<open>Http_Api\<close>: the routes, methods, status codes and parameters that the decorators declare, the
    validation of the bodies, and the responses, over the parameter \<open>fastapi\<close>.  \<open>Client_Scripts\<close>: the smoke
    test, the expiry test and the parts of the benchmark (\<open>scripts/\<close>) as clients of that interface.
    \<open>Benchmark\<close>: the benchmark as a whole, its workers as tasks that a schedule interleaves.
  \<^item> \<open>Application\<close>: the lifespan and the dependencies.  \<open>Provisioning\<close>: the script that sets up the bucket,
    the queue, the Lambda function with its trigger, and the topics, with the configuration that the
    function reads back.

  \<^bold>\<open>What is shown.\<close>  The store always holds valid histories, whatever requests run concurrently and
  whatever fails; an accepted command has recorded exactly one admitted event, a refused one
  nothing; admitted commands succeed when the services answer; creation is idempotent once it
  has answered.  Replay computes the abstract run, in any delivery order.  A projection takes
  effect exactly once over its three attempts, is idempotent, keeps the schema's constraints and
  the totals, and leaves other orders alone; projecting a history yields the abstract order, and
  the row agrees with the aggregate.  The consumer projects or parks every event, the Lambda
  loses none, and a failing event is retried three times.  The archive holds every well-formed
  event below the committed offset of its partition, and all of them when the services answer, provided no
  two uploads share a key; a batch reads back.
  A query answers the present row or 404, a page is the right slice of the right rows, the
  statistics add up, the audit trail is the whole history, and the cache stays coherent while
  queries and the consumer take turns.  End to end, once the consumer has handled an order's events, a
  query returns the state that the command side rebuilds from the store.  Started on valid documents, the application keeps the store
  valid until it stops.  However all processes interleave and whatever fails, the invariant of the whole
  system holds (\<open>system_ok\<close>): valid histories, consistent tables, every row and item traceable to recorded
  events, every event on the topic and in the queue recorded, expiry only for closed orders; so a row only
  ever shows what some prefix of its order's history says, pruning spares open orders, and every document has
  the fields and types of its event.  Over HTTP, a success means a recorded event, only accepted commands
  write, and a refusal changes nothing.  Over all its restarts the consumer leaves no message below the
  offset of its partition unaccounted for.  The smoke test and the expiry test pass when the services answer;
  the workers of the benchmark end under every fair schedule, with all orders shipped when the services
  answer, and it waits exactly until the read model has caught up.  Provisioning reaches the intended state and is idempotent.  Closed theorems exhibit
  behaviour that the code's comments exclude: a retried creation makes a second order, a late
  redelivery takes a row back, a product added twice is counted differently by the two sides,
  a failing queue loses an event, a query that overlaps a projection caches an old row, a message that is not
  JSON stops its partition for good, two partitions can overwrite each other's batches in the archive, and
  the benchmark counts failed orders, cannot see whether duplicates were discarded, and fails when
  there are no orders.

  \<^bold>\<open>Bounds.\<close>  tenacity's \<open>stop_after_attempt(3)\<close> is the argument of the \<open>retry\<close> parameter, whose
  contract is the total function \<open>retry_attempts\<close>; no definition uses fuel.  The one loop that may not end
  (\<open>await_projections\<close>) is a partial function, and the schedules of the benchmark's workers are finite lists:
  seven rounds for an order and one for a worker are enough.  Versions and
  quantities that the tables hold fit INTEGER and amounts fit NUMERIC(12, 2) where a theorem says
  that a projection succeeds (\<open>amounts_fit\<close>); floats are IEEE doubles throughout.  That every column
  holds a value a query can return (\<open>columns_ok\<close>) is an invariant of the consumer.

  \<^bold>\<open>Not modelled.\<close>  Logging and printing, with the figures of the benchmark; back-off waits; the removal of
  expired keys by Redis; the rebalancing of partitions between several consumers of a group, of which the
  deployment has one each; how FastAPI and pydantic convert single values, and the routes of the generated
  documentation; \<open>HealthResponse\<close>, which the code declares and never uses.  A request of a script is one step of
  its world; the interleaving of the requests inside the API is the subject of \<open>Concurrency\<close>.

  \<^bold>\<open>Plan.\<close>  What could be added is the expiry of Redis keys, and consumers that share a group.
\<close>

section \<open>The write model and the read model\<close>

text \<open>Whole, non-negative amounts that stay below \<open>2\<^sup>53\<close> add up without rounding.\<close>

lemma fl_sum_exact:
  assumes "0 \<le> a" and "\<And>k. k \<in> set ks \<Longrightarrow> 0 \<le> k" and "a + sum_list ks < 2 ^ 53"
  shows "foldl fl_add (Fin (of_int a)) (map (\<lambda>k. Fin (of_int k)) ks) = Fin (of_int (a + sum_list ks))"
  using assms
proof (induction ks arbitrary: a)
  case Nil
  then show ?case by simp
next
  case (Cons k ks)
  have nn: "0 \<le> k" "0 \<le> sum_list ks"
    using Cons.prems(2) by (auto intro: sum_list_nonneg)
  then have "fl_round (of_int (a + k)) = Fin (of_int (a + k))"
    using Cons.prems by (intro fl_round_of_int) simp
  then have step: "fl_add (Fin (of_int a)) (Fin (of_int k)) = Fin (of_int (a + k))"
    by simp
  have "foldl fl_add (Fin (of_int (a + k))) (map (\<lambda>k. Fin (of_int k)) ks) = Fin (of_int (a + k + sum_list ks))"
    using Cons.prems nn by (intro Cons.IH) auto
  then show ?case using step by (simp add: algebra_simps del: fl_add.simps)
qed

definition whole_amounts :: "item list \<Rightarrow> bool" where
  "whole_amounts its \<longleftrightarrow> (\<forall>it \<in> set its. \<exists>k. 0 \<le> k \<and> it_line_total it = Fin (of_int k))"

text \<open>The total of whole amounts, in floats and in NUMERIC.\<close>

lemma whole_sum:
  assumes "whole_amounts its" and "sum_list (map line_cents its) < 10 ^ 10"
  obtains n where "0 \<le> n" and "n < 10 ^ 10" and "sum_list (map line_cents its) = of_int n"
    and "foldl fl_add (Fin 0) (map it_line_total its) = Fin (of_int n)"
proof -
  define amt where "amt it = \<lfloor>float_val (it_line_total it)\<rfloor>" for it :: item
  have amt: "0 \<le> amt it \<and> it_line_total it = Fin (of_int (amt it))" if "it \<in> set its" for it
    using assms(1) that by (auto simp: whole_amounts_def amt_def)
  have "cents (of_int k)" for k
    by (simp add: cents_def Ints_mult)
  then have "line_cents it = of_int (amt it)" if "it \<in> set its" for it
    using amt [OF that] by (simp add: line_cents_def round_scale_exact)
  then have "map line_cents its = map (\<lambda>it. of_int (amt it)) its"
    by simp
  moreover have "sum_list (map (\<lambda>it. rat_of_int (amt it)) xs) = of_int (sum_list (map amt xs))" for xs
    by (induction xs) auto
  ultimately have sum: "sum_list (map line_cents its) = of_int (sum_list (map amt its))"
    by (simp only:)
  then have "rat_of_int (sum_list (map amt its)) < of_int (10 ^ 10)"
    using assms(2) by simp
  then have small: "sum_list (map amt its) < 10 ^ 10"
    by (simp only: of_int_less_iff)
  then have "foldl fl_add (Fin (of_int 0)) (map (\<lambda>k. Fin (of_int k)) (map amt its)) =
      Fin (of_int (0 + sum_list (map amt its)))"
    using amt by (intro fl_sum_exact) auto
  moreover have "map (\<lambda>k. Fin (of_int k)) (map amt its) = map it_line_total its"
    using amt by simp
  ultimately have "foldl fl_add (Fin 0) (map it_line_total its) = Fin (of_int (sum_list (map amt its)))"
    by (simp only: of_int_0 add_0)
  moreover have "0 \<le> sum_list (map amt its)"
    using amt by (intro sum_list_nonneg) auto
  ultimately show thesis using that small sum by blast
qed

lemma order_run_items: "os_items (order_run s ves) = os_items s @ hist_items ves"
proof (induction ves arbitrary: s)
  case Nil
  then show ?case by simp
next
  case (Cons ve ves)
  then show ?case using order_items_step [of s "fst ve" "snd ve"] by simp
qed

lemma projected_row_agrees:
  assumes "mongo_laws M V" and "codec_laws A" and "store_ok (V w)"
    and "load_aggregate M oid w = (Inr agg, w1)" and "get_events M oid w = (Inr (map snd tds), w2)"
    and "text_ok oid" and "rm_inv db0" and "\<not> has_order db0 oid" and "amounts_fit (order_history (V w) oid)"
  shows "\<exists>db r. project_docs A db0 tds = Inr db \<and>
    filter (\<lambda>r. or_order_id r = oid) (pg_orders db) = [r] \<and>
    or_status r = order_status_value (agg_status agg) \<and> or_version r = agg_version agg \<and>
    PStr (or_customer_id r) = agg_customer_id agg \<and> opt_str (or_payment_id r) = agg_payment_id agg \<and>
    opt_str (or_tracking_id r) = agg_tracking_id agg \<and>
    (whole_amounts (hist_items (order_history (V w) oid)) \<and>
     distinct (map it_product_id (hist_items (order_history (V w) oid))) \<longrightarrow>
       agg_total_amount agg = Fin (or_total_amount r) \<and> fl_round (or_total_amount r) = Fin (or_total_amount r) \<and>
       map ir_product_id (filter (\<lambda>i. ir_order_id i = oid) (pg_items db)) =
         map it_product_id (hist_items (order_history (V w) oid)))"
proof -
  let ?h = "order_history (V w) oid" and ?s = "order_state_of (V w) oid"
  have agg: "agg = agg_of (PStr oid) ?s" "?h \<noteq> []"
    using mongo_laws.load_cases [OF assms(1,4,3)] by (auto split: if_splits)
  have docs: "map snd tds = map strip_id (sort_key doc_version (agg_docs (V w) oid))"
    using mongo_laws.get_events_history [OF assms(1,5,3)] by simp
  have "typed_events tds = map (\<lambda>d. the (decode d)) (map snd tds)"
    by (simp add: typed_events_def)
  then have ty: "typed_events tds = ?h"
    by (simp add: docs order_history_def history_def)
  have "d \<in> set (map snd tds) \<Longrightarrow> decode d \<noteq> None \<and> map_of d ''aggregate_id'' = Some (PStr oid)" for d
    using assms(3) by (auto simp: docs store_ok_def wf_doc_def agg_docs_def matches_def dict_simps)
  then have st: "stream_of oid tds"
    by (force simp: stream_of_def)
  have valid: "valid_history ?h" using assms(3) by (simp add: store_ok_def)
  have "tds \<noteq> []" using agg(2) ty by (auto simp: typed_events_def)
  from codec_laws.project_docs_history [OF assms(2) st assms(6) this assms(7,8)] valid assms(9)
  obtain db where db: "project_docs A db0 tds = Inr db" "shows_order oid ?s db"
    by (auto simp: ty)
  then obtain r where r: "filter (\<lambda>r. or_order_id r = oid) (pg_orders db) = [r]" "row_shows ?s r"
    "or_total_amount r = sum_list (map ir_line_total (item_rows oid (hist_items ?h)))"
    "filter (\<lambda>i. ir_order_id i = oid) (pg_items db) = item_rows oid (hist_items ?h)"
    by (auto simp: shows_order_def order_run_items order_init_def)
  have tot: "agg_total_amount agg = Fin (or_total_amount r) \<and> fl_round (or_total_amount r) = Fin (or_total_amount r)"
    if whole: "whole_amounts (hist_items ?h)" and dist: "distinct (map it_product_id (hist_items ?h))"
  proof -
    obtain n where n: "0 \<le> n" "n < 10 ^ 10" "sum_list (map line_cents (hist_items ?h)) = of_int n"
      "foldl fl_add (Fin 0) (map it_line_total (hist_items ?h)) = Fin (of_int n)"
      using whole_sum [OF whole] assms(9) by (auto simp: amounts_fit_def)
    have "or_total_amount r = of_int n"
      using r(3) n(3) item_rows_distinct [OF dist] by (simp add: item_row_of_def comp_def)
    moreover have "os_total ?s = Fin (of_int n)"
      using valid_history_inv [OF valid] n(4) by (simp add: order_inv_def order_run_items)
    moreover have "fl_round (of_int n) = Fin (of_int n)"
      using n(1,2) by (intro fl_round_of_int) simp
    ultimately show ?thesis by (simp add: agg(1) agg_of_def)
  qed
  have "map ir_product_id (item_rows oid (hist_items ?h)) = map it_product_id (hist_items ?h)"
    if "distinct (map it_product_id (hist_items ?h))"
    using item_rows_distinct [OF that] by (simp add: item_row_of_def comp_def)
  then show ?thesis
    using db(1) r tot by (auto simp: agg(1) agg_of_def row_shows_def)
qed

text \<open>What the consumer makes of the messages that carry an order's events.\<close>

lemma consumed_row_agrees:
  assumes "mongo_laws M V" and "consumer_up D V live" and "live w" and "store_ok (V w)" and "cache_coherent Q (V w)"
    and "load_aggregate M oid w = (Inr agg, wl)" and "get_events M oid w = (Inr (map snd mds), wg)"
    and "\<forall>(m, d) \<in> set mds. ce_loads D (km_value m) = Inr (PDict d) \<and> processed_key D d \<notin> dom (b_kv (V w))"
    and "distinct (map (\<lambda>md. processed_key D (snd md)) mds)"
    and "text_ok oid" and "rm_inv (b_tables (V w))" and "\<not> has_order (b_tables (V w)) oid"
    and "amounts_fit (order_history (V w) oid)"
  obtains w1 r where "consume D (map fst mds) pos w = (Inr (), w1)" and "cache_coherent Q (V w1)"
    and "filter (\<lambda>r. or_order_id r = oid) (pg_orders (b_tables (V w1))) = [r]"
    and "or_status r = order_status_value (agg_status agg)" and "or_version r = agg_version agg"
    and "PStr (or_customer_id r) = agg_customer_id agg" and "opt_str (or_payment_id r) = agg_payment_id agg"
    and "opt_str (or_tracking_id r) = agg_tracking_id agg"
    and "whole_amounts (hist_items (order_history (V w) oid)) \<and>
      distinct (map it_product_id (hist_items (order_history (V w) oid))) \<longrightarrow>
      fl_round (or_total_amount r) = agg_total_amount agg"
proof -
  let ?A = "pg_codec_of (ce_pool D)"
  have codec: "codec_laws ?A"
    using consumer_up.axioms(1) [OF assms(2)] by (auto simp: consumer_laws_def pool_laws_def)
  note agrees = projected_row_agrees [OF assms(1) codec assms(4,6) _ assms(10-13)]
  have zip: "map snd (zip ts (map snd mds)) = map snd mds" if "length ts = length mds" for ts :: "rat list"
    using that by simp
  have "ce_loads D (km_value m) = Inr (PDict d) \<and> map_of d ''aggregate_id'' = Some (PStr oid) \<and>
      processed_key D d \<notin> dom (b_kv (V w))" if "(m, d) \<in> set mds" for m d
  proof -
    have "d \<in> set (map snd mds)" using that by force
    then have "d \<in> strip_id ` set (agg_docs (V w) oid)"
      using mongo_laws.get_events_history [OF assms(1,7,4)] by simp
    then show ?thesis using that assms(8) by (auto simp: agg_docs_def matches_def dict_simps)
  qed
  moreover have "\<exists>db. project_docs ?A (b_tables (V w)) (zip ts (map snd mds)) = Inr db"
    if "length ts = length mds" for ts
    using agrees [of "zip ts (map snd mds)" wg] assms(7) zip [OF that] by auto
  ultimately obtain w1 ts where w1: "consume D (map fst mds) pos w = (Inr (), w1)" "cache_coherent Q (V w1)"
    "length ts = length mds" "project_docs ?A (b_tables (V w)) (zip ts (map snd mds)) = Inr (b_tables (V w1))"
    using consumer_up.consume_up [OF assms(2,3,5,10) _ assms(9)] by blast
  then show thesis
    using that [of w1] agrees [of "zip ts (map snd mds)" wg] assms(7) zip [OF w1(3)] by auto
qed

section \<open>Properties\<close>

text \<open>
  The two sides of the system agree: when the events of an order are projected, in the order
  in which the event store delivers them, into tables without that order, the row the query side
  reads shows what the command side's aggregate says -- status, version, customer, payment,
  tracking number -- and, when no product was added twice and amounts are whole, the same items
  and the same total, although one is computed in floats and the other in NUMERIC.
\<close>

theorem read_model_agrees_with_aggregate:
  assumes "mongo_laws M V" and "codec_laws A" and "store_ok (V w)"
    and "load_aggregate M oid w = (Inr agg, w1)" and "get_events M oid w = (Inr (map snd tds), w2)"
    and "text_ok oid" and "rm_inv db0" and "\<not> has_order db0 oid" and "amounts_fit (order_history (V w) oid)"
  shows "\<exists>db r. project_docs A db0 tds = Inr db \<and>
    filter (\<lambda>r. or_order_id r = oid) (pg_orders db) = [r] \<and>
    or_status r = order_status_value (agg_status agg) \<and> or_version r = agg_version agg \<and>
    PStr (or_customer_id r) = agg_customer_id agg \<and> opt_str (or_payment_id r) = agg_payment_id agg \<and>
    opt_str (or_tracking_id r) = agg_tracking_id agg \<and>
    (whole_amounts (hist_items (order_history (V w) oid)) \<and>
     distinct (map it_product_id (hist_items (order_history (V w) oid))) \<longrightarrow>
       agg_total_amount agg = Fin (or_total_amount r) \<and>
       map ir_product_id (filter (\<lambda>i. ir_order_id i = oid) (pg_items db)) =
         map it_product_id (hist_items (order_history (V w) oid)))"
  using projected_row_agrees [OF assms] by fast

theorem read_model_agrees_with_aggregate_witness:
  "\<exists>agg w1 db r. load_aggregate mem_mongo ''o1'' mem_one = (Inr agg, w1) \<and>
     project_docs mem_codec no_rows [(0, model_dump sample_first)] = Inr db \<and>
     filter (\<lambda>r. or_order_id r = ''o1'') (pg_orders db) = [r] \<and>
     or_status r = order_status_value (agg_status agg) \<and> agg_total_amount agg = Fin (or_total_amount r)"
proof -
  obtain agg w1 where load: "load_aggregate mem_mongo ''o1'' mem_one = (Inr agg, w1)"
    using mem_up.load_up [OF _ mem_one_ok, of "''o1''"] by auto
  obtain w2 where get: "get_events mem_mongo ''o1'' mem_one = (Inr (map snd [(0::rat, model_dump sample_first)]), w2)"
    using mem_one_events by auto
  have "text_ok ''o1''" "amounts_fit (order_history (mem_state mem_one) ''o1'')"
    by (simp_all add: text_ok_def amounts_fit_def int4_def)
  from read_model_agrees_with_aggregate [OF mem_mongo.mongo_laws_axioms mem_codec.codec_laws_axioms
      mem_one_ok load get this(1) no_rows_inv this(2)] load
  show ?thesis by (simp add: whole_amounts_def) blast
qed

text \<open>
  C5. Eventual consistency, end to end: when the consumer has handled the messages that carry an
  order's events -- in the order of the event store, for the first time, with services that
  answer -- a query for the order returns exactly the state that the command side rebuilds from
  the store: its status, version, customer, payment and tracking number, and, for whole amounts
  of products added once, its total.
\<close>

theorem eventual_consistency:
  assumes "mongo_laws M V" and "consumer_up D V live" and "query_laws Q V" and "query_up Q"
    and "live w" and "store_ok (V w)" and "cache_coherent Q (V w)"
    and "load_aggregate M oid w = (Inr agg, wl)" and "get_events M oid w = (Inr (map snd mds), wg)"
    and "\<forall>(m, d) \<in> set mds. ce_loads D (km_value m) = Inr (PDict d) \<and> processed_key D d \<notin> dom (b_kv (V w))"
    and "distinct (map (\<lambda>md. processed_key D (snd md)) mds)"
    and "text_ok oid" and "rm_inv (b_tables (V w))" and "\<not> has_order (b_tables (V w)) oid"
    and "amounts_fit (order_history (V w) oid)" and "columns_ok (b_tables (V w))"
  shows "\<exists>w1 d w2. consume D (map fst mds) pos w = (Inr (), w1) \<and> get_order Q oid w1 = (Inr (PDict d), w2) \<and>
    map_of d ''status'' = Some (PStr (order_status_value (agg_status agg))) \<and>
    map_of d ''version'' = Some (PInt (agg_version agg)) \<and> map_of d ''customer_id'' = Some (agg_customer_id agg) \<and>
    map_of d ''payment_id'' = Some (agg_payment_id agg) \<and> map_of d ''tracking_id'' = Some (agg_tracking_id agg) \<and>
    (whole_amounts (hist_items (order_history (V w) oid)) \<and>
     distinct (map it_product_id (hist_items (order_history (V w) oid))) \<longrightarrow>
       map_of d ''total_amount'' = Some (PFloat (agg_total_amount agg)))"
proof -
  obtain w1 r where w1: "consume D (map fst mds) pos w = (Inr (), w1)" "cache_coherent Q (V w1)"
    and one: "filter (\<lambda>r. or_order_id r = oid) (pg_orders (b_tables (V w1))) = [r]"
    and r: "or_status r = order_status_value (agg_status agg)" "or_version r = agg_version agg"
    "PStr (or_customer_id r) = agg_customer_id agg" "opt_str (or_payment_id r) = agg_payment_id agg"
    "opt_str (or_tracking_id r) = agg_tracking_id agg"
    "whole_amounts (hist_items (order_history (V w) oid)) \<and>
      distinct (map it_product_id (hist_items (order_history (V w) oid))) \<longrightarrow>
      fl_round (or_total_amount r) = agg_total_amount agg"
    by (rule consumed_row_agrees [OF assms(1,2,5-15)])
  note cols = consumer_laws.consume_columns [OF consumer_up.axioms(1) [OF assms(2)] w1(1) assms(16)]
  have only: "r' = r" if "r' \<in> set (pg_orders (b_tables (V w1)))" "or_order_id r' = oid" for r'
    using that arg_cong [OF one, of set] by auto
  have "has_order (b_tables (V w1)) oid"
    using arg_cong [OF one, of set] by (auto simp: has_order_def)
  with query_laws.get_order_up [OF assms(3,4) w1(2) cols assms(12)]
  obtain content w2 where q: "get_order Q oid w1 = (Inr content, w2)" by auto
  with query_laws.get_order_cases [OF assms(3) q w1(2) cols assms(12)] only
  obtain d its where "content = PDict d" "shows_row d r its"
    by (auto simp: answers_def)
  then show ?thesis
    using w1(1) q r by (auto simp: shows_row_def)
qed

text \<open>A consumer whose messages carry the first event of the sample order.\<close>

abbreviation first_consumer :: "mem consumer_env" where
  "first_consumer \<equiv> mem_consumer True (\<lambda>_. Inr (PDict (model_dump sample_first)))"

theorem eventual_consistency_witness:
  "\<exists>w1 d w2. consume first_consumer [sample_msg] (\<lambda>_. 0) mem_one = (Inr (), w1) \<and>
     get_order (mem_query True) ''o1'' w1 = (Inr (PDict d), w2) \<and> map_of d ''status'' = Some (PStr ''PENDING'')"
proof -
  let ?mds = "[(sample_msg, model_dump sample_first)]"
  obtain wl where load: "load_aggregate mem_mongo ''o1'' mem_one =
      (Inr (agg_of (PStr ''o1'') (order_state_of (mem_state mem_one) ''o1'')), wl)"
    using mem_up.load_up [OF _ mem_one_ok, of "''o1''"] by auto
  obtain wg where get: "get_events mem_mongo ''o1'' mem_one = (Inr (map snd ?mds), wg)"
    using mem_one_events by auto
  have fresh: "\<forall>(m, d) \<in> set ?mds. ce_loads first_consumer (km_value m) = Inr (PDict d) \<and>
      processed_key first_consumer d \<notin> dom (b_kv (mem_state mem_one))"
    by (simp add: mem_consumer_def)
  have fit: "text_ok ''o1''" "amounts_fit (order_history (mem_state mem_one) ''o1'')"
    "cache_coherent (mem_query True) (mem_state mem_one)" "distinct (map (\<lambda>md. processed_key first_consumer (snd md)) ?mds)"
    by (simp_all add: text_ok_def amounts_fit_def int4_def cache_coherent_def)
  have rows: "rm_inv (b_tables (mem_state mem_one))" "\<not> has_order (b_tables (mem_state mem_one)) ''o1''"
    using no_rows_inv by (simp_all add: mem_one_def mem_ready_eq mem_init_def)
  have cols: "columns_ok (b_tables (mem_state mem_one))"
    by (simp add: columns_ok_def mem_one_def mem_ready_eq mem_init_def)
  from eventual_consistency [where pos = "\<lambda>_. 0", OF mem_mongo.mongo_laws_axioms mem_consumer_up.consumer_up_axioms mem_query.query_laws_axioms
      mem_query_up mem_one_state(5) mem_one_ok fit(3) load get fresh fit(4,1) rows fit(2) cols]
  show ?thesis by (auto simp: agg_of_def)
qed

end
